(* ===== verification/CW_Prelude.thy ===== *)
theory CW_Prelude
  imports Main "HOL-Library.Word" "HOL-Library.List_Lexorder"
begin

text \<open>
  The prelude of the development: the C character and string routines the sources call
  (\<open>toupper\<close>, \<open>strchr\<close>, \<open>strcmp\<close>, \<open>strcasecmp\<close>, \<open>atoi\<close>, \<open>sscanf\<close> with \<open>%d\<close>,
  \<open>cw_copy_string\<close>), the collections of rewrite rules the components share, and generic
  facts on lists.

  A C string is the list of its characters without the terminating NUL; reading the
  character at the end of the list yields NUL (\<open>at0\<close>).  The plain \<open>char\<close> of the target
  is signed, so a relational comparison of characters goes through \<open>cval\<close>; \<open>strcmp\<close>
  compares unsigned bytes, as the C standard says.
\<close>

unbundle bit_operations_syntax

named_theorems cstr_simps \<open>evaluation of the C string routines\<close>
named_theorems heap_simps \<open>reading a linked structure after an update elsewhere\<close>
named_theorems inv_intros \<open>preservation of a component's invariant\<close>

type_synonym u8 = "8 word"
type_synonym u32 = "32 word"

section \<open>Characters\<close>

abbreviation ucval :: "char \<Rightarrow> nat" where
  "ucval c \<equiv> of_char c"

definition cval :: "char \<Rightarrow> int" where
  "cval c = (let n = int (ucval c) in if n < 128 then n else n - 256)"

abbreviation NUL :: char where
  "NUL \<equiv> CHR 0x00"

definition at0 :: "string \<Rightarrow> char" where
  "at0 s = (case s of [] \<Rightarrow> NUL | c # _ \<Rightarrow> c)"

definition toupper :: "char \<Rightarrow> char" where
  "toupper c = (if 97 \<le> ucval c \<and> ucval c \<le> 122 then char_of (ucval c - 32) else c)"

definition tolower :: "char \<Rightarrow> char" where
  "tolower c = (if 65 \<le> ucval c \<and> ucval c \<le> 90 then char_of (ucval c + 32) else c)"

definition isdigit :: "char \<Rightarrow> bool" where
  "isdigit c \<longleftrightarrow> 48 \<le> ucval c \<and> ucval c \<le> 57"

definition isspace :: "char \<Rightarrow> bool" where
  "isspace c \<longleftrightarrow> ucval c = 32 \<or> (9 \<le> ucval c \<and> ucval c \<le> 13)"

definition in_range :: "char \<Rightarrow> char \<Rightarrow> char \<Rightarrow> bool" where
  "in_range lo hi c \<longleftrightarrow> cval lo \<le> cval c \<and> cval c \<le> cval hi"

lemma ucval_less_256: "ucval c < 256"
  by (rule nat_of_char_less_256)

lemma cval_range_ascii:
  "ucval lo < 128 \<Longrightarrow> ucval hi < 128 \<Longrightarrow>
     cval lo \<le> cval c \<and> cval c \<le> cval hi \<longleftrightarrow> ucval lo \<le> ucval c \<and> ucval c \<le> ucval hi"
proof (cases "ucval c < 128")
  case False
  assume lo: "ucval lo < 128" and hi: "ucval hi < 128"
  have "cval c < 0"
    using False ucval_less_256 [of c] unfolding cval_def Let_def by (simp del: nat_of_char_less_256)
  moreover have "0 \<le> cval lo" using lo by (simp add: cval_def Let_def)
  moreover have "\<not> ucval c \<le> ucval hi" using False hi by simp
  ultimately show ?thesis by auto
qed (auto simp: cval_def Let_def)

lemma at0_simps [simp, cstr_simps]: "at0 [] = NUL" "at0 (c # s) = c"
  by (simp_all add: at0_def)

lemma toupper_eq_other:
  "ucval x < 65 \<or> 90 < ucval x \<Longrightarrow> ucval x < 97 \<or> 122 < ucval x \<Longrightarrow> toupper c = x \<longleftrightarrow> c = x"
  by (auto simp: toupper_def of_char_of)

section \<open>Strings\<close>

fun strcmp :: "string \<Rightarrow> string \<Rightarrow> int" where
  "strcmp [] [] = 0"
| "strcmp [] (y # ys) = -1"
| "strcmp (x # xs) [] = 1"
| "strcmp (x # xs) (y # ys) =
     (if x = y then strcmp xs ys else if ucval x < ucval y then -1 else 1)"

definition strcasecmp :: "string \<Rightarrow> string \<Rightarrow> int" where
  "strcasecmp s t = strcmp (map tolower s) (map tolower t)"

definition strchr :: "string \<Rightarrow> char \<Rightarrow> string option" where
  "strchr s c = (case dropWhile (\<lambda>x. x \<noteq> c) s of [] \<Rightarrow> None | t \<Rightarrow> Some t)"

text \<open>The text before the first \<open>c\<close> and the text after it, when there is one.\<close>

definition split_at :: "char \<Rightarrow> string \<Rightarrow> (string \<times> string) option" where
  "split_at c s =
     (if c \<in> set s then Some (takeWhile (\<lambda>x. x \<noteq> c) s, tl (dropWhile (\<lambda>x. x \<noteq> c) s)) else None)"

text \<open>\<open>cw_copy_string\<close> of \<open>include/callweaver/strings.h\<close>: at most \<open>size - 1\<close> characters.\<close>

definition cw_copy_string :: "string \<Rightarrow> nat \<Rightarrow> string" where
  "cw_copy_string src sz = take (sz - 1) src"

definition digit_val :: "char \<Rightarrow> int" where
  "digit_val c = int (ucval c) - 48"

fun digits_val :: "int \<Rightarrow> string \<Rightarrow> int" where
  "digits_val acc [] = acc"
| "digits_val acc (c # s) = (if isdigit c then digits_val (10 * acc + digit_val c) s else acc)"

text \<open>
  \<open>scan_int\<close> is the conversion \<open>%d\<close>: white space is skipped, a sign is optional, at least
  one digit is required; the rest of the input is returned with the value.
\<close>

definition scan_int :: "string \<Rightarrow> (int \<times> string) option" where
  "scan_int s =
     (let t = dropWhile isspace s;
          neg = (at0 t = CHR ''-'');
          u = (if neg \<or> at0 t = CHR ''+'' then tl t else t)
      in if isdigit (at0 u)
         then Some (if neg then - digits_val 0 u else digits_val 0 u, dropWhile isdigit u)
         else None)"

definition atoi :: "string \<Rightarrow> int" where
  "atoi s = (case scan_int s of None \<Rightarrow> 0 | Some (n, _) \<Rightarrow> n)"

section \<open>Laws of the string routines\<close>

lemma strcmp_eq0 [simp]: "strcmp s t = 0 \<longleftrightarrow> s = t"
  by (induction s t rule: strcmp.induct) auto

lemma strcmp_refl [simp]: "strcmp s s = 0"
  by simp

text \<open>
  \<open>strcmp\<close> is the lexicographic order on the bytes; every ordering argument on names goes
  through this lemma and the linear order of \<open>HOL-Library.List_Lexorder\<close>.
\<close>

lemma strcmp_less: "strcmp s t < 0 \<longleftrightarrow> map ucval s < map ucval t"
  by (induction s t rule: strcmp.induct) auto

lemma strcmp_greater: "strcmp s t > 0 \<longleftrightarrow> map ucval t < map ucval s"
  by (induction s t rule: strcmp.induct) (auto simp: order.strict_iff_order)

lemma inj_ucval: "inj ucval"
  by (rule injI) simp

lemma map_ucval_eq [simp]: "map ucval s = map ucval t \<longleftrightarrow> s = t"
  by (simp add: inj_map_eq_map inj_ucval)

lemma strcasecmp_eq0: "strcasecmp s t = 0 \<longleftrightarrow> map tolower s = map tolower t"
  by (simp add: strcasecmp_def)

lemma strcasecmp_refl [simp]: "strcasecmp s s = 0"
  by (simp add: strcasecmp_def)

lemma split_at_None [simp]: "split_at c s = None \<longleftrightarrow> c \<notin> set s"
  by (simp add: split_at_def)

lemma split_at_notin [simp]: "c \<notin> set s \<Longrightarrow> split_at c s = None"
  by simp

lemma split_at_Some:
  "split_at c s = Some (a, b) \<longleftrightarrow> s = a @ c # b \<and> c \<notin> set a"
proof
  assume "split_at c s = Some (a, b)"
  then have c: "c \<in> set s" and a: "a = takeWhile (\<lambda>x. x \<noteq> c) s"
    and b: "b = tl (dropWhile (\<lambda>x. x \<noteq> c) s)"
    by (auto simp: split_at_def split: if_splits)
  from c have ne: "dropWhile (\<lambda>x. x \<noteq> c) s \<noteq> []" by auto
  then have "hd (dropWhile (\<lambda>x. x \<noteq> c) s) = c"
    using hd_dropWhile by blast
  with ne b have "dropWhile (\<lambda>x. x \<noteq> c) s = c # b"
    by (cases "dropWhile (\<lambda>x. x \<noteq> c) s") auto
  with a show "s = a @ c # b \<and> c \<notin> set a"
    by (metis set_takeWhileD takeWhile_dropWhile_id)
next
  assume "s = a @ c # b \<and> c \<notin> set a"
  then show "split_at c s = Some (a, b)"
    by (auto simp: split_at_def takeWhile_append dropWhile_append)
qed

lemma split_at_length:
  "split_at c s = Some (a, b) \<Longrightarrow> length b < length s"
  by (auto simp: split_at_Some)

lemma strchr_None [simp]: "strchr s c = None \<longleftrightarrow> c \<notin> set s"
  by (induction s) (auto simp: strchr_def)

lemma length_cw_copy_string: "0 < n \<Longrightarrow> length (cw_copy_string s n) < n"
  by (simp add: cw_copy_string_def)

lemma cw_copy_string_id: "length s < n \<Longrightarrow> cw_copy_string s n = s"
  by (simp add: cw_copy_string_def)

section \<open>Lists\<close>

text \<open>\<open>remove_first P xs\<close>: what unlinking the first node with \<open>P\<close> leaves of a list.\<close>

fun remove_first :: "('a \<Rightarrow> bool) \<Rightarrow> 'a list \<Rightarrow> 'a list" where
  "remove_first P [] = []"
| "remove_first P (x # xs) = (if P x then xs else x # remove_first P xs)"

lemma remove_first_id: "(\<And>x. x \<in> set xs \<Longrightarrow> \<not> P x) \<Longrightarrow> remove_first P xs = xs"
  by (induction xs) auto

lemma remove_first_append:
  "(\<And>x. x \<in> set xs \<Longrightarrow> \<not> P x) \<Longrightarrow> P y \<Longrightarrow> remove_first P (xs @ y # ys) = xs @ ys"
  by (induction xs) auto

lemma set_remove_first_subset: "set (remove_first P xs) \<subseteq> set xs"
  by (induction xs) auto

lemma sorted_wrt_remove_first:
  "sorted_wrt R xs \<Longrightarrow> sorted_wrt R (remove_first P xs)"
  by (induction xs) (use set_remove_first_subset in fastforce)+

lemma distinct_map_remove_first:
  "distinct (map f xs) \<Longrightarrow> distinct (map f (remove_first P xs))"
  by (induction xs) (use set_remove_first_subset in fastforce)+

section \<open>Words\<close>

lemma u32_sless_0: "(x :: u32) <s 0 \<longleftrightarrow> 2 ^ 31 \<le> unat x"
proof -
  have "(x <s 0) = bit x 31" using bit_last_iff [of x] by (simp add: word_sless_alt)
  also have "\<dots> \<longleftrightarrow> odd (unat x div 2 ^ 31)" proof -
    have "bit (unat x) 31 = bit x 31" by (simp add: bit_unsigned_iff)
    then show ?thesis using bit_iff_odd [of "unat x" 31] by simp
  qed
  also have "\<dots> \<longleftrightarrow> 2 ^ 31 \<le> unat x"
  proof -
    have "unat x < 2 ^ 32" using unsigned_less [of x] by simp
    then have "unat x div 2 ^ 31 = (if 2 ^ 31 \<le> unat x then 1 else 0)"
      by (auto simp: div_nat_eqI)
    then show ?thesis by simp
  qed
  finally show ?thesis .
qed

lemma u32_unat_inc: "unat (x :: u32) < 2 ^ 31 \<Longrightarrow> unat (x + 1) = unat x + 1"
  by (simp add: unat_word_ariths)

section \<open>Operations that keep an invariant\<close>

text \<open>The contract several components share: every operation of an interface keeps the
  invariant of the state; then so does every sequence of operations.\<close>

locale op_machine =
  fixes exec :: "'op \<Rightarrow> 's \<Rightarrow> 's" and inv :: "'s \<Rightarrow> bool"
  assumes exec_inv: "inv s \<Longrightarrow> inv (exec x s)"
begin

lemma fold_inv: "inv s \<Longrightarrow> inv (fold exec xs s)"
  by (induction xs arbitrary: s) (simp_all add: exec_inv)

end

end
