(* ===== verification/CW_Hash.thy ===== *)
theory CW_Hash
  imports CW_Prelude
begin

text \<open>
  The hash codes of \<open>corelib/callweaver_hash.c\<close>: contexts, applications, dialplan functions
  and variables are looked up by these 31 bit values.  A C \<open>unsigned int\<close> is a \<open>32 word\<close>,
  so the shifts, the addition and the subtraction of the loop wrap as in the source.
  The results: the loop is the polynomial with multiplier 65599, the value always fits in
  31 bits, only 32 characters count, and the case-folding variants hash the folded string.
\<close>

definition CWHASH_SIGNIFICANT_CHARS :: nat where
  "CWHASH_SIGNIFICANT_CHARS = 32"

definition sdbm_step :: "u32 \<Rightarrow> char \<Rightarrow> u32" where
  "sdbm_step hash ch = word_of_int (cval ch) + push_bit 6 hash + push_bit 16 hash - hash"

definition cw_hash_string_with_limit :: "string \<Rightarrow> nat \<Rightarrow> u32" where
  "cw_hash_string_with_limit s limit = foldl sdbm_step 0 (take limit s) AND 0x7FFFFFFF"

definition cw_hash_string :: "string \<Rightarrow> u32" where
  "cw_hash_string s = foldl sdbm_step 0 (take CWHASH_SIGNIFICANT_CHARS s) AND 0x7FFFFFFF"

text \<open>The entry check of every routine: \<open>NULL\<close> hashes to 0.\<close>

definition cw_hash_string_null :: "string option \<Rightarrow> u32" where
  "cw_hash_string_null s = (case s of None \<Rightarrow> 0 | Some t \<Rightarrow> cw_hash_string t)"

definition sdbm_step_tolower :: "u32 \<Rightarrow> char \<Rightarrow> u32" where
  "sdbm_step_tolower hash ch =
     (let ch' = (if cval ch \<le> cval (CHR ''Z'') \<and> cval (CHR ''A'') \<le> cval ch
                 then char_of (ucval ch + 32) else ch)
      in sdbm_step hash ch')"

definition cw_hash_string_tolower :: "string \<Rightarrow> u32" where
  "cw_hash_string_tolower s =
     foldl sdbm_step_tolower 0 (take CWHASH_SIGNIFICANT_CHARS s) AND 0x7FFFFFFF"

definition sdbm_step_toupper :: "u32 \<Rightarrow> char \<Rightarrow> u32" where
  "sdbm_step_toupper hash ch =
     (let ch' = (if cval (CHR ''a'') \<le> cval ch \<and> cval ch \<le> cval (CHR ''z'')
                 then char_of (ucval ch - 32) else ch)
      in sdbm_step hash ch')"

definition cw_hash_string_toupper :: "string \<Rightarrow> u32" where
  "cw_hash_string_toupper s =
     foldl sdbm_step_toupper 0 (take CWHASH_SIGNIFICANT_CHARS s) AND 0x7FFFFFFF"

section \<open>The loop as a polynomial\<close>

lemma sdbm_step_poly: "sdbm_step h c = 65599 * h + word_of_int (cval c)"
  by (simp add: sdbm_step_def push_bit_eq_mult algebra_simps)

lemma foldl_sdbm_append:
  "foldl sdbm_step h (s @ t) = foldl sdbm_step (foldl sdbm_step h s) t"
  by simp

lemma foldl_sdbm_poly:
  "foldl sdbm_step h s =
     65599 ^ length s * h + (\<Sum>i<length s. 65599 ^ (length s - 1 - i) * word_of_int (cval (s ! i)))"
proof (induction s rule: rev_induct)
  case Nil
  then show ?case by simp
next
  case (snoc c s)
  have "(\<Sum>i<length s. 65599 ^ (length s - i) * word_of_int (cval (s ! i)))
      = 65599 * (\<Sum>i<length s. 65599 ^ (length s - 1 - i) * (word_of_int (cval (s ! i)) :: u32))"
    unfolding sum_distrib_left
  proof (rule sum.cong)
    fix i assume "i \<in> {..<length s}"
    then have "length s - i = Suc (length s - 1 - i)" by auto
    then show "(65599::u32) ^ (length s - i) * word_of_int (cval (s ! i)) =
        65599 * (65599 ^ (length s - 1 - i) * word_of_int (cval (s ! i)))"
      by (simp only: power_Suc mult.assoc)
  qed simp
  with snoc show ?case
    by (simp add: sdbm_step_poly nth_append algebra_simps)
qed

lemma hash_mask_bound: "unat ((h :: u32) AND 0x7FFFFFFF) < 2 ^ 31"
proof -
  have "h AND 0x7FFFFFFF \<le> 0x7FFFFFFF"
    by (rule word_and_le1)
  then show ?thesis
    by (simp add: word_le_nat_alt)
qed

lemma cw_hash_string_prefix:
  "take CWHASH_SIGNIFICANT_CHARS s = take CWHASH_SIGNIFICANT_CHARS t \<Longrightarrow> cw_hash_string s = cw_hash_string t"
  by (simp add: cw_hash_string_def)

lemma fold_toupper: "sdbm_step_toupper h c = sdbm_step h (toupper c)"
proof -
  have "cval (CHR ''a'') \<le> cval c \<and> cval c \<le> cval (CHR ''z'') \<longleftrightarrow> 97 \<le> ucval c \<and> ucval c \<le> 122"
    by (subst cval_range_ascii) simp_all
  then show ?thesis
    by (simp add: sdbm_step_toupper_def toupper_def Let_def)
qed

lemma fold_tolower: "sdbm_step_tolower h c = sdbm_step h (tolower c)"
proof -
  have "cval c \<le> cval (CHR ''Z'') \<and> cval (CHR ''A'') \<le> cval c \<longleftrightarrow> 65 \<le> ucval c \<and> ucval c \<le> 90"
    by (subst conj_commute, subst cval_range_ascii) simp_all
  then show ?thesis
    by (simp add: sdbm_step_tolower_def tolower_def Let_def)
qed

lemma foldl_map_step: "(\<And>h c. f h c = g h (k c)) \<Longrightarrow> foldl f h s = foldl g h (map k s)"
  by (induction s arbitrary: h) auto

lemma cw_hash_string_tolower_fold: "cw_hash_string_tolower s = cw_hash_string (map tolower s)"
  unfolding cw_hash_string_tolower_def cw_hash_string_def take_map
  by (simp add: foldl_map_step [of sdbm_step_tolower sdbm_step tolower] fold_tolower)

lemma cw_hash_string_toupper_fold: "cw_hash_string_toupper s = cw_hash_string (map toupper s)"
  unfolding cw_hash_string_toupper_def cw_hash_string_def take_map
  by (simp add: foldl_map_step [of sdbm_step_toupper sdbm_step toupper] fold_toupper)

lemma cw_hash_string_with_limit_default:
  "cw_hash_string s = cw_hash_string_with_limit s CWHASH_SIGNIFICANT_CHARS"
  by (simp add: cw_hash_string_def cw_hash_string_with_limit_def)

end
