(* ===== verification/CW_Time.thy ===== *)
theory CW_Time
  imports CW_Prelude "HOL-Library.Signed_Division"
begin

text \<open>
  Arithmetic on \<open>struct timeval\<close>: \<open>corelib/utils.c\<close> (\<open>tvfix\<close>, \<open>cw_tvadd\<close>, \<open>cw_tvsub\<close>) and
  the inline functions of \<open>include/callweaver/time.h\<close>.

  Seconds and microseconds are \<open>int\<close>s (64 bit in the source, far from their bounds); the
  \<open>unsigned int\<close> arguments of \<open>cw_samp2tv\<close> are \<open>32 word\<close>s, and the \<open>int\<close> that
  \<open>cw_tvdiff_ms\<close> returns is cut to 32 bits.
\<close>

section \<open>The routines of the source\<close>

datatype timeval = Timeval (tv_sec: int) (tv_usec: int)

definition cw_tv :: "int \<Rightarrow> int \<Rightarrow> timeval" where
  "cw_tv s u = Timeval s u"

definition tvfix :: "timeval \<Rightarrow> timeval" where
  "tvfix a =
     (if 1000000 \<le> tv_usec a then Timeval (tv_sec a + tv_usec a mod 1000000) (tv_usec a mod 1000000)
      else if tv_usec a < 0 then Timeval (tv_sec a) 0
      else a)"

definition cw_tvadd :: "timeval \<Rightarrow> timeval \<Rightarrow> timeval" where
  "cw_tvadd a b =
     (let a = tvfix a; b = tvfix b;
          s = tv_sec a + tv_sec b; u = tv_usec a + tv_usec b in
      if 1000000 \<le> u then Timeval (s + 1) (u - 1000000) else Timeval s u)"

definition cw_tvsub :: "timeval \<Rightarrow> timeval \<Rightarrow> timeval" where
  "cw_tvsub a b =
     (let a = tvfix a; b = tvfix b;
          s = tv_sec a - tv_sec b; u = tv_usec a - tv_usec b in
      if u < 0 then Timeval (s - 1) (u + 1000000) else Timeval s u)"

definition cw_tvdiff_ms :: "timeval \<Rightarrow> timeval \<Rightarrow> int" where
  "cw_tvdiff_ms end' start =
     signed_take_bit 31 ((tv_sec end' - tv_sec start) * 1000 +
       ((1000000 + tv_usec end' - tv_usec start) sdiv 1000 - 1000))"

definition cw_tvzero :: "timeval \<Rightarrow> bool" where
  "cw_tvzero t \<longleftrightarrow> tv_sec t = 0 \<and> tv_usec t = 0"

definition cw_tvcmp :: "timeval \<Rightarrow> timeval \<Rightarrow> int" where
  "cw_tvcmp a b =
     (if tv_sec a < tv_sec b then - 1
      else if tv_sec b < tv_sec a then 1
      else if tv_usec a < tv_usec b then - 1
      else if tv_usec b < tv_usec a then 1
      else 0)"

definition cw_tveq :: "timeval \<Rightarrow> timeval \<Rightarrow> bool" where
  "cw_tveq a b \<longleftrightarrow> tv_sec a = tv_sec b \<and> tv_usec a = tv_usec b"

definition cw_samp2tv :: "u32 \<Rightarrow> u32 \<Rightarrow> timeval" where
  "cw_samp2tv nsamp rate =
     cw_tv (uint (nsamp div rate)) (uint ((nsamp mod rate) * (1000000 div rate)))"

section \<open>The order of time values\<close>

instantiation timeval :: linorder
begin

definition less_eq_timeval :: "timeval \<Rightarrow> timeval \<Rightarrow> bool" where
  "less_eq_timeval a b \<longleftrightarrow> tv_sec a < tv_sec b \<or> tv_sec a = tv_sec b \<and> tv_usec a \<le> tv_usec b"

definition less_timeval :: "timeval \<Rightarrow> timeval \<Rightarrow> bool" where
  "less_timeval a b \<longleftrightarrow> tv_sec a < tv_sec b \<or> tv_sec a = tv_sec b \<and> tv_usec a < tv_usec b"

instance
  by standard (auto simp: less_eq_timeval_def less_timeval_def intro: timeval.expand)

end

lemma cw_tvcmp_order:
  "cw_tvcmp a b = (if a < b then - 1 else if b < a then 1 else 0)"
  by (auto simp: cw_tvcmp_def less_timeval_def)

lemma cw_tveq_eq: "cw_tveq a b \<longleftrightarrow> a = b"
  by (auto simp: cw_tveq_def intro: timeval.expand)

section \<open>Normalised times and their value in microseconds\<close>

definition tv_ok :: "timeval \<Rightarrow> bool" where
  "tv_ok t \<longleftrightarrow> 0 \<le> tv_usec t \<and> tv_usec t < 1000000"

definition tv_us :: "timeval \<Rightarrow> int" where
  "tv_us t = tv_sec t * 1000000 + tv_usec t"

lemma tvfix_ok [simp]: "tv_ok (tvfix t)"
  by (auto simp: tvfix_def tv_ok_def)

lemma tvfix_id [simp]: "tv_ok t \<Longrightarrow> tvfix t = t"
  by (auto simp: tvfix_def tv_ok_def)

lemma tv_ok_tvadd [simp]: "tv_ok (cw_tvadd a b)"
  using tvfix_ok [of a] tvfix_ok [of b] by (auto simp: cw_tvadd_def tv_ok_def Let_def)

lemma tv_ok_tvsub [simp]: "tv_ok (cw_tvsub a b)"
  using tvfix_ok [of a] tvfix_ok [of b] by (auto simp: cw_tvsub_def tv_ok_def Let_def)

lemma tv_us_tvadd: "tv_ok a \<Longrightarrow> tv_ok b \<Longrightarrow> tv_us (cw_tvadd a b) = tv_us a + tv_us b"
  by (auto simp: cw_tvadd_def tv_us_def Let_def algebra_simps)

lemma tv_us_tvsub: "tv_ok a \<Longrightarrow> tv_ok b \<Longrightarrow> tv_us (cw_tvsub a b) = tv_us a - tv_us b"
  by (auto simp: cw_tvsub_def tv_us_def Let_def algebra_simps)

lemma tv_less_us: "tv_ok a \<Longrightarrow> tv_ok b \<Longrightarrow> a < b \<longleftrightarrow> tv_us a < tv_us b"
  by (auto simp: less_timeval_def tv_us_def tv_ok_def)

lemma tv_us_inj: "tv_ok a \<Longrightarrow> tv_ok b \<Longrightarrow> tv_us a = tv_us b \<longleftrightarrow> a = b"
  using tv_less_us [of a b] tv_less_us [of b a] by auto

lemma samp2tv_ms: "cw_samp2tv n 1000 = Timeval (uint n div 1000) (uint n mod 1000 * 1000)"
proof -
  have "uint ((n mod 1000) * (1000000 div 1000)) = uint n mod 1000 * 1000"
  proof -
    have "(1000000 :: u32) div 1000 = 1000" by simp
    moreover have "uint n mod 1000 * 1000 < 2 ^ 32"
      using pos_mod_bound [of 1000 "uint n"] by simp
    ultimately show ?thesis
      by (simp add: uint_mult_lem uint_mod uint_word_ariths take_bit_eq_mod)
  qed
  then show ?thesis by (simp add: cw_samp2tv_def cw_tv_def uint_div)
qed

lemma samp2tv_ms_ok [simp]: "tv_ok (cw_samp2tv n 1000)"
  by (simp add: samp2tv_ms tv_ok_def)

lemma samp2tv_ms_us: "tv_us (cw_samp2tv n 1000) = uint n * 1000"
  by (simp add: samp2tv_ms tv_us_def) presburger

lemma tv_le_us: "tv_ok a \<Longrightarrow> tv_ok b \<Longrightarrow> a \<le> b \<longleftrightarrow> tv_us a \<le> tv_us b"
  using tv_less_us [of b a] by (auto simp: not_less [symmetric])

lemma tvadd_mono: "tv_ok a \<Longrightarrow> tv_ok b \<Longrightarrow> 0 \<le> tv_us b \<Longrightarrow> a \<le> cw_tvadd a b"
  by (simp add: tv_le_us tv_us_tvadd)

lemma tvdiff_ms_floor:
  assumes "tv_ok e" "tv_ok s" "\<bar>tv_us e - tv_us s\<bar> < 2 ^ 31 * 1000"
  shows "cw_tvdiff_ms e s = (tv_us e - tv_us s) div 1000"
proof -
  let ?d = "1000000 + tv_usec e - tv_usec s"
  have pos: "0 < ?d" using assms(1,2) by (auto simp: tv_ok_def)
  then have sdiv: "?d sdiv 1000 = ?d div 1000" by (simp add: signed_divide_int_def)
  have "(tv_us e - tv_us s) div 1000 = (tv_sec e - tv_sec s) * 1000 + (?d div 1000 - 1000)"
  proof -
    have eq: "tv_us e - tv_us s = ?d + ((tv_sec e - tv_sec s) * 1000 - 1000) * 1000"
      by (simp add: tv_us_def algebra_simps)
    show ?thesis unfolding eq by simp
  qed
  moreover have "- (2 ^ 31) \<le> (tv_us e - tv_us s) div 1000" "(tv_us e - tv_us s) div 1000 < 2 ^ 31"
    using assms(3) by auto
  ultimately show ?thesis
    unfolding cw_tvdiff_ms_def sdiv by (simp add: signed_take_bit_int_eq_self)
qed

section \<open>Properties\<close>

text \<open>
  Adding and subtracting normalised times is exact: the results are normalised, their
  values in microseconds are the sum and the difference, and subtraction undoes addition.
\<close>

theorem tv_arith_exact:
  assumes "tv_ok a" "tv_ok b"
  shows "tv_ok (cw_tvadd a b) \<and> tv_us (cw_tvadd a b) = tv_us a + tv_us b \<and>
    tv_ok (cw_tvsub a b) \<and> tv_us (cw_tvsub a b) = tv_us a - tv_us b \<and>
    cw_tvsub (cw_tvadd a b) b = a"
proof -
  have "tv_us (cw_tvsub (cw_tvadd a b) b) = tv_us a"
    using assms by (simp add: tv_us_tvsub tv_us_tvadd)
  then have "cw_tvsub (cw_tvadd a b) b = a" using assms by (simp add: tv_us_inj)
  with assms show ?thesis by (simp add: tv_us_tvadd tv_us_tvsub)
qed

theorem tv_arith_exact_witness: "cw_tvsub (cw_tvadd (Timeval 7 999999) (Timeval 2 2)) (Timeval 2 2) = Timeval 7 999999"
  using tv_arith_exact [of "Timeval 7 999999" "Timeval 2 2"] by (simp add: tv_ok_def)

text \<open>
  The difference in milliseconds is the exact difference rounded down, for positive and
  negative differences alike, as long as it fits an \<open>int\<close>.
\<close>

theorem tvdiff_ms_exact:
  assumes "tv_ok e" "tv_ok s" "\<bar>tv_us e - tv_us s\<bar> < 2 ^ 31 * 1000"
  shows "cw_tvdiff_ms e s = (tv_us e - tv_us s) div 1000"
  using assms by (rule tvdiff_ms_floor)

theorem tvdiff_ms_exact_witness: "cw_tvdiff_ms (Timeval 5 0) (Timeval 5 1) = - 1"
  using tvdiff_ms_exact [of "Timeval 5 0" "Timeval 5 1"] by (simp add: tv_ok_def tv_us_def)

text \<open>
  A time with an overflowing microsecond count is not put in range but corrupted: the
  remainder of the microseconds, not their quotient, is carried into the seconds.
\<close>

theorem tvfix_carry_wrong:
  assumes "1000000 \<le> tv_usec a" "tv_usec a mod 1000000 \<noteq> tv_usec a div 1000000"
  shows "tv_us (tvfix a) \<noteq> tv_us a"
proof -
  have "tv_us (tvfix a) - tv_us a = (tv_usec a mod 1000000 - tv_usec a div 1000000) * 1000000"
    using assms(1) div_mult_mod_eq [of "tv_usec a" 1000000]
    by (simp add: tvfix_def tv_us_def algebra_simps)
  with assms(2) show ?thesis by auto
qed

theorem tvfix_carry_wrong_witness: "tv_us (tvfix (Timeval 0 1500000)) \<noteq> 1500000"
  using tvfix_carry_wrong [of "Timeval 0 1500000"] by (simp add: tv_us_def)

end
