(* ===== verification/CW_Sched.thy ===== *)
theory CW_Sched
  imports CW_Time "HOL-Library.Multiset"
begin

text \<open>
  The scheduler of \<open>corelib/sched.c\<close>: a queue of timed callbacks, soonest first, with a cache
  of released entries.

  \<open>con->schedq\<close> and \<open>con->schedc\<close> are lists; ids and millisecond delays are \<open>32 word\<close>s, read
  as \<open>int\<close> where the code tests their sign.  The clock (\<open>cw_tvnow\<close>) and whether \<open>malloc\<close>
  succeeds are arguments of the operations.  A callback is a parameter: on its data and the
  state \<open>'w\<close> of the outside world it returns an \<open>int\<close> and performs a list of scheduler calls
  (\<open>sched_op\<close>), which also stand for the calls other threads make while the callbacks of
  \<open>cw_sched_runq\<close> run.  \<open>wakeups\<close> counts the signals sent to the service thread.
\<close>

section \<open>Entries and contexts\<close>

record ('c, 'd) sched =
  sched_id :: u32
  sched_when :: timeval
  resched :: u32
  variable :: bool
  data :: 'd
  callback :: 'c

record ('c, 'd) sched_context =
  wakeups :: nat
  eventcnt :: u32
  schedcnt :: int
  schedq :: "('c, 'd) sched list"
  has_thread :: bool
  schedc :: "('c, 'd) sched list"
  schedccnt :: int

definition SCHED_MAX_CACHE :: int where
  "SCHED_MAX_CACHE = 128"

definition SOONER :: "timeval \<Rightarrow> timeval \<Rightarrow> bool" where
  "SOONER a b \<longleftrightarrow> tv_sec b > tv_sec a \<or> tv_sec b = tv_sec a \<and> tv_usec b > tv_usec a"

definition context_create :: "bool \<Rightarrow> ('c, 'd) sched_context option" where
  "context_create mem =
     (if mem then Some \<lparr>wakeups = 0, eventcnt = 1, schedcnt = 0, schedq = [], has_thread = False,
                        schedc = [], schedccnt = 0\<rparr>
      else None)"

definition sched_context_create :: "bool \<Rightarrow> bool \<Rightarrow> ('c, 'd) sched_context option" where
  "sched_context_create mem thread_ok =
     (case context_create mem of
        None \<Rightarrow> None
      | Some tmp \<Rightarrow> if thread_ok then Some (tmp\<lparr>has_thread := True\<rparr>) else None)"

definition sched_manual_context_create :: "bool \<Rightarrow> ('c, 'd) sched_context option" where
  "sched_manual_context_create mem = context_create mem"

section \<open>Operations\<close>

text \<open>\<open>sched_alloc\<close> takes an entry from the cache or allocates one; every field of it is then
  assigned, so only the success and the new cache matter.\<close>

definition sched_alloc :: "bool \<Rightarrow> ('c, 'd) sched_context \<Rightarrow> bool \<times> ('c, 'd) sched_context" where
  "sched_alloc mem con =
     (case schedc con of
        _ # c \<Rightarrow> (True, con\<lparr>schedc := c, schedccnt := schedccnt con - 1\<rparr>)
      | [] \<Rightarrow> (mem, con))"

definition sched_release :: "('c, 'd) sched_context \<Rightarrow> ('c, 'd) sched \<Rightarrow> ('c, 'd) sched_context" where
  "sched_release con tmp =
     (if schedccnt con < SCHED_MAX_CACHE
      then con\<lparr>schedc := tmp # schedc con, schedccnt := schedccnt con + 1\<rparr>
      else con)"

definition cw_sched_wait :: "timeval \<Rightarrow> ('c, 'd) sched_context \<Rightarrow> int" where
  "cw_sched_wait now con =
     (case schedq con of
        [] \<Rightarrow> - 1
      | s # _ \<Rightarrow> (let ms = cw_tvdiff_ms (sched_when s) now in if ms < 0 then 0 else ms))"

fun sched_insert :: "('c, 'd) sched \<Rightarrow> ('c, 'd) sched list \<Rightarrow> ('c, 'd) sched list" where
  "sched_insert s [] = [s]"
| "sched_insert s (current # q) =
     (if SOONER (sched_when s) (sched_when current) then s # current # q
      else current # sched_insert s q)"

definition schedule :: "('c, 'd) sched_context \<Rightarrow> ('c, 'd) sched \<Rightarrow> ('c, 'd) sched_context" where
  "schedule con s =
     (let first = (case schedq con of [] \<Rightarrow> True | c # _ \<Rightarrow> SOONER (sched_when s) (sched_when c)) in
      con\<lparr>schedq := sched_insert s (schedq con),
          schedcnt := schedcnt con + 1,
          wakeups := (if first \<and> has_thread con then wakeups con + 1 else wakeups con)\<rparr>)"

definition cw_sched_add_variable ::
    "bool \<Rightarrow> timeval \<Rightarrow> ('c, 'd) sched_context \<Rightarrow> u32 \<Rightarrow> 'c \<Rightarrow> 'd \<Rightarrow> bool \<Rightarrow>
     u32 \<times> ('c, 'd) sched_context" where
  "cw_sched_add_variable mem now con when' cb d var =
     (case sched_alloc mem con of
        (False, con) \<Rightarrow> (- 1, con)
      | (True, con) \<Rightarrow>
          (let i = eventcnt con; ev = i + 1;
               (i, ev) = (if i <s 0 then (0, 0) else (i, ev));
               tmp = \<lparr>sched_id = i, sched_when = cw_tvadd now (cw_samp2tv when' 1000),
                      resched = when', variable = var, data = d, callback = cb\<rparr> in
           (i, schedule (con\<lparr>eventcnt := ev\<rparr>) tmp)))"

definition cw_sched_add ::
    "bool \<Rightarrow> timeval \<Rightarrow> ('c, 'd) sched_context \<Rightarrow> u32 \<Rightarrow> 'c \<Rightarrow> 'd \<Rightarrow> u32 \<times> ('c, 'd) sched_context" where
  "cw_sched_add mem now con when' cb d = cw_sched_add_variable mem now con when' cb d False"

definition cw_sched_del :: "('c, 'd) sched_context \<Rightarrow> u32 \<Rightarrow> int \<times> ('c, 'd) sched_context" where
  "cw_sched_del con i =
     (case List.extract (\<lambda>s. sched_id s = i) (schedq con) of
        None \<Rightarrow> (- 1, con)
      | Some (before, s, rest) \<Rightarrow>
          (0, sched_release (con\<lparr>schedq := before @ rest, schedcnt := schedcnt con - 1\<rparr>) s))"

datatype ('c, 'd) sched_op =
    Add bool timeval u32 'c 'd bool
  | Del u32

fun exec_op :: "('c, 'd) sched_op \<Rightarrow> ('c, 'd) sched_context \<Rightarrow> ('c, 'd) sched_context" where
  "exec_op (Add mem now when' cb d var) con = snd (cw_sched_add_variable mem now con when' cb d var)"
| "exec_op (Del i) con = snd (cw_sched_del con i)"

text \<open>The first loop of \<open>cw_sched_runq\<close>: the expired entries are cut off the queue.\<close>

fun take_due :: "timeval \<Rightarrow> ('c, 'd) sched list \<Rightarrow> int \<Rightarrow>
    ('c, 'd) sched list \<times> ('c, 'd) sched list \<times> int" where
  "take_due tv [] n = ([], [], n)"
| "take_due tv (s # q) n =
     (if SOONER (sched_when s) tv
      then (let (runq, q', n') = take_due tv q (n - 1) in (s # runq, q', n'))
      else ([], s # q, n))"

text \<open>Its second loop: the callbacks run without the lock, in the order of the list.\<close>

type_synonym ('c, 'd, 'w) behaviour = "'c \<Rightarrow> 'd \<Rightarrow> 'w \<Rightarrow> u32 \<times> ('c, 'd) sched_op list \<times> 'w"

fun run_events :: "('c, 'd, 'w) behaviour \<Rightarrow> ('c, 'd) sched list \<Rightarrow> nat \<Rightarrow> ('c, 'd) sched_context \<Rightarrow>
    'w \<Rightarrow> nat \<times> ('c, 'd) sched_context \<times> 'w" where
  "run_events f [] x con w = (x, con, w)"
| "run_events f (current # runq) x con w =
     (let (res, ops, w) = f (callback current) (data current) w;
          con = fold exec_op ops con;
          con = (if res \<noteq> 0
                 then schedule con (current\<lparr>sched_when := cw_tvadd (sched_when current)
                        (cw_samp2tv (if variable current then res else resched current) 1000)\<rparr>)
                 else sched_release con current) in
      run_events f runq (x + 1) con w)"

definition cw_sched_runq :: "('c, 'd, 'w) behaviour \<Rightarrow> timeval \<Rightarrow> ('c, 'd) sched_context \<Rightarrow> 'w \<Rightarrow>
    nat \<times> ('c, 'd) sched_context \<times> 'w" where
  "cw_sched_runq f now con w =
     (let tv = cw_tvadd now (cw_tv 0 1000);
          (runq, q, n) = take_due tv (schedq con) (schedcnt con) in
      run_events f runq 0 (con\<lparr>schedq := q, schedcnt := n\<rparr>) w)"

definition cw_sched_when :: "timeval \<Rightarrow> ('c, 'd) sched_context \<Rightarrow> u32 \<Rightarrow> int" where
  "cw_sched_when now con i =
     (case List.find (\<lambda>s. sched_id s = i) (schedq con) of
        None \<Rightarrow> - 1
      | Some s \<Rightarrow> tv_sec (sched_when s) - tv_sec now)"

section \<open>The queue as an ordered list\<close>

lemma sort_key_sort_append: "sort_key f (sort_key f xs @ ys) = sort_key f (xs @ ys)"
proof (rule properties_for_sort_key)
  fix k
  have st: "filter (\<lambda>x. f k = f x) (sort_key f zs) = filter (\<lambda>x. f k = f x) zs" for zs
    using sort_key_stable [of f "f k" zs] by (simp add: eq_commute)
  show "filter (\<lambda>x. f k = f x) (sort_key f (xs @ ys)) = filter (\<lambda>x. f k = f x) (sort_key f xs @ ys)"
    by (simp only: st filter_append)
qed simp_all

text \<open>What the rest of the scheduler needs of its queue: insertion keeps the order of time
  and, among equal times, the order of arrival; a cut at \<open>t\<close> splits off the entries before
  \<open>t\<close>.\<close>

locale timed_queue =
  fixes at :: "'e \<Rightarrow> 't :: linorder"
    and enqueue :: "'e \<Rightarrow> 'e list \<Rightarrow> 'e list"
    and cut :: "'t \<Rightarrow> 'e list \<Rightarrow> 'e list \<times> 'e list"
  assumes enqueue_sort: "sorted (map at q) \<Longrightarrow> enqueue e q = sort_key at (q @ [e])"
    and cut_append: "cut t q = (a, b) \<Longrightarrow> a @ b = q"
    and cut_before: "cut t q = (a, b) \<Longrightarrow> e \<in> set a \<Longrightarrow> at e < t"
    and cut_after: "cut t q = (a, c # b) \<Longrightarrow> t \<le> at c"
begin

lemma sorted_enqueue: "sorted (map at q) \<Longrightarrow> sorted (map at (enqueue e q))"
  by (simp add: enqueue_sort)

lemma mset_enqueue: "sorted (map at q) \<Longrightarrow> mset (enqueue e q) = add_mset e (mset q)"
  by (simp add: enqueue_sort)

lemma cut_filter:
  assumes "sorted (map at q)" "cut t q = (a, b)"
  shows "a = filter (\<lambda>e. at e < t) q" "b = filter (\<lambda>e. t \<le> at e) q"
proof -
  have q: "q = a @ b" using cut_append [OF assms(2)] by simp
  have "\<forall>e\<in>set b. t \<le> at e"
    using assms cut_after [of t q a] unfolding q by (cases b) (force simp: sorted_append)+
  moreover have "\<forall>e\<in>set a. at e < t" using cut_before [OF assms(2)] by blast
  ultimately show "a = filter (\<lambda>e. at e < t) q" "b = filter (\<lambda>e. t \<le> at e) q"
    unfolding q by (auto simp: filter_id_conv filter_empty_conv not_le not_less)
qed

lemma enqueue_all: "fold enqueue es [] = sort_key at es"
proof (induction es rule: rev_induct)
  case (snoc e es)
  then show ?case by (simp add: enqueue_sort sort_key_sort_append)
qed simp

end

lemma SOONER_less: "SOONER a b \<longleftrightarrow> a < b"
  by (auto simp: SOONER_def less_timeval_def)

lemma mset_sched_insert [simp]: "mset (sched_insert s q) = add_mset s (mset q)"
  by (induction q) simp_all

lemma set_sched_insert [simp]: "set (sched_insert s q) = insert s (set q)"
  by (induction q) auto

lemma length_sched_insert [simp]: "length (sched_insert s q) = Suc (length q)"
  by (induction q) simp_all

lemma sorted_sched_insert:
  "sorted (map sched_when q) \<Longrightarrow> sorted (map sched_when (sched_insert s q))"
  by (induction q) (auto simp: SOONER_less intro: less_imp_le)

lemma filter_sched_insert:
  "sorted (map sched_when q) \<Longrightarrow>
     filter (\<lambda>x. k = sched_when x) (sched_insert s q) = filter (\<lambda>x. k = sched_when x) (q @ [s])"
proof (induction q)
  case (Cons c q)
  show ?case
  proof (cases "SOONER (sched_when s) (sched_when c)")
    case True
    with Cons.prems have "\<forall>x\<in>set (c # q). sched_when s < sched_when x"
      by (auto simp: SOONER_less)
    then have "filter (\<lambda>x. sched_when s = sched_when x) (c # q) = []" by (auto simp: filter_empty_conv)
    with True show ?thesis by auto
  next
    case False
    with Cons show ?thesis by (cases "k = sched_when c") auto
  qed
qed simp

lemma take_due_split:
  "take_due tv q n = (a, b, m) \<Longrightarrow>
     a @ b = q \<and> (\<forall>s\<in>set a. sched_when s < tv) \<and> (b \<noteq> [] \<longrightarrow> tv \<le> sched_when (hd b)) \<and> m = n - int (length a)"
proof (induction q arbitrary: n a b m)
  case (Cons s q)
  then show ?case
    by (cases "take_due tv q (n - 1)") (fastforce simp: SOONER_less split: if_splits)
qed simp

abbreviation cut_due :: "timeval \<Rightarrow> ('c, 'd) sched list \<Rightarrow> ('c, 'd) sched list \<times> ('c, 'd) sched list" where
  "cut_due tv q \<equiv> (let (a, b, m) = take_due tv q 0 in (a, b))"

interpretation schedq: timed_queue sched_when sched_insert cut_due
proof unfold_locales
  fix q :: "('c, 'd) sched list" and e
  assume q: "sorted (map sched_when q)"
  show "sched_insert e q = sort_key sched_when (q @ [e])"
    by (rule sym, rule properties_for_sort_key)
      (simp_all add: q sorted_sched_insert filter_sched_insert)
next
  fix t and q a b :: "('c, 'd) sched list" and c e
  show "cut_due t q = (a, b) \<Longrightarrow> a @ b = q"
    by (auto split: prod.splits dest: take_due_split)
  show "cut_due t q = (a, b) \<Longrightarrow> e \<in> set a \<Longrightarrow> sched_when e < t"
    by (auto split: prod.splits dest: take_due_split)
  show "cut_due t q = (a, c # b) \<Longrightarrow> t \<le> sched_when c"
    by (auto split: prod.splits dest: take_due_split)
qed

section \<open>The invariant\<close>

definition sched_inv :: "('c, 'd) sched_context \<Rightarrow> bool" where
  "sched_inv con \<longleftrightarrow>
     sorted (map sched_when (schedq con)) \<and> (\<forall>s\<in>set (schedq con). tv_ok (sched_when s)) \<and>
     schedcnt con = int (length (schedq con)) \<and>
     schedccnt con = int (length (schedc con)) \<and> schedccnt con \<le> SCHED_MAX_CACHE"

lemma sched_inv_alloc [inv_intros]: "sched_inv con \<Longrightarrow> sched_inv (snd (sched_alloc mem con))"
  by (auto simp: sched_inv_def sched_alloc_def split: list.splits)

lemma sched_inv_release [inv_intros]: "sched_inv con \<Longrightarrow> sched_inv (sched_release con s)"
  by (auto simp: sched_inv_def sched_release_def)

lemma sched_inv_schedule [inv_intros]:
  "sched_inv con \<Longrightarrow> tv_ok (sched_when s) \<Longrightarrow> sched_inv (schedule con s)"
  by (auto simp: sched_inv_def schedule_def Let_def sorted_sched_insert)

lemma sched_inv_eventcnt [simp]: "sched_inv (con\<lparr>eventcnt := e\<rparr>) = sched_inv con"
  by (simp add: sched_inv_def)

lemma sched_inv_add [inv_intros]:
  assumes "sched_inv con"
  shows "sched_inv (snd (cw_sched_add_variable mem now con w cb d v))"
proof (cases "sched_alloc mem con")
  case (Pair ok con')
  with assms sched_inv_alloc [of con mem] have "sched_inv con'" by simp
  then show ?thesis
    by (cases ok) (auto simp: cw_sched_add_variable_def Pair Let_def intro!: sched_inv_schedule)
qed

lemma sched_inv_del [inv_intros]:
  assumes "sched_inv con"
  shows "sched_inv (snd (cw_sched_del con i))"
  using assms
  by (auto simp: cw_sched_del_def sched_inv_def sched_release_def extract_Some_iff sorted_append
      split: option.splits)

lemma sched_inv_exec_op: "sched_inv con \<Longrightarrow> sched_inv (exec_op p con)"
  by (cases p) (simp_all add: inv_intros)

interpretation sched_ops: op_machine exec_op sched_inv
  by unfold_locales (rule sched_inv_exec_op)

lemma sched_inv_run_events:
  assumes "sched_inv con" "run_events f runq x con w = (y, con', w')"
    and "\<And>s. s \<in> set runq \<Longrightarrow> tv_ok (sched_when s)"
  shows "sched_inv con'"
  using assms
proof (induction f runq x con w rule: run_events.induct)
  case (2 f current runq x con w)
  obtain res ops w1 where f: "f (callback current) (data current) w = (res, ops, w1)"
    by (cases "f (callback current) (data current) w")
  have "sched_inv (fold exec_op ops con)" using "2.prems"(1) by (rule sched_ops.fold_inv)
  with "2.IH" [OF f [symmetric] refl refl refl] "2.prems" show ?case
    by (cases "res = 0") (auto simp: f Let_def inv_intros)
qed simp

lemma sched_inv_take_due:
  assumes "sched_inv con" "take_due tv (schedq con) (schedcnt con) = (a, b, m)"
  shows "sched_inv (con\<lparr>schedq := b, schedcnt := m\<rparr>)" "s \<in> set a \<Longrightarrow> tv_ok (sched_when s)"
proof -
  have q: "schedq con = a @ b" "m = schedcnt con - int (length a)"
    using take_due_split [OF assms(2)] by auto
  show "sched_inv (con\<lparr>schedq := b, schedcnt := m\<rparr>)"
    using assms(1) by (simp add: sched_inv_def q sorted_append ball_Un)
  show "tv_ok (sched_when s)" if "s \<in> set a" using that assms(1) by (simp add: sched_inv_def q ball_Un)
qed

lemma sched_inv_runq [inv_intros]:
  assumes "sched_inv con"
  shows "sched_inv (fst (snd (cw_sched_runq f now con w)))"
proof -
  obtain a b m where t: "take_due (cw_tvadd now (cw_tv 0 1000)) (schedq con) (schedcnt con) = (a, b, m)"
    by (cases "take_due (cw_tvadd now (cw_tv 0 1000)) (schedq con) (schedcnt con)")
  obtain y con' w' where r: "run_events f a 0 (con\<lparr>schedq := b, schedcnt := m\<rparr>) w = (y, con', w')"
    by (cases "run_events f a 0 (con\<lparr>schedq := b, schedcnt := m\<rparr>) w")
  show ?thesis
    using sched_inv_run_events [OF sched_inv_take_due(1) [OF assms t] r] sched_inv_take_due(2) [OF assms t]
    by (simp add: cw_sched_runq_def t r Let_def)
qed

section \<open>What a run of the queue does\<close>

text \<open>The entries a run puts back into the queue, in the order in which it runs them.\<close>

fun rescheduled :: "('c, 'd, 'w) behaviour \<Rightarrow> ('c, 'd) sched list \<Rightarrow> 'w \<Rightarrow> ('c, 'd) sched list" where
  "rescheduled f [] w = []"
| "rescheduled f (s # ss) w =
     (let (res, ops, w') = f (callback s) (data s) w in
      (if res \<noteq> 0
       then [s\<lparr>sched_when := cw_tvadd (sched_when s)
               (cw_samp2tv (if variable s then res else resched s) 1000)\<rparr>]
       else []) @ rescheduled f ss w')"

definition due :: "timeval \<Rightarrow> ('c, 'd) sched_context \<Rightarrow> ('c, 'd) sched list" where
  "due now con = filter (\<lambda>s. sched_when s < cw_tvadd now (cw_tv 0 1000)) (schedq con)"

definition not_due :: "timeval \<Rightarrow> ('c, 'd) sched_context \<Rightarrow> ('c, 'd) sched list" where
  "not_due now con = filter (\<lambda>s. cw_tvadd now (cw_tv 0 1000) \<le> sched_when s) (schedq con)"

lemma take_due_eq:
  "take_due tv q n =
     (takeWhile (\<lambda>s. sched_when s < tv) q, dropWhile (\<lambda>s. sched_when s < tv) q,
      n - int (length (takeWhile (\<lambda>s. sched_when s < tv) q)))"
  by (induction q arbitrary: n) (simp_all add: SOONER_less)

lemma take_due_filter:
  assumes "sched_inv con"
    and "take_due (cw_tvadd now (cw_tv 0 1000)) (schedq con) n = (a, b, m)"
  shows "a = due now con" "b = not_due now con"
proof -
  have "sorted (map sched_when (schedq con))" using assms(1) by (simp add: sched_inv_def)
  moreover have "cut_due (cw_tvadd now (cw_tv 0 1000)) (schedq con) = (a, b)"
    using assms(2) by (simp add: take_due_eq)
  ultimately show "a = due now con" "b = not_due now con"
    unfolding due_def not_due_def by (rule schedq.cut_filter)+
qed

lemma run_events_world:
  "run_events f runq x con w = (y, con', w') \<Longrightarrow>
     y = x + length runq \<and> w' = fold (\<lambda>s w. snd (snd (f (callback s) (data s) w))) runq w"
  by (induction f runq x con w rule: run_events.induct) (auto simp: Let_def split: prod.splits if_splits)

lemma schedq_release [simp]: "schedq (sched_release con s) = schedq con"
  by (simp add: sched_release_def)

lemma schedq_schedule [simp]: "schedq (schedule con s) = sched_insert s (schedq con)"
  by (simp add: schedule_def Let_def)

lemma run_events_quiet:
  assumes "run_events f runq x con w = (y, con', w')" "\<And>c d w. fst (snd (f c d w)) = []"
    and "sorted (map sched_when (schedq con))"
  shows "schedq con' = sort_key sched_when (schedq con @ rescheduled f runq w)"
  using assms
proof (induction f runq x con w rule: run_events.induct)
  case (1 f x con w)
  then show ?case by (simp add: sort_key_id_if_sorted)
next
  case (2 f current runq x con w)
  obtain res w1 where f: "f (callback current) (data current) w = (res, [], w1)"
    using "2.prems"(2) by (metis prod.collapse)
  show ?case
  proof (cases "res = 0")
    case True
    with "2.IH" [OF f [symmetric] refl refl refl] "2.prems" show ?thesis by (simp add: f)
  next
    case False
    with "2.IH" [OF f [symmetric] refl refl refl] "2.prems" show ?thesis
      by (simp add: f schedq.sorted_enqueue schedq.enqueue_sort sort_key_sort_append)
  qed
qed

lemma eventcnt_schedule [simp]: "eventcnt (schedule con s) = eventcnt con"
  by (simp add: schedule_def Let_def)

lemma add_fields:
  assumes "cw_sched_add_variable True now con ms cb d var = (i, con')"
  shows "\<exists>s. schedq con' = sched_insert s (schedq con) \<and> sched_id s = i \<and>
    (i, eventcnt con') = (if eventcnt con <s 0 then (0, 0) else (eventcnt con, eventcnt con + 1))"
proof -
  obtain c1 where c1: "sched_alloc True con = (True, c1)" "eventcnt c1 = eventcnt con" "schedq c1 = schedq con"
    by (cases "schedc con") (simp_all add: sched_alloc_def)
  show ?thesis
    using assms unfolding cw_sched_add_variable_def c1(1)
    by (cases "eventcnt con <s 0") (auto simp: c1(2,3) Let_def)
qed

lemma add_alloc:
  "cw_sched_add_variable mem now con ms cb d var =
     (if mem \<or> schedc con \<noteq> [] then cw_sched_add_variable True now con ms cb d var else (- 1, con))"
  by (auto simp: cw_sched_add_variable_def sched_alloc_def split: list.split)

section \<open>Properties\<close>

text \<open>Reachable contexts: created, then changed by any sequence of calls and queue runs, whatever
  the callbacks do.\<close>

inductive sched_reach :: "('c, 'd, 'w) behaviour \<Rightarrow> ('c, 'd) sched_context \<Rightarrow> bool"
  for f :: "('c, 'd, 'w) behaviour" where
  manual: "sched_manual_context_create mem = Some con \<Longrightarrow> sched_reach f con"
| service: "sched_context_create mem ok = Some con \<Longrightarrow> sched_reach f con"
| call: "sched_reach f con \<Longrightarrow> sched_reach f (exec_op p con)"
| run: "sched_reach f con \<Longrightarrow> cw_sched_runq f now con w = (x, con', w') \<Longrightarrow> sched_reach f con'"

lemmas sched_create_defs =
  sched_manual_context_create_def sched_context_create_def context_create_def SCHED_MAX_CACHE_def

lemma sched_inv_created:
  "sched_manual_context_create mem = Some con \<Longrightarrow> sched_inv con"
  "sched_context_create mem ok = Some con \<Longrightarrow> sched_inv con"
  by (auto simp: sched_inv_def sched_create_defs split: if_splits)

lemma sched_reach_calls: "sched_reach f con \<Longrightarrow> sched_reach f (fold exec_op ps con)"
  by (induction ps arbitrary: con) (auto intro: sched_reach.call)

text \<open>
  C4. In every reachable scheduler context the queue is ordered by time, all times are
  normalised, \<open>schedcnt\<close> is the number of queued entries, and the cache holds \<open>schedccnt\<close>
  entries, at most 128: whatever the callbacks do and however calls and runs interleave.
\<close>

theorem sched_reachable_inv:
  assumes "sched_reach f con"
  shows "sorted (map sched_when (schedq con)) \<and> (\<forall>s\<in>set (schedq con). tv_ok (sched_when s)) \<and>
    schedcnt con = int (length (schedq con)) \<and> schedccnt con = int (length (schedc con)) \<and>
    schedccnt con \<le> SCHED_MAX_CACHE"
proof -
  from assms have "sched_inv con"
  proof induction
    case (run con now w x con' w')
    then show ?case using sched_inv_runq [of con f now w] by simp
  qed (simp_all add: sched_inv_created sched_inv_exec_op)
  then show ?thesis by (simp add: sched_inv_def)
qed

text \<open>A callback for the witnesses: it appends its data to the log \<open>'w\<close> and asks to be run
  again when the data is positive.\<close>

definition logger :: "(unit, nat, nat list) behaviour" where
  "logger c d w = (of_nat d, [], w @ [d])"

definition two_events :: "(unit, nat) sched_context" where
  "two_events =
     fold exec_op [Add True (Timeval 10 0) 20 () 7 False, Add True (Timeval 10 5000) 5 () 0 False]
       (the (sched_manual_context_create True))"

theorem sched_reachable_inv_witness: "map data (schedq two_events) = [0, 7] \<and> schedcnt two_events = 2"
proof -
  have "sched_reach logger two_events"
    unfolding two_events_def
    by (rule sched_reach_calls, rule sched_reach.manual [of True]) (simp add: sched_create_defs)
  then have "schedcnt two_events = int (length (schedq two_events))"
    using sched_reachable_inv by blast
  moreover have "map data (schedq two_events) = [0, 7]" by code_simp
  moreover from this have "length (schedq two_events) = 2"
    by (metis length_map length_Cons list.size(3) numeral_2_eq_2)
  ultimately show ?thesis by simp
qed

text \<open>
  C5. A run of the queue executes exactly the entries due within the next millisecond, each
  once and in the order of their times; entries that ask to run again are not run in the
  same pass.  When the callbacks make no scheduler calls, the queue afterwards is the stable
  sort by time of the entries not due followed by the rescheduled ones.
\<close>

theorem runq_runs_due:
  assumes "sched_inv con" "cw_sched_runq f now con w = (x, con', w')"
  shows "x = length (due now con) \<and>
    w' = fold (\<lambda>s w. snd (snd (f (callback s) (data s) w))) (due now con) w \<and>
    ((\<forall>c d w. fst (snd (f c d w)) = []) \<longrightarrow>
       schedq con' = sort_key sched_when (not_due now con @ rescheduled f (due now con) w))"
proof -
  obtain a b m where t: "take_due (cw_tvadd now (cw_tv 0 1000)) (schedq con) (schedcnt con) = (a, b, m)"
    by (cases "take_due (cw_tvadd now (cw_tv 0 1000)) (schedq con) (schedcnt con)")
  note ab = take_due_filter [OF assms(1) t]
  have r: "run_events f (due now con) 0 (con\<lparr>schedq := not_due now con, schedcnt := m\<rparr>) w = (x, con', w')"
    using assms(2) by (simp add: cw_sched_runq_def t Let_def ab)
  have "sorted (map sched_when (not_due now con))"
    using assms(1) by (simp add: not_due_def sched_inv_def sorted_filter)
  with run_events_quiet [OF r] run_events_world [OF r] show ?thesis by simp
qed

theorem runq_runs_due_witness:
  "snd (snd (cw_sched_runq logger (Timeval 10 19500) two_events [])) = [0, 7]"
proof -
  have "sched_inv two_events"
    unfolding two_events_def
    by (rule sched_ops.fold_inv, rule sched_inv_created(1) [of True]) (simp add: sched_create_defs)
  moreover obtain x con' w' where
    r: "cw_sched_runq logger (Timeval 10 19500) two_events [] = (x, con', w')"
    by (cases "cw_sched_runq logger (Timeval 10 19500) two_events []")
  ultimately have "w' = fold (\<lambda>s w. snd (snd (logger (callback s) (data s) w))) (due (Timeval 10 19500) two_events) []"
    by (blast dest: runq_runs_due)
  also have "\<dots> = [0, 7]" by code_simp
  finally show ?thesis by (simp add: r)
qed



definition ids_below :: "nat \<Rightarrow> ('c, 'd) sched_context \<Rightarrow> bool" where
  "ids_below k con \<longleftrightarrow>
     distinct (map sched_id (schedq con)) \<and> 0 < unat (eventcnt con) \<and> unat (eventcnt con) \<le> k \<and>
     (\<forall>s\<in>set (schedq con). 0 < unat (sched_id s) \<and> unat (sched_id s) < unat (eventcnt con))"

lemma distinct_sched_insert:
  "distinct (map sched_id (sched_insert s q)) \<longleftrightarrow> sched_id s \<notin> sched_id ` set q \<and> distinct (map sched_id q)"
  by (induction q) auto

lemma ids_below_add:
  assumes "ids_below k con" "k < 2 ^ 31"
  shows "ids_below (k + 1) (snd (cw_sched_add_variable mem now con ms cb d var))"
proof -
  obtain i con' where r: "cw_sched_add_variable True now con ms cb d var = (i, con')"
    by (cases "cw_sched_add_variable True now con ms cb d var")
  have ev: "unat (eventcnt con) < 2 ^ 31" using assms by (simp add: ids_below_def)
  then have inc: "\<not> eventcnt con <s 0" "unat (eventcnt con + 1) = Suc (unat (eventcnt con))"
    by (simp_all add: u32_sless_0 u32_unat_inc)
  have fresh: "eventcnt con \<notin> sched_id ` set (schedq con)"
    using assms(1) by (auto simp: ids_below_def)
  have "ids_below (k + 1) con'"
    using add_fields [OF r] assms(1) inc fresh
    by (auto simp: ids_below_def distinct_sched_insert less_Suc_eq)
  with assms(1) r show ?thesis by (subst add_alloc) (auto simp: ids_below_def)
qed

lemma ids_below_del:
  assumes "ids_below k con"
  shows "ids_below (k + 1) (snd (cw_sched_del con i))"
proof (cases "List.extract (\<lambda>s. sched_id s = i) (schedq con)")
  case (Some r)
  then obtain a s b where "schedq con = a @ s # b" "r = (a, s, b)"
    by (cases r) (auto simp: extract_Some_iff)
  with Some assms show ?thesis by (auto simp: ids_below_def cw_sched_del_def sched_release_def)
qed (use assms in \<open>auto simp: ids_below_def cw_sched_del_def\<close>)

lemma ids_below_calls:
  "ids_below k con \<Longrightarrow> k + length ps \<le> 2 ^ 31 \<Longrightarrow> ids_below (k + length ps) (fold exec_op ps con)"
proof (induction ps arbitrary: k con)
  case (Cons p ps)
  then have "ids_below (k + 1) (exec_op p con)"
    using ids_below_add [of k con] ids_below_del [of k con] by (cases p) auto
  with Cons.IH [of "k + 1" "exec_op p con"] Cons.prems show ?case by simp
qed simp

text \<open>
  Ids are unique until the counter wraps: after any sequence of fewer than \<open>2 ^ 31\<close> calls
  on a fresh context all queued entries have different, positive ids.
\<close>

theorem sched_ids_distinct:
  assumes "sched_context_create mem ok = Some con" "length ps < 2 ^ 31"
  shows "distinct (map sched_id (schedq (fold exec_op ps con))) \<and>
    (\<forall>s\<in>set (schedq (fold exec_op ps con)). 0 < sched_id s)"
proof -
  have "ids_below 1 con" using assms(1) by (auto simp: sched_create_defs ids_below_def split: if_splits)
  from ids_below_calls [OF this, of ps] assms(2) show ?thesis
    by (auto simp: ids_below_def word_less_nat_alt)
qed

theorem sched_ids_distinct_witness:
  "distinct (map sched_id (schedq (fold exec_op
     [Add True (Timeval 1 0) 20 () (0::nat) False, Add True (Timeval 1 0) 20 () 1 False, Del 1]
     (the (sched_context_create True True)))))"
  using sched_ids_distinct [of True True "the (sched_context_create True True)"
      "[Add True (Timeval 1 0) 20 () (0::nat) False, Add True (Timeval 1 0) 20 () 1 False, Del 1]"]
  by (simp add: sched_create_defs)

text \<open>
  When the id counter has passed the largest \<open>int\<close>, the next two entries both get the
  id 0: the reset assigns 0 to the counter as well as to the entry, without counting on.
  Cancelling the second one then removes whichever of the two comes first in the queue.
\<close>

theorem sched_id_zero_twice:
  assumes "eventcnt con = 0x80000000"
    and "cw_sched_add_variable True now con ms cb d var = (i, con1)"
    and "cw_sched_add_variable True now' con1 ms' cb' d' var' = (j, con2)"
  shows "i = 0 \<and> j = 0 \<and>
    (\<exists>s s'. schedq con2 = sched_insert s' (sched_insert s (schedq con)) \<and> sched_id s = 0 \<and> sched_id s' = 0)"
proof -
  have neg: "(0x80000000 :: u32) <s 0" "\<not> (0 :: u32) <s 0" by (simp_all add: u32_sless_0)
  have 1: "i = 0 \<and> eventcnt con1 = 0 \<and> (\<exists>s. schedq con1 = sched_insert s (schedq con) \<and> sched_id s = 0)"
    using add_fields [OF assms(2)] assms(1) neg by auto
  moreover have "j = 0 \<and> (\<exists>s. schedq con2 = sched_insert s (schedq con1) \<and> sched_id s = 0)"
    using add_fields [OF assms(3)] 1 neg by auto
  ultimately show ?thesis by metis
qed

definition wrapped :: "(unit, nat) sched_context" where
  "wrapped = (the (sched_manual_context_create True))\<lparr>eventcnt := 0x80000000\<rparr>"

theorem sched_id_zero_twice_witness:
  "fst (cw_sched_add_variable True (Timeval 1 0)
          (snd (cw_sched_add_variable True (Timeval 1 0) wrapped 5 () 1 False)) 5 () 2 False) = 0"
  using sched_id_zero_twice [of wrapped "Timeval 1 0" 5 "()" 1 False, OF _ prod.collapse [symmetric] prod.collapse [symmetric]]
  by (simp add: wrapped_def)

end
