(* ===== verification/CW_Acl.thy ===== *)
theory CW_Acl
  imports CW_Prelude
begin

text \<open>
  Host access lists, \<open>corelib/acl.c\<close>: a list of rules (network, mask, sense) that channel
  drivers apply to the address of a peer.

  Addresses and masks are \<open>32 word\<close>s in host byte order (the source keeps them in network
  order; \<open>htonl\<close> is a permutation of the bytes that commutes with the bitwise operations).
  The linked list of rules is a list.  Memory from \<open>malloc\<close> is not cleared: the argument
  \<open>junk\<close> of \<open>cw_append_ha\<close> is what the new rule's mask holds before it is assigned.
  \<open>inet_aton\<close> and the conversions of \<open>strtoul\<close> and \<open>%i\<close> are those of the C library.
\<close>

section \<open>Numbers and addresses\<close>

definition xdigit_val :: "char \<Rightarrow> int option" where
  "xdigit_val c =
     (if isdigit c then Some (int (ucval c) - 48)
      else if 97 \<le> ucval (tolower c) \<and> ucval (tolower c) \<le> 102
           then Some (int (ucval (tolower c)) - 87)
      else None)"

fun number_in :: "int \<Rightarrow> int \<Rightarrow> string \<Rightarrow> int \<times> string" where
  "number_in base acc [] = (acc, [])"
| "number_in base acc (c # s) =
     (case xdigit_val c of
        Some d \<Rightarrow> if d < base then number_in base (acc * base + d) s else (acc, c # s)
      | None \<Rightarrow> (acc, c # s))"

text \<open>\<open>strtoul\<close> with base 0 on a string that starts with a digit.\<close>

definition strtoul0 :: "string \<Rightarrow> int \<times> string" where
  "strtoul0 s =
     (if at0 s = CHR ''0''
      then if (at0 (tl s) = CHR ''x'' \<or> at0 (tl s) = CHR ''X'') \<and> xdigit_val (at0 (tl (tl s))) \<noteq> None
           then number_in 16 0 (tl (tl s))
           else number_in 8 0 s
      else number_in 10 0 s)"

definition scan_i :: "string \<Rightarrow> int option" where
  "scan_i s =
     (let t = dropWhile isspace s;
          neg = (at0 t = CHR ''-'');
          u = (if neg \<or> at0 t = CHR ''+'' then tl t else t)
      in if isdigit (at0 u) then Some (if neg then - fst (strtoul0 u) else fst (strtoul0 u)) else None)"

text \<open>The parts of an address: at most three dots, each part but the last below 256.\<close>

fun inet_parts :: "nat \<Rightarrow> string \<Rightarrow> int list option" where
  "inet_parts 0 s = None"
| "inet_parts (Suc n) s =
     (if \<not> isdigit (at0 s) then None
      else case strtoul0 s of
        (v, rest) \<Rightarrow>
          if at0 rest = CHR ''.''
          then if 255 < v then None else map_option ((#) v) (inet_parts n (tl rest))
          else if rest = [] \<or> isspace (at0 rest) then Some [v] else None)"

definition inet_aton :: "string \<Rightarrow> u32 option" where
  "inet_aton s =
     (case inet_parts 4 s of
        Some [a] \<Rightarrow> if a \<le> 0xFFFFFFFF then Some (word_of_int a) else None
      | Some [a, b] \<Rightarrow> if b \<le> 0xFFFFFF then Some (word_of_int (a * 2 ^ 24 + b)) else None
      | Some [a, b, c] \<Rightarrow>
          if c \<le> 0xFFFF then Some (word_of_int (a * 2 ^ 24 + b * 2 ^ 16 + c)) else None
      | Some [a, b, c, d] \<Rightarrow>
          if d \<le> 0xFF then Some (word_of_int (a * 2 ^ 24 + b * 2 ^ 16 + c * 2 ^ 8 + d)) else None
      | _ \<Rightarrow> None)"

section \<open>Rules\<close>

datatype sense = CW_SENSE_DENY | CW_SENSE_ALLOW

record cw_ha =
  netaddr :: u32
  netmask :: u32
  ha_sense :: sense

text \<open>The loop that turns a prefix length into a mask.\<close>

fun prefix_mask :: "nat \<Rightarrow> u32 \<Rightarrow> u32" where
  "prefix_mask 0 y = y"
| "prefix_mask (Suc x) y = prefix_mask x (drop_bit 1 y OR 0x80000000)"

definition cw_copy_ha :: "cw_ha \<Rightarrow> cw_ha" where
  "cw_copy_ha from' = \<lparr>netaddr = netaddr from', netmask = netmask from', ha_sense = ha_sense from'\<rparr>"

text \<open>The mask of a rule: \<open>None\<close> when the text after the slash is a malformed dotted mask.\<close>

definition parse_mask :: "u32 \<Rightarrow> string \<Rightarrow> u32 option" where
  "parse_mask junk nm =
     (if strchr nm (CHR ''.'') = None
      then case scan_int nm of
             Some (x, _) \<Rightarrow> if 0 \<le> x \<and> x \<le> 32 then Some (prefix_mask (nat x) 0) else Some junk
           | None \<Rightarrow> Some junk
      else inet_aton nm)"

definition cw_append_ha :: "bool \<Rightarrow> u32 \<Rightarrow> string \<Rightarrow> string \<Rightarrow> cw_ha list \<Rightarrow> cw_ha list" where
  "cw_append_ha mem junk sense stuff path =
     (if \<not> mem then path
      else
        (let tmp = cw_copy_string stuff 256;
             (addr, nm) = (case split_at (CHR ''/'') tmp of
                             Some (a, b) \<Rightarrow> (a, b) | None \<Rightarrow> (tmp, ''255.255.255.255'')) in
         case parse_mask junk nm of
           None \<Rightarrow> path
         | Some m \<Rightarrow>
             (case inet_aton addr of
                None \<Rightarrow> path
              | Some a \<Rightarrow>
                  path @ [\<lparr>netaddr = a AND m, netmask = m,
                           ha_sense = (if tolower (at0 sense) = CHR ''p'' then CW_SENSE_ALLOW
                                       else CW_SENSE_DENY)\<rparr>])))"

fun apply_ha_from :: "sense \<Rightarrow> cw_ha list \<Rightarrow> u32 \<Rightarrow> sense" where
  "apply_ha_from res [] sin = res"
| "apply_ha_from res (ha # path) sin =
     apply_ha_from (if sin AND netmask ha = netaddr ha then ha_sense ha else res) path sin"

definition cw_apply_ha :: "cw_ha list \<Rightarrow> u32 \<Rightarrow> sense" where
  "cw_apply_ha ha sin = apply_ha_from CW_SENSE_ALLOW ha sin"

definition cw_str2tos :: "string \<Rightarrow> int option" where
  "cw_str2tos v =
     (case scan_i v of
        Some fval \<Rightarrow> Some (fval mod 256)
      | None \<Rightarrow>
          if strcasecmp v ''lowdelay'' = 0 then Some 0x10
          else if strcasecmp v ''throughput'' = 0 then Some 0x08
          else if strcasecmp v ''reliability'' = 0 then Some 0x04
          else if strcasecmp v ''mincost'' = 0 then Some 0x02
          else if strcasecmp v ''none'' = 0 then Some 0
          else None)"

section \<open>The decision of a list\<close>

definition ha_match :: "u32 \<Rightarrow> cw_ha \<Rightarrow> bool" where
  "ha_match sin ha \<longleftrightarrow> sin AND netmask ha = netaddr ha"

lemma apply_ha_from_last:
  "apply_ha_from res path sin =
     (case filter (ha_match sin) (rev path) of [] \<Rightarrow> res | ha # _ \<Rightarrow> ha_sense ha)"
proof (induction path arbitrary: res)
  case (Cons ha path)
  show ?case
    by (cases "filter (ha_match sin) (rev path)") (simp_all add: Cons.IH flip: ha_match_def)
qed simp

lemma apply_ha_from_append:
  "apply_ha_from res (p @ q) sin = apply_ha_from (apply_ha_from res p sin) q sin"
  by (induction p arbitrary: res) simp_all

lemma bit_prefix_mask:
  "x \<le> 32 \<Longrightarrow> bit (prefix_mask x y) i \<longleftrightarrow> i < 32 \<and> (32 \<le> i + x \<or> bit y (i + x))"
proof (induction x arbitrary: y)
  case 0
  show ?case using bit_imp_le_length [of y i] by auto
next
  case (Suc x)
  have top: "bit (0x80000000 :: u32) n \<longleftrightarrow> n = 31" for n
  proof -
    have "(0x80000000 :: u32) = 2 ^ 31" by simp
    then show ?thesis by (simp only: bit_exp_iff) auto
  qed
  have "bit (drop_bit 1 y OR 0x80000000) (i + x) \<longleftrightarrow> bit y (i + Suc x) \<or> i + x = 31"
    using top [of "i + x"] by (simp add: bit_or_iff bit_drop_bit_eq)
  with Suc.IH [of "drop_bit 1 y OR 0x80000000"] Suc.prems
  have "bit (prefix_mask (Suc x) y) i \<longleftrightarrow> i < 32 \<and> (32 \<le> i + x \<or> bit y (i + Suc x) \<or> i + x = 31)"
    by simp
  moreover have "32 \<le> i + Suc x \<longleftrightarrow> 32 \<le> i + x \<or> i + x = 31" by arith
  ultimately show ?case by metis
qed

lemma and_prefix_mask:
  assumes "x \<le> 32"
  shows "a AND prefix_mask x 0 = n AND prefix_mask x 0 \<longleftrightarrow> drop_bit (32 - x) a = drop_bit (32 - x) n"
proof -
  have "a AND prefix_mask x 0 = n AND prefix_mask x 0 \<longleftrightarrow>
      (\<forall>i. 32 \<le> i + x \<longrightarrow> i < 32 \<longrightarrow> bit a i = bit n i)"
    using assms by (auto simp: bit_eq_iff bit_and_iff bit_prefix_mask)
  also have "\<dots> \<longleftrightarrow> (\<forall>j. bit a (32 - x + j) = bit n (32 - x + j))"
  proof safe
    fix j
    assume h: "\<forall>i. 32 \<le> i + x \<longrightarrow> i < 32 \<longrightarrow> bit a i = bit n i"
    assume "bit a (32 - x + j)"
    then have "32 - x + j < 32" using bit_imp_le_length by fastforce
    with h \<open>bit a (32 - x + j)\<close> assms show "bit n (32 - x + j)" by simp
  next
    fix j
    assume h: "\<forall>i. 32 \<le> i + x \<longrightarrow> i < 32 \<longrightarrow> bit a i = bit n i"
    assume "bit n (32 - x + j)"
    then have "32 - x + j < 32" using bit_imp_le_length by fastforce
    with h \<open>bit n (32 - x + j)\<close> assms show "bit a (32 - x + j)" by simp
  next
    fix i
    assume h: "\<forall>j. bit a (32 - x + j) = bit n (32 - x + j)" and i: "32 \<le> i + x"
    from i have e: "32 - x + (i - (32 - x)) = i" by simp
    show "bit a i \<Longrightarrow> bit n i" "bit n i \<Longrightarrow> bit a i" using h [rule_format, of "i - (32 - x)"] e by simp_all
  qed
  also have "\<dots> \<longleftrightarrow> drop_bit (32 - x) a = drop_bit (32 - x) n"
  proof
    assume "\<forall>j. bit a (32 - x + j) = bit n (32 - x + j)"
    then show "drop_bit (32 - x) a = drop_bit (32 - x) n"
      by (intro bit_eqI) (simp add: bit_drop_bit_eq)
  next
    assume "drop_bit (32 - x) a = drop_bit (32 - x) n"
    then have "bit (drop_bit (32 - x) a) j = bit (drop_bit (32 - x) n) j" for j by simp
    then show "\<forall>j. bit a (32 - x + j) = bit n (32 - x + j)" by (simp add: bit_drop_bit_eq)
  qed
  finally show ?thesis .
qed

lemma inet_aton_10_1: "inet_aton ''10.1.0.0'' = Some 0x0A010000"
  by code_simp

section \<open>Properties\<close>

text \<open>
  C7. The last matching rule decides: \<open>cw_apply_ha\<close> returns the sense of the last rule of the
  list whose network contains the address, and allows an address no rule matches.
\<close>

theorem acl_last_match:
  "cw_apply_ha path sin =
     (case filter (\<lambda>ha. sin AND netmask ha = netaddr ha) (rev path) of
        [] \<Rightarrow> CW_SENSE_ALLOW | ha # _ \<Rightarrow> ha_sense ha)"
  using apply_ha_from_last [of CW_SENSE_ALLOW path sin]
  by (simp add: cw_apply_ha_def ha_match_def [abs_def])

text \<open>
  A rule \<open>address/length\<close> governs exactly the addresses that agree with its address on the
  first \<open>length\<close> bits: appending it changes the decision for those to its sense and leaves
  the decision for all others as it was.
\<close>

theorem acl_append_prefix:
  assumes "stuff = addr @ CHR ''/'' # len" "length stuff < 256" "CHR ''/'' \<notin> set addr"
    and "CHR ''.'' \<notin> set len" "scan_int len = Some (int x, rest)" "x \<le> 32"
    and "inet_aton addr = Some net"
  shows "cw_apply_ha (cw_append_ha True junk sense stuff path) sin =
    (if drop_bit (32 - x) sin = drop_bit (32 - x) net
     then if tolower (at0 sense) = CHR ''p'' then CW_SENSE_ALLOW else CW_SENSE_DENY
     else cw_apply_ha path sin)"
proof -
  have "split_at (CHR ''/'') stuff = Some (addr, len)"
    using assms(1,3) by (simp add: split_at_Some)
  moreover have "parse_mask junk len = Some (prefix_mask x 0)"
    using assms(4-6) by (simp add: parse_mask_def)
  ultimately show ?thesis
    using assms(2,6,7) and_prefix_mask [OF assms(6), of sin net]
    by (simp add: cw_append_ha_def cw_copy_string_id cw_apply_ha_def apply_ha_from_append)
qed

theorem acl_append_prefix_witness:
  "cw_apply_ha (cw_append_ha True 0 ''deny'' ''10.1.0.0/16'' []) 0x0A01FFFF = CW_SENSE_DENY"
proof -
  have "scan_int ''16'' = Some (int 16, [])" by code_simp
  moreover have "drop_bit (32 - 16) (0x0A01FFFF :: u32) = drop_bit (32 - 16) 0x0A010000" by simp
  moreover have "tolower (at0 ''deny'') \<noteq> CHR ''p''" by code_simp
  ultimately show ?thesis
    using inet_aton_10_1 acl_append_prefix [of "''10.1.0.0/16''" "''10.1.0.0''" "''16''" 16 "[]" "0x0A010000" 0 "''deny''"
        "[]" "0x0A01FFFF"]
    by simp
qed

text \<open>
  A prefix length that is out of range is not rejected: the rule is appended with whatever
  the fresh memory held as its mask.
\<close>

theorem acl_bad_prefix_junk:
  assumes "stuff = addr @ CHR ''/'' # len" "length stuff < 256" "CHR ''/'' \<notin> set addr"
    and "CHR ''.'' \<notin> set len" "scan_int len = Some (x, rest)" "x < 0 \<or> 32 < x"
    and "inet_aton addr = Some net"
  shows "\<exists>ha. cw_append_ha True junk sense stuff path = path @ [ha] \<and> netmask ha = junk"
proof -
  have "split_at (CHR ''/'') stuff = Some (addr, len)"
    using assms(1,3) by (simp add: split_at_Some)
  moreover have "parse_mask junk len = Some junk"
    using assms(4-6) by (auto simp: parse_mask_def)
  ultimately show ?thesis
    using assms(2,7) by (simp add: cw_append_ha_def cw_copy_string_id)
qed

theorem acl_bad_prefix_junk_witness:
  "\<exists>ha. cw_append_ha True 0xDEADBEEF ''deny'' ''10.1.0.0/33'' [] = [ha] \<and> netmask ha = 0xDEADBEEF"
proof -
  have "scan_int ''33'' = Some (33, [])" by code_simp
  then show ?thesis
    using inet_aton_10_1 acl_bad_prefix_junk [of "''10.1.0.0/33''" "''10.1.0.0''" "''33''" 33 "[]" "0x0A010000" "0xDEADBEEF"
        "''deny''" "[]"]
    by simp
qed

end
