(* ===== verification/Pbx_Pattern.thy ===== *)
theory Pbx_Pattern
  imports CW_Prelude
begin

text \<open>
  Extension patterns, \<open>corelib/pbx.c\<close>: \<open>cw_extension_pattern_match\<close> and the routines that
  reduce its six verdicts to a yes or no (\<open>cw_extension_match\<close>, \<open>matchcid\<close>).  The pointers
  \<open>d\<close> and \<open>p\<close> of the source are the unread suffixes of the destination and of the pattern;
  the loop is \<open>pm_loop\<close>, the test after it \<open>pm_end\<close>, the scan of a bracket expression
  \<open>match_class\<close>.

  The specification reads a pattern as a list of tokens (\<open>tokenize\<close>) and matches them
  against the destination without its dashes (\<open>match_toks\<close>).
\<close>

section \<open>The matcher of the source\<close>

datatype ext_match =
    EXTENSION_MATCH_FAILURE
  | EXTENSION_MATCH_EXACT
  | EXTENSION_MATCH_OVERLENGTH
  | EXTENSION_MATCH_INCOMPLETE
  | EXTENSION_MATCH_STRETCHABLE
  | EXTENSION_MATCH_POSSIBLE

fun cw_extension_match_to_str :: "ext_match \<Rightarrow> string" where
  "cw_extension_match_to_str EXTENSION_MATCH_FAILURE = ''Failure''"
| "cw_extension_match_to_str EXTENSION_MATCH_EXACT = ''Exact''"
| "cw_extension_match_to_str EXTENSION_MATCH_OVERLENGTH = ''Overlength''"
| "cw_extension_match_to_str EXTENSION_MATCH_INCOMPLETE = ''Incomplete''"
| "cw_extension_match_to_str EXTENSION_MATCH_STRETCHABLE = ''Stretchable''"
| "cw_extension_match_to_str EXTENSION_MATCH_POSSIBLE = ''Possible''"

text \<open>
  The scan of the text between the brackets: three characters \<open>a-b\<close> are a range whenever
  two more characters follow, any other character stands for itself.
\<close>

fun match_class :: "char \<Rightarrow> string \<Rightarrow> bool" where
  "match_class d [] = False"
| "match_class d [a] = (d = a)"
| "match_class d [a, b] = (d = a \<or> d = b)"
| "match_class d (a # x # b # rest) =
     (if x = CHR ''-'' then
        (if in_range a b d then True else match_class d rest)
      else if d = a then True
      else match_class d (x # b # rest))"

definition pm_end :: "string \<Rightarrow> string \<Rightarrow> ext_match" where
  "pm_end d p =
     (if d = [] then
        (if at0 p = CHR ''!'' then EXTENSION_MATCH_POSSIBLE
         else if p = [] \<or> at0 p = CHR ''/'' then EXTENSION_MATCH_EXACT
         else EXTENSION_MATCH_INCOMPLETE)
      else if p = [] \<or> at0 p = CHR ''/'' then EXTENSION_MATCH_OVERLENGTH
      else EXTENSION_MATCH_FAILURE)"

definition skip_dashes :: "string \<Rightarrow> string" where
  "skip_dashes d = dropWhile (\<lambda>c. c = CHR ''-'') d"

function pm_loop :: "string \<Rightarrow> string \<Rightarrow> ext_match" where
  "pm_loop d [] = pm_end d []"
| "pm_loop d (c # p) =
     (if d = [] \<or> c = CHR ''/'' then pm_end d (c # p)
      else
       (case skip_dashes d of
          [] \<Rightarrow> pm_end [] (c # p)
        | x # d' \<Rightarrow>
          (let u = toupper c in
           if u = CHR ''['' then
             (case split_at (CHR '']'') p of
                None \<Rightarrow> EXTENSION_MATCH_FAILURE
              | Some (cls, rest) \<Rightarrow>
                  if match_class x cls then pm_loop d' rest else EXTENSION_MATCH_FAILURE)
           else if u = CHR ''X'' then
             (if in_range (CHR ''0'') (CHR ''9'') x then pm_loop d' p else EXTENSION_MATCH_FAILURE)
           else if u = CHR ''Z'' then
             (if in_range (CHR ''1'') (CHR ''9'') x then pm_loop d' p else EXTENSION_MATCH_FAILURE)
           else if u = CHR ''N'' then
             (if in_range (CHR ''2'') (CHR ''9'') x then pm_loop d' p else EXTENSION_MATCH_FAILURE)
           else if u = CHR ''.'' \<or> u = CHR ''~'' then EXTENSION_MATCH_STRETCHABLE
           else if u = CHR ''!'' then EXTENSION_MATCH_POSSIBLE
           else if u = CHR '' '' \<or> u = CHR ''-'' then pm_loop (x # d') p
           else if x \<noteq> c then EXTENSION_MATCH_FAILURE
           else pm_loop d' p)))"
  by pat_completeness auto
termination
  by (relation "measure (\<lambda>(d, p). length p)") (auto dest: split_at_length)

definition cw_extension_pattern_match :: "string \<Rightarrow> string \<Rightarrow> ext_match" where
  "cw_extension_pattern_match destination pattern =
     (if destination = [] then
        (if pattern = [] then EXTENSION_MATCH_EXACT else EXTENSION_MATCH_INCOMPLETE)
      else if at0 pattern \<noteq> CHR ''_'' then
        (if length destination < length pattern then
           (if take (length destination) pattern \<noteq> destination then EXTENSION_MATCH_FAILURE
            else EXTENSION_MATCH_INCOMPLETE)
         else
           (if pattern \<noteq> take (length pattern) destination then EXTENSION_MATCH_FAILURE
            else if length pattern = length destination then EXTENSION_MATCH_EXACT
            else EXTENSION_MATCH_OVERLENGTH))
      else
        (let d = skip_dashes destination in
         if d = [] then EXTENSION_MATCH_INCOMPLETE else pm_loop d (tl pattern)))"

definition cw_extension_match :: "string \<Rightarrow> string \<Rightarrow> int" where
  "cw_extension_match pattern data =
     (let m = cw_extension_pattern_match data pattern in
      if m = EXTENSION_MATCH_POSSIBLE then 2
      else if m = EXTENSION_MATCH_EXACT \<or> m = EXTENSION_MATCH_STRETCHABLE then 1 else 0)"

definition matchcid :: "string \<Rightarrow> string option \<Rightarrow> bool" where
  "matchcid cidpattern callerid =
     (case callerid of
        None \<Rightarrow> cidpattern = []
      | Some cid \<Rightarrow>
          cw_extension_pattern_match cid cidpattern \<in>
            {EXTENSION_MATCH_EXACT, EXTENSION_MATCH_STRETCHABLE, EXTENSION_MATCH_POSSIBLE})"

section \<open>The specification: tokens\<close>

datatype tok =
    TClass string      \<comment> \<open>a bracket expression\<close>
  | TDigit nat         \<comment> \<open>a digit not below the number: \<open>X\<close>, \<open>Z\<close> and \<open>N\<close>\<close>
  | TChar char
  | TStretch           \<comment> \<open>\<open>.\<close> or \<open>~\<close>\<close>
  | TPossible          \<comment> \<open>\<open>!\<close>\<close>
  | TSkip              \<comment> \<open>a space or a dash of the pattern\<close>
  | TBad               \<comment> \<open>a bracket that is never closed\<close>

function tokenize :: "string \<Rightarrow> tok list" where
  "tokenize [] = []"
| "tokenize (c # p) =
     (let u = toupper c in
      if c = CHR ''/'' then []
      else if u = CHR ''['' then
        (case split_at (CHR '']'') p of None \<Rightarrow> [TBad] | Some (cls, rest) \<Rightarrow> TClass cls # tokenize rest)
      else
        (if u = CHR ''X'' then TDigit 0
         else if u = CHR ''Z'' then TDigit 1
         else if u = CHR ''N'' then TDigit 2
         else if u = CHR ''.'' \<or> u = CHR ''~'' then TStretch
         else if u = CHR ''!'' then TPossible
         else if u = CHR '' '' \<or> u = CHR ''-'' then TSkip
         else TChar c) # tokenize p)"
  by pat_completeness auto
termination
  by (relation "measure length") (auto dest: split_at_length)

fun tok_ok :: "tok \<Rightarrow> char \<Rightarrow> bool" where
  "tok_ok (TClass cls) x = match_class x cls"
| "tok_ok (TDigit n) x = (48 + n \<le> ucval x \<and> ucval x \<le> 57)"
| "tok_ok (TChar c) x = (x = c)"
| "tok_ok _ x = False"

fun match_toks :: "string \<Rightarrow> tok list \<Rightarrow> ext_match" where
  "match_toks ds [] = (if ds = [] then EXTENSION_MATCH_EXACT else EXTENSION_MATCH_OVERLENGTH)"
| "match_toks [] (t # ts) =
     (if t = TPossible then EXTENSION_MATCH_POSSIBLE else EXTENSION_MATCH_INCOMPLETE)"
| "match_toks (x # ds) (TStretch # ts) = EXTENSION_MATCH_STRETCHABLE"
| "match_toks (x # ds) (TPossible # ts) = EXTENSION_MATCH_POSSIBLE"
| "match_toks (x # ds) (TSkip # ts) = match_toks (x # ds) ts"
| "match_toks (x # ds) (t # ts) =
     (if tok_ok t x then match_toks ds ts else EXTENSION_MATCH_FAILURE)"

abbreviation undash :: "string \<Rightarrow> string" where
  "undash d \<equiv> filter (\<lambda>c. c \<noteq> CHR ''-'') d"

definition ends_in_dash :: "string \<Rightarrow> bool" where
  "ends_in_dash d \<longleftrightarrow> d \<noteq> [] \<and> last d = CHR ''-''"

text \<open>A token that consumes exactly one character.\<close>

fun single :: "tok \<Rightarrow> bool" where
  "single (TClass _) = True"
| "single (TDigit _) = True"
| "single (TChar _) = True"
| "single _ = False"

definition matches :: "string \<Rightarrow> tok list \<Rightarrow> bool" where
  "matches ds ts \<longleftrightarrow> list_all2 (\<lambda>x t. tok_ok t x) ds ts"

section \<open>The loop implements the tokens\<close>

declare pm_loop.simps(2) [simp del] tokenize.simps(2) [simp del]

lemma in_range_digits:
  "in_range (CHR ''0'') (CHR ''9'') x \<longleftrightarrow> tok_ok (TDigit 0) x"
  "in_range (CHR ''1'') (CHR ''9'') x \<longleftrightarrow> tok_ok (TDigit 1) x"
  "in_range (CHR ''2'') (CHR ''9'') x \<longleftrightarrow> tok_ok (TDigit 2) x"
  unfolding in_range_def by (subst cval_range_ascii; simp)+

lemma undash_skip [simp]: "undash (skip_dashes d) = undash d"
  unfolding skip_dashes_def by (induction d) auto

lemma skip_dashes_hd: "skip_dashes d = x # d' \<Longrightarrow> x \<noteq> CHR ''-''"
  unfolding skip_dashes_def by (simp only: dropWhile_eq_Cons_conv) simp

lemma skip_dashes_Cons: "x \<noteq> CHR ''-'' \<Longrightarrow> skip_dashes (x # d) = x # d"
  by (simp add: skip_dashes_def)

lemma skip_dashes_last: "skip_dashes d \<noteq> [] \<Longrightarrow> last (skip_dashes d) = last d"
  unfolding skip_dashes_def by (metis last_appendR takeWhile_dropWhile_id)

lemma skip_dashes_Nil: "skip_dashes d = [] \<longleftrightarrow> undash d = []"
  unfolding skip_dashes_def by (induction d) auto

lemma undash_nonempty: "d \<noteq> [] \<Longrightarrow> \<not> ends_in_dash d \<Longrightarrow> undash d \<noteq> []"
  unfolding ends_in_dash_def by (induction d) (auto split: if_splits)

lemma ends_in_dash_tail:
  assumes "\<not> ends_in_dash d" "skip_dashes d = x # d'"
  shows "\<not> ends_in_dash d'"
proof
  assume e: "ends_in_dash d'"
  then have "last (x # d') = CHR ''-''" by (simp add: ends_in_dash_def)
  then have "last d = CHR ''-''" using skip_dashes_last [of d] assms(2) by simp
  moreover have "d \<noteq> []" using assms(2) by (cases d) (simp_all add: skip_dashes_def)
  ultimately show False using assms(1) by (simp add: ends_in_dash_def)
qed

lemma ends_in_dash_skip: "ends_in_dash (skip_dashes d) \<Longrightarrow> ends_in_dash d"
  unfolding ends_in_dash_def using skip_dashes_last [of d] by (cases d) (simp_all add: skip_dashes_def)

lemma toupper_marks [simp]:
  "toupper c = CHR ''['' \<longleftrightarrow> c = CHR ''[''"
  "toupper c = CHR ''.'' \<longleftrightarrow> c = CHR ''.''"
  "toupper c = CHR ''~'' \<longleftrightarrow> c = CHR ''~''"
  "toupper c = CHR ''!'' \<longleftrightarrow> c = CHR ''!''"
  "toupper c = CHR '' '' \<longleftrightarrow> c = CHR '' ''"
  "toupper c = CHR ''-'' \<longleftrightarrow> c = CHR ''-''"
  by (rule toupper_eq_other; simp)+

lemma toupper_bang [simp]: "toupper (CHR ''!'') = CHR ''!''"
  by simp

lemma pm_end_exhausted: "pm_end [] p = match_toks [] (tokenize p)"
  by (cases p) (auto simp: pm_end_def tokenize.simps Let_def split: option.splits)

lemma pm_loop_exhausted [simp]: "pm_loop [] p = pm_end [] p"
  by (cases p) (simp_all add: pm_loop.simps(2))

lemma pm_loop_tokens:
  "\<not> ends_in_dash d \<Longrightarrow> pm_loop d p = match_toks (undash d) (tokenize p)"
proof (induction d p rule: pm_loop.induct)
  case (1 d)
  then show ?case using undash_nonempty [of d] by (auto simp: pm_end_def)
next
  case (2 d c p)
  show ?case
  proof (cases "d = [] \<or> c = CHR ''/''")
    case True
    with 2 undash_nonempty [of d] show ?thesis
      by (cases "d = []") (simp_all add: pm_end_exhausted, simp add: pm_loop.simps(2) tokenize.simps(2) pm_end_def)
  next
    case False
    with "2.prems" have "skip_dashes d \<noteq> []" using undash_nonempty [of d] skip_dashes_Nil [of d] by simp
    then obtain x d' where xd: "skip_dashes d = x # d'" by (cases "skip_dashes d") auto
    have u: "undash d = x # undash d'"
      using undash_skip [of d] skip_dashes_hd [OF xd] xd by simp
    have e1: "\<not> ends_in_dash d'" using ends_in_dash_tail [OF "2.prems" xd] .
    have e2: "\<not> ends_in_dash (x # d')" using ends_in_dash_skip [of d] "2.prems" xd by auto
    note IH = "2.IH" [OF False xd refl]
    have "d \<noteq> []" and "c \<noteq> CHR ''/''" using False by simp_all
    note simps = this xd e1 e2 u skip_dashes_hd [OF xd] pm_loop.simps(2) tokenize.simps(2) in_range_digits
    show ?thesis
    proof (cases "c = CHR ''[''")
      case True
      with IH(1) show ?thesis
        by (cases "split_at (CHR '']'') p") (auto simp: simps Let_def)
    next
      case other: False
      with IH(2-) show ?thesis by (simp add: simps Let_def)
    qed
  qed
qed

text \<open>How a run of one-character tokens consumes the destination.\<close>

lemma match_toks_single:
  "single t \<Longrightarrow> match_toks (x # ds) (t # ts) = (if tok_ok t x then match_toks ds ts else EXTENSION_MATCH_FAILURE)"
  by (cases t) auto

lemma match_toks_append:
  assumes "\<forall>t \<in> set ts. single t"
  shows "match_toks ds (ts @ us) =
    (if length ds < length ts then
       (if matches ds (take (length ds) ts) then EXTENSION_MATCH_INCOMPLETE else EXTENSION_MATCH_FAILURE)
     else if matches (take (length ts) ds) ts then match_toks (drop (length ts) ds) us
     else EXTENSION_MATCH_FAILURE)"
  using assms
proof (induction ts arbitrary: ds)
  case Nil
  then show ?case by (simp add: matches_def)
next
  case (Cons t ts)
  then show ?case
    by (cases ds) (auto simp: matches_def match_toks_single)
qed

lemma match_toks_prefix:
  "match_toks (ds @ es) ts = EXTENSION_MATCH_EXACT \<Longrightarrow> es \<noteq> [] \<Longrightarrow>
     match_toks ds ts = EXTENSION_MATCH_INCOMPLETE"
proof (induction ds ts rule: match_toks.induct)
  case (2 t ts)
  then show ?case by (cases es; cases t) auto
qed (auto split: if_splits)

text \<open>The same on the loop itself, dashes included.\<close>

lemma skip_dashes_append:
  "skip_dashes (d @ e) = (if skip_dashes d = [] then skip_dashes e else skip_dashes d @ e)"
  unfolding skip_dashes_def by (induction d) auto

lemma pm_end_exact: "pm_end d p = EXTENSION_MATCH_EXACT \<longleftrightarrow> d = [] \<and> (p = [] \<or> at0 p = CHR ''/'')"
  by (auto simp: pm_end_def)
definition tok_of :: "char \<Rightarrow> tok" where
  "tok_of c = hd (tokenize [c])"

lemma pm_loop_class:
  assumes "skip_dashes d = x # d'"
  shows "pm_loop d (CHR ''['' # p) =
    (case split_at (CHR '']'') p of None \<Rightarrow> EXTENSION_MATCH_FAILURE
     | Some (cls, rest) \<Rightarrow> if match_class x cls then pm_loop d' rest else EXTENSION_MATCH_FAILURE)"
proof -
  have "d \<noteq> []" using assms by (cases d) (simp_all add: skip_dashes_def)
  with assms show ?thesis by (simp add: pm_loop.simps(2) Let_def)
qed

lemma pm_loop_char:
  assumes "skip_dashes d = x # d'" "c \<noteq> CHR ''/''" "c \<noteq> CHR ''[''"
  shows "pm_loop d (c # p) =
    (if tok_of c = TStretch then EXTENSION_MATCH_STRETCHABLE
     else if tok_of c = TPossible then EXTENSION_MATCH_POSSIBLE
     else if tok_of c = TSkip then pm_loop (x # d') p
     else if tok_ok (tok_of c) x then pm_loop d' p else EXTENSION_MATCH_FAILURE)"
proof -
  have "d \<noteq> []" using assms by (cases d) (simp_all add: skip_dashes_def)
  moreover have "toupper c \<noteq> CHR ''[''" using assms by simp
  ultimately show ?thesis
    using assms
    by (simp add: pm_loop.simps(2) tokenize.simps(2) tok_of_def Let_def in_range_digits del: toupper_marks)
qed

lemma pm_loop_prefix:
  "pm_loop (d @ e) p = EXTENSION_MATCH_EXACT \<Longrightarrow> e \<noteq> [] \<Longrightarrow> pm_loop d p = EXTENSION_MATCH_INCOMPLETE"
proof (induction p arbitrary: d rule: length_induct)
  case (1 p)
  note IH = "1.IH" [rule_format]
  show ?case
  proof (cases p)
    case Nil
    with 1 show ?thesis by (simp add: pm_end_exact)
  next
    case p: (Cons c q)
    have c: "c \<noteq> CHR ''/''" using "1.prems" p by (auto simp: pm_loop.simps(2) pm_end_exact)
    show ?thesis
    proof (cases "skip_dashes d")
      case Nil
      have "c \<noteq> CHR ''!''"
      proof
        assume "c = CHR ''!''"
        then show False using "1.prems" p
          by (auto simp: pm_loop.simps(2) Let_def pm_end_def split: list.splits if_splits)
      qed
      then show ?thesis using c Nil p by (simp add: pm_loop.simps(2) pm_end_def)
    next
      case (Cons x d')
      then have e: "skip_dashes (d @ e) = x # (d' @ e)" by (simp add: skip_dashes_append)
      show ?thesis
      proof (cases "c = CHR ''[''")
        case True
        with "1.prems" obtain cls rest where s: "split_at (CHR '']'') q = Some (cls, rest)"
          and m: "match_class x cls" and l: "pm_loop (d' @ e) rest = EXTENSION_MATCH_EXACT"
          unfolding p by (auto simp: pm_loop_class [OF e] split: option.splits if_splits)
        have "length rest < length p" using split_at_length [OF s] p by simp
        from IH [OF this l] "1.prems"(2) s m True show ?thesis
          unfolding p by (simp add: pm_loop_class [OF Cons])
      next
        case False
        have q: "length q < length p" using p by simp
        have "tok_of c = TSkip \<Longrightarrow> pm_loop (x # d' @ e) q = EXTENSION_MATCH_EXACT"
          "tok_of c \<noteq> TSkip \<Longrightarrow> tok_of c \<notin> {TStretch, TPossible} \<and> tok_ok (tok_of c) x \<and>
             pm_loop (d' @ e) q = EXTENSION_MATCH_EXACT"
          using "1.prems"(1) unfolding p pm_loop_char [OF e c False] by (simp_all split: if_splits)
        with IH [OF q, of d'] IH [OF q, of "x # d'"] "1.prems"(2) show ?thesis
          unfolding p pm_loop_char [OF Cons c False] by (cases "tok_of c = TSkip") simp_all
      qed
    qed
  qed
qed

lemma pattern_match_via_tokens:
  assumes "d \<noteq> []" "\<not> ends_in_dash d"
  shows "cw_extension_pattern_match d (CHR ''_'' # p) = match_toks (undash d) (tokenize p)"
proof -
  have "skip_dashes d \<noteq> []" using undash_nonempty [OF assms] skip_dashes_Nil by simp
  moreover have "\<not> ends_in_dash (skip_dashes d)" using assms ends_in_dash_skip by blast
  ultimately show ?thesis
    using assms by (simp add: cw_extension_pattern_match_def pm_loop_tokens)
qed

section \<open>Properties\<close>

text \<open>
  C1. The pattern matcher implements its specification: for a destination that does not end
  in a dash, the verdict on a pattern is the verdict of matching the destination without its
  dashes against the tokens of the pattern.
\<close>

theorem pattern_match_tokens:
  assumes "d \<noteq> []" "\<not> ends_in_dash d"
  shows "cw_extension_pattern_match d (CHR ''_'' # p) = match_toks (undash d) (tokenize p)"
  using assms by (rule pattern_match_via_tokens)

theorem pattern_match_tokens_witness:
  "cw_extension_pattern_match ''5-551'' ''_NXX[0-3]'' = EXTENSION_MATCH_EXACT"
proof -
  have "cw_extension_pattern_match ''5-551'' (CHR ''_'' # ''NXX[0-3]'') =
      match_toks (undash ''5-551'') (tokenize ''NXX[0-3]'')"
    by (rule pattern_match_tokens) (simp_all add: ends_in_dash_def)
  also have "\<dots> = EXTENSION_MATCH_EXACT" by code_simp
  finally show ?thesis by simp
qed

text \<open>
  Digit collection never gives up on a number that can still be completed: whenever a
  destination matches an extension or a pattern exactly, every proper prefix of it is
  reported as incomplete, so the caller is asked for more digits.
\<close>

theorem pattern_match_prefix_incomplete:
  assumes "cw_extension_pattern_match (d @ e) pat = EXTENSION_MATCH_EXACT" "e \<noteq> []"
  shows "cw_extension_pattern_match d pat = EXTENSION_MATCH_INCOMPLETE"
proof (cases "at0 pat = CHR ''_''")
  case True
  then have "pat \<noteq> []" by auto
  with True assms show ?thesis
    by (auto simp: cw_extension_pattern_match_def Let_def skip_dashes_append pm_loop_prefix split: if_splits)
next
  case False
  with assms have "pat = d @ e"
    by (auto simp: cw_extension_pattern_match_def split: if_splits)
  with False assms(2) show ?thesis
    by (simp add: cw_extension_pattern_match_def)
qed

theorem pattern_match_prefix_incomplete_witness:
  "cw_extension_pattern_match ''41'' ''_4XX'' = EXTENSION_MATCH_INCOMPLETE"
  by (rule pattern_match_prefix_incomplete [of _ "''7''"]) code_simp+

text \<open>
  C2. The verdict of a pattern made of one-character tokens and an optional wildcard tail, as
  the dialplan documentation describes it: too few digits are incomplete as long as those
  given fit, a full match is exact, surplus digits are overlength without a wildcard,
  stretchable after \<open>.\<close> (which needs one more digit) and possible after \<open>!\<close> (which does not).
\<close>

theorem pattern_match_verdict:
  assumes "d \<noteq> []" "\<not> ends_in_dash d" "tokenize p = ts @ us" "\<forall>t \<in> set ts. single t"
    and "us = [] \<or> hd us = TStretch \<or> hd us = TPossible"
  shows "cw_extension_pattern_match d (CHR ''_'' # p) =
    (let ds = undash d; n = length ts in
     if length ds < n then
       (if matches ds (take (length ds) ts) then EXTENSION_MATCH_INCOMPLETE else EXTENSION_MATCH_FAILURE)
     else if \<not> matches (take n ds) ts then EXTENSION_MATCH_FAILURE
     else if us = [] then (if length ds = n then EXTENSION_MATCH_EXACT else EXTENSION_MATCH_OVERLENGTH)
     else if hd us = TPossible then EXTENSION_MATCH_POSSIBLE
     else if length ds = n then EXTENSION_MATCH_INCOMPLETE else EXTENSION_MATCH_STRETCHABLE)"
proof -
  have tail: "match_toks ds us =
      (if us = [] then (if ds = [] then EXTENSION_MATCH_EXACT else EXTENSION_MATCH_OVERLENGTH)
       else if hd us = TPossible then EXTENSION_MATCH_POSSIBLE
       else if ds = [] then EXTENSION_MATCH_INCOMPLETE else EXTENSION_MATCH_STRETCHABLE)" for ds
    using assms(5) by (cases us; cases ds) auto
  have "cw_extension_pattern_match d (CHR ''_'' # p) = match_toks (undash d) (ts @ us)"
    by (simp add: pattern_match_via_tokens assms)
  then show ?thesis
    by (auto simp: match_toks_append [OF assms(4)] tail Let_def)
qed

theorem pattern_match_verdict_witness:
  "cw_extension_pattern_match ''9123'' ''_9N.'' = EXTENSION_MATCH_FAILURE \<and>
   cw_extension_pattern_match ''9223'' ''_9N.'' = EXTENSION_MATCH_STRETCHABLE"
proof -
  have t: "tokenize ''9N.'' = [TChar (CHR ''9''), TDigit 2] @ [TStretch]"
    by code_simp
  have "cw_extension_pattern_match ''9123'' (CHR ''_'' # ''9N.'') = EXTENSION_MATCH_FAILURE"
    by (subst pattern_match_verdict [OF _ _ t]) (simp_all add: ends_in_dash_def matches_def Let_def)
  moreover have "cw_extension_pattern_match ''9223'' (CHR ''_'' # ''9N.'') = EXTENSION_MATCH_STRETCHABLE"
    by (subst pattern_match_verdict [OF _ _ t]) (simp_all add: ends_in_dash_def matches_def Let_def)
  ultimately show ?thesis by simp
qed

end
