(* ===== verification/Pbx_Timing.thy ===== *)
theory Pbx_Timing
  imports CW_Prelude "HOL-Library.Signed_Division"
begin

text \<open>
  Time conditions of includes and of \<open>GotoIfTime\<close>/\<open>ExecIfTime\<close>, \<open>corelib/pbx.c\<close>: a
  specification such as \<open>9:00-17:00,mon-fri,*,*\<close> is compiled into bit masks
  (\<open>cw_build_timing\<close>) that \<open>cw_check_timing\<close> tests against a broken-down time.

  Masks are \<open>32 word\<close>s.  The clock is the argument \<open>tm\<close> of \<open>cw_check_timing\<close>, the five
  fields of \<open>struct tm\<close> the routine reads.  The loops \<open>for (x = s; x != e; x = (x + 1) % n)\<close>
  are \<open>wrap_range\<close>, the list of the values \<open>x\<close> takes, the last one included.
\<close>

section \<open>The routines of the source\<close>

record cw_timing =
  hastime :: bool
  monthmask :: u32
  daymask :: u32
  dowmask :: u32
  minmask :: "u32 list"

record tm =
  tm_mon :: nat
  tm_mday :: nat
  tm_wday :: nat
  tm_hour :: int
  tm_min :: nat

function wrap_range :: "nat \<Rightarrow> nat \<Rightarrow> nat \<Rightarrow> nat list" where
  "wrap_range n x e =
     (if x = e \<or> n \<le> x \<or> n \<le> e then [x] else x # wrap_range n ((x + 1) mod n) e)"
  by pat_completeness auto
termination
proof (relation "measure (\<lambda>(n, x, e). (e + n - x) mod n)")
  fix n x e :: nat
  assume "\<not> (x = e \<or> n \<le> x \<or> n \<le> e)"
  then have h: "x \<noteq> e" "x < n" "e < n" by auto
  have m: "(e + n - x) mod n = (if x < e then e - x else e + n - x)" if "x \<noteq> e" "x < n" for x
    using that h(3) by (auto simp: mod_if)
  have "(e + n - (x + 1) mod n) mod n < (e + n - x) mod n"
  proof (cases "x + 1 = n")
    case True
    with h m [of x] show ?thesis by (cases "e = 0") (auto simp: mod_if)
  next
    case False
    with h have "(x + 1) mod n = x + 1" by simp
    with h False m [of x] m [of "x + 1"] show ?thesis by (cases "x + 1 = e") (auto split: if_splits)
  qed
  then show "((n, (x + 1) mod n, e), n, x, e) \<in> measure (\<lambda>(n, x, e). (e + n - x) mod n)"
    by simp
qed simp

declare wrap_range.simps [simp del]

definition set_bits_of :: "nat list \<Rightarrow> u32 \<Rightarrow> u32" where
  "set_bits_of xs m0 = fold (\<lambda>x m. m OR push_bit x 1) xs m0"

definition scan_pair :: "string \<Rightarrow> (int \<times> int) option" where
  "scan_pair s =
     (case scan_int s of
        Some (a, c # t) \<Rightarrow>
          if c = CHR '':'' then (case scan_int t of Some (b, _) \<Rightarrow> Some (a, b) | None \<Rightarrow> None) else None
      | _ \<Rightarrow> None)"

text \<open>The checked part of \<open>get_timerange\<close>: the two ends of the range in slots of two minutes.\<close>

definition parse_timerange :: "string \<Rightarrow> (nat \<times> nat) option" where
  "parse_timerange tspec =
     (case split_at (CHR ''-'') tspec of
        None \<Rightarrow> None
      | Some (t, rest) \<Rightarrow>
          (let e = dropWhile (\<lambda>c. \<not> isdigit c) rest in
           if e = [] then None
           else case scan_pair t of
             None \<Rightarrow> None
           | Some (s1, s2) \<Rightarrow>
               (case scan_pair e of
                  None \<Rightarrow> None
                | Some (e1, e2) \<Rightarrow>
                    (let s = s1 * 30 + s2 sdiv 2 in
                     if s < 0 \<or> 24 * 30 \<le> s then None
                     else
                       (let e = e1 * 30 + e2 sdiv 2 in
                        if e < 0 \<or> 24 * 30 \<le> e then None
                        else Some (nat s, nat e))))))"

definition set_slot :: "nat \<Rightarrow> u32 list \<Rightarrow> u32 list" where
  "set_slot x mm = mm[x div 30 := mm ! (x div 30) OR push_bit (x mod 30) 1]"

definition get_timerange :: "string \<Rightarrow> u32 list" where
  "get_timerange tspec =
     (if tspec = [] \<or> tspec = ''*'' then replicate 24 (push_bit 30 1 - 1)
      else case parse_timerange tspec of
        None \<Rightarrow> replicate 24 0
      | Some (s, e) \<Rightarrow> fold set_slot (wrap_range (24 * 30) s e) (replicate 24 0))"

definition days :: "string list" where
  "days = [''sun'', ''mon'', ''tue'', ''wed'', ''thu'', ''fri'', ''sat'']"

definition months :: "string list" where
  "months = [''jan'', ''feb'', ''mar'', ''apr'', ''may'', ''jun'',
             ''jul'', ''aug'', ''sep'', ''oct'', ''nov'', ''dec'']"

text \<open>The search loops \<open>while ((s < n) && strcasecmp(name, names[s])) s++\<close>.\<close>

definition name_index :: "string \<Rightarrow> string list \<Rightarrow> nat" where
  "name_index nm names = length (takeWhile (\<lambda>d. strcasecmp nm d \<noteq> 0) names)"

definition get_dow :: "string \<Rightarrow> u32" where
  "get_dow dow =
     (if dow = [] \<or> dow = ''*'' then push_bit 7 1 - 1
      else
        (let (first, c) = (case split_at (CHR ''-'') dow of
                             Some (a, b) \<Rightarrow> (a, Some b) | None \<Rightarrow> (dow, None));
             s = name_index first days in
         if 7 \<le> s then 0
         else case c of
           None \<Rightarrow> set_bits_of (wrap_range 7 s s) 0
         | Some c' \<Rightarrow>
             (let e = name_index c' days in
              if 7 \<le> e then 0 else set_bits_of (wrap_range 7 s e) 0)))"

definition get_day :: "string \<Rightarrow> u32" where
  "get_day day =
     (if day = [] \<or> day = ''*'' then push_bit 30 1 + (push_bit 30 1 - 1)
      else
        (let (first, c) = (case split_at (CHR ''-'') day of
                             Some (a, b) \<Rightarrow> (a, Some b) | None \<Rightarrow> (day, None)) in
         case scan_int first of
           None \<Rightarrow> 0
         | Some (s, _) \<Rightarrow>
             if s < 1 \<or> 31 < s then 0
             else case c of
               None \<Rightarrow> set_bits_of (wrap_range 31 (nat (s - 1)) (nat (s - 1))) 0
             | Some c' \<Rightarrow>
                 (case scan_int c' of
                    None \<Rightarrow> 0
                  | Some (e, _) \<Rightarrow>
                      if e < 1 \<or> 31 < e then 0
                      else set_bits_of (wrap_range 31 (nat (s - 1)) (nat (e - 1))) 0)))"

text \<open>
  The second search of \<open>get_month\<close> compares \<open>mon\<close>, the start of the range, where the other
  routines compare \<open>c\<close>, its end.
\<close>

definition get_month :: "string \<Rightarrow> u32" where
  "get_month mon =
     (if mon = [] \<or> mon = ''*'' then push_bit 12 1 - 1
      else
        (let (first, c) = (case split_at (CHR ''-'') mon of
                             Some (a, b) \<Rightarrow> (a, Some b) | None \<Rightarrow> (mon, None));
             s = name_index first months in
         if 12 \<le> s then 0
         else case c of
           None \<Rightarrow> set_bits_of (wrap_range 12 s s) 0
         | Some _ \<Rightarrow>
             (let e = name_index first months in
              if 12 \<le> e then 0 else set_bits_of (wrap_range 12 s e) 0)))"

text \<open>\<open>FIND_NEXT\<close>: the field up to the next comma, and what follows it if there is one.\<close>

definition find_next :: "string \<Rightarrow> string \<times> string option" where
  "find_next info =
     (case split_at (CHR '','') info of Some (a, b) \<Rightarrow> (a, Some b) | None \<Rightarrow> (info, None))"

definition cw_build_timing :: "cw_timing \<Rightarrow> string \<Rightarrow> bool \<times> cw_timing" where
  "cw_build_timing i info_in =
     (if info_in = [] then (False, i)
      else
        (let info = cw_copy_string info_in 256;
             i0 = i\<lparr>monthmask := push_bit 12 1 - 1,
                    daymask := push_bit 30 1 - 1 + push_bit 30 1,
                    dowmask := push_bit 7 1 - 1\<rparr>;
             (t, c) = find_next info;
             i1 = i0\<lparr>minmask := get_timerange t\<rparr>
         in case c of
              None \<Rightarrow> (True, i1)
            | Some info \<Rightarrow>
                (let (w, c) = find_next info; i2 = i1\<lparr>dowmask := get_dow w\<rparr> in
                 case c of
                   None \<Rightarrow> (True, i2)
                 | Some info \<Rightarrow>
                     (let (d, c) = find_next info; i3 = i2\<lparr>daymask := get_day d\<rparr> in
                      case c of
                        None \<Rightarrow> (True, i3)
                      | Some info \<Rightarrow>
                          (let (m, c) = find_next info in (True, i3\<lparr>monthmask := get_month m\<rparr>))))))"

definition cw_check_timing :: "cw_timing \<Rightarrow> tm \<Rightarrow> bool" where
  "cw_check_timing i t =
     (if monthmask i AND push_bit (tm_mon t) 1 = 0 then False
      else if daymask i AND push_bit (tm_mday t - 1) 1 = 0 then False
      else if dowmask i AND push_bit (tm_wday t) 1 = 0 then False
      else if tm_hour t < 0 \<or> 23 < tm_hour t then False
      else if minmask i ! nat (tm_hour t) AND push_bit (tm_min t div 2) 1 = 0 then False
      else True)"

section \<open>Masks as sets\<close>

definition in_wrap :: "nat \<Rightarrow> nat \<Rightarrow> nat \<Rightarrow> bool" where
  "in_wrap s e x \<longleftrightarrow> (if s \<le> e then s \<le> x \<and> x \<le> e else s \<le> x \<or> x \<le> e)"

lemma set_wrap_range:
  "s < n \<Longrightarrow> e < n \<Longrightarrow> x \<in> set (wrap_range n s e) \<longleftrightarrow> x < n \<and> in_wrap s e x"
proof (induction n s e rule: wrap_range.induct)
  case (1 n s e)
  show ?case
  proof (cases "s = e")
    case True
    with 1 show ?thesis by (subst wrap_range.simps) (auto simp: in_wrap_def)
  next
    case False
    with 1 have IH: "x \<in> set (wrap_range n ((s + 1) mod n) e) \<longleftrightarrow> x < n \<and> in_wrap ((s + 1) mod n) e x"
      by auto
    have w: "wrap_range n s e = s # wrap_range n ((s + 1) mod n) e"
      using False 1 by (subst wrap_range.simps) auto
    show ?thesis
    proof (cases "s + 1 = n")
      case True
      with w IH False 1 show ?thesis by (auto simp: in_wrap_def)
    next
      case ne: False
      with 1 have "(s + 1) mod n = s + 1" by simp
      with w IH False 1 show ?thesis by (auto simp: in_wrap_def)
    qed
  qed
qed

lemma bit_set_bits_of:
  "bit (set_bits_of xs m) x \<longleftrightarrow> bit m x \<or> x \<in> set xs \<and> x < 32"
  unfolding set_bits_of_def
  by (induction xs arbitrary: m) (auto simp: bit_or_iff bit_exp_iff)

lemma and_shift_zero: "(m :: u32) AND push_bit x 1 = 0 \<longleftrightarrow> \<not> bit m x"
  unfolding bit_iff_and_push_bit_not_eq_0 by blast

lemma bit_all_ones:
  "x < 32 \<Longrightarrow> n < 32 \<Longrightarrow> bit (push_bit n 1 - 1 :: u32) x \<longleftrightarrow> x < n"
  by (simp add: bit_mask_iff possible_bit_word flip: mask_eq_exp_minus_1)

lemma bit_and_shift [simp]: "(m :: u32) AND push_bit x 1 = 0 \<longleftrightarrow> \<not> bit m x"
  by (rule and_shift_zero)

lemma bit_and_exp [simp]: "(m :: u32) AND 2 ^ x = 0 \<longleftrightarrow> \<not> bit m x"
  using and_shift_zero [of m x] by simp

lemma length_fold_set_slot [simp]: "length (fold set_slot xs mm) = length mm"
  by (induction xs arbitrary: mm) (auto simp: set_slot_def)

lemma bit_fold_set_slot:
  assumes "length mm = 24" "h < 24" "k < 30" "\<forall>x \<in> set xs. x < 24 * 30"
  shows "bit (fold set_slot xs mm ! h) k \<longleftrightarrow> bit (mm ! h) k \<or> 30 * h + k \<in> set xs"
  using assms
proof (induction xs arbitrary: mm)
  case Nil
  then show ?case by simp
next
  case (Cons x xs)
  have "bit (set_slot x mm ! h) k \<longleftrightarrow> bit (mm ! h) k \<or> x = 30 * h + k"
  proof (cases "x div 30 = h")
    case True
    then have "x = 30 * h + x mod 30" by presburger
    then have "x = 30 * h + k \<longleftrightarrow> x mod 30 = k" by linarith
    with True Cons.prems show ?thesis
      by (auto simp: set_slot_def bit_or_iff bit_exp_iff)
  next
    case False
    have "x \<noteq> 30 * h + k" using False Cons.prems(3) by auto
    with False show ?thesis by (simp add: set_slot_def)
  qed
  moreover have "length (set_slot x mm) = 24" using Cons.prems by (simp add: set_slot_def)
  ultimately show ?case using Cons by auto
qed

lemma parse_timerange_bounds:
  "parse_timerange r = Some (s, e) \<Longrightarrow> s < 24 * 30 \<and> e < 24 * 30"
  by (auto simp: parse_timerange_def Let_def nat_less_iff not_le not_less split: option.splits if_splits)

lemma parse_timerange_proper: "parse_timerange r = Some q \<Longrightarrow> r \<noteq> [] \<and> r \<noteq> ''*''"
  by (auto simp: parse_timerange_def)

section \<open>What a field of a time condition means\<close>

definition field_ends :: "string \<Rightarrow> string \<times> string" where
  "field_ends w = (case split_at (CHR ''-'') w of Some (a, b) \<Rightarrow> (a, b) | None \<Rightarrow> (w, w))"

definition any_field :: "string \<Rightarrow> bool" where
  "any_field w \<longleftrightarrow> w = [] \<or> w = ''*''"

definition time_spec :: "string \<Rightarrow> nat \<Rightarrow> nat \<Rightarrow> bool" where
  "time_spec w h m \<longleftrightarrow> any_field w \<or>
     (\<exists>s e. parse_timerange w = Some (s, e) \<and> in_wrap s e (30 * h + m div 2))"

definition dow_spec :: "string \<Rightarrow> nat \<Rightarrow> bool" where
  "dow_spec w x \<longleftrightarrow> any_field w \<or>
     (let (a, b) = field_ends w; s = name_index a days; e = name_index b days
      in s < 7 \<and> e < 7 \<and> in_wrap s e x)"

definition day_spec :: "string \<Rightarrow> nat \<Rightarrow> bool" where
  "day_spec w x \<longleftrightarrow> any_field w \<or>
     (let (a, b) = field_ends w in
      case (scan_int a, scan_int b) of
        (Some (s, _), Some (e, _)) \<Rightarrow>
          1 \<le> s \<and> s \<le> 31 \<and> 1 \<le> e \<and> e \<le> 31 \<and> in_wrap (nat s) (nat e) x
      | _ \<Rightarrow> False)"

text \<open>The month the code accepts: the first one of the field, whatever the range's end.\<close>

definition month_start :: "string \<Rightarrow> nat \<Rightarrow> bool" where
  "month_start w x \<longleftrightarrow> any_field w \<or>
     (let s = name_index (fst (field_ends w)) months in s < 12 \<and> x = s)"

lemma bit_range_mask:
  "s < n \<Longrightarrow> e < n \<Longrightarrow> n \<le> 32 \<Longrightarrow> x < n \<Longrightarrow> bit (set_bits_of (wrap_range n s e) 0) x \<longleftrightarrow> in_wrap s e x"
  by (auto simp: bit_set_bits_of set_wrap_range)

lemma timerange_spec:
  assumes "h < 24" "m < 60"
  shows "bit (get_timerange w ! h) (m div 2) \<longleftrightarrow> time_spec w h m"
proof (cases "any_field w")
  case True
  have "m div 2 < 30" using assms(2) by auto
  then have "bit (push_bit 30 1 - 1 :: u32) (m div 2)"
    using bit_all_ones [of "m div 2" 30] by simp
  with True assms show ?thesis by (simp add: get_timerange_def time_spec_def any_field_def)
next
  case False
  show ?thesis
  proof (cases "parse_timerange w")
    case None
    with False assms show ?thesis by (simp add: get_timerange_def time_spec_def any_field_def)
  next
    case (Some q)
    obtain s e where q: "q = (s, e)" by (cases q)
    with Some have b: "s < 720" "e < 720" using parse_timerange_bounds by auto
    have "30 * h + m div 2 < 720" "m div 2 < 30" using assms by auto
    then have "bit (fold set_slot (wrap_range 720 s e) (replicate 24 0) ! h) (m div 2) \<longleftrightarrow>
        in_wrap s e (30 * h + m div 2)"
      using assms set_wrap_range [OF b] by (subst bit_fold_set_slot) auto
    with False Some q show ?thesis
      by (simp add: get_timerange_def time_spec_def any_field_def)
  qed
qed

lemma dow_mask_spec: "x < 7 \<Longrightarrow> bit (get_dow w) x \<longleftrightarrow> dow_spec w x"
  using bit_all_ones [of x 7]
  by (auto simp: get_dow_def dow_spec_def any_field_def field_ends_def Let_def bit_range_mask
      not_le split: option.splits prod.splits)

lemma in_wrap_shift: "1 \<le> s \<Longrightarrow> 1 \<le> e \<Longrightarrow> 1 \<le> x \<Longrightarrow>
    in_wrap (nat (s - 1)) (nat (e - 1)) (x - 1) \<longleftrightarrow> in_wrap (nat s) (nat e) x"
  by (auto simp: in_wrap_def)

lemma day_mask_spec:
  assumes "1 \<le> x" "x \<le> 31"
  shows "bit (get_day w) (x - 1) \<longleftrightarrow> day_spec w x"
proof (cases "any_field w")
  case True
  have eq: "push_bit 30 1 + (push_bit 30 1 - 1) = (mask 31 :: u32)" by (simp add: mask_eq_exp_minus_1)
  have "bit (push_bit 30 1 + (push_bit 30 1 - 1) :: u32) (x - 1)"
    unfolding eq bit_mask_iff using assms by auto
  with True show ?thesis by (simp add: get_day_def day_spec_def any_field_def)
next
  case False
  have "bit (set_bits_of (wrap_range 31 (nat (s - 1)) (nat (e - 1))) 0) (x - 1) \<longleftrightarrow>
      in_wrap (nat s) (nat e) x" if "1 \<le> s" "s \<le> 31" "1 \<le> e" "e \<le> 31" for s e :: int
    using that assms in_wrap_shift [of s e x] by (subst bit_range_mask) auto
  with False show ?thesis
    by (auto simp: get_day_def day_spec_def any_field_def field_ends_def Let_def not_le not_less
        split: option.splits prod.splits)
qed

lemma month_mask_spec: "x < 12 \<Longrightarrow> bit (get_month w) x \<longleftrightarrow> month_start w x"
  using bit_all_ones [of x 12]
  by (auto simp: get_month_def month_start_def any_field_def field_ends_def Let_def bit_range_mask
      in_wrap_def not_le split: option.splits prod.splits)

section \<open>Properties\<close>

definition valid_tm :: "tm \<Rightarrow> bool" where
  "valid_tm t \<longleftrightarrow> tm_mon t < 12 \<and> 1 \<le> tm_mday t \<and> tm_mday t \<le> 31 \<and> tm_wday t < 7 \<and>
     0 \<le> tm_hour t \<and> tm_hour t \<le> 23 \<and> tm_min t < 60"

lemma find_next_field: "CHR '','' \<notin> set a \<Longrightarrow> find_next (a @ CHR '','' # b) = (a, Some b)"
proof -
  assume "CHR '','' \<notin> set a"
  then have "split_at (CHR '','') (a @ CHR '','' # b) = Some (a, b)" by (simp add: split_at_Some)
  then show ?thesis by (simp add: find_next_def)
qed

lemma find_next_last: "CHR '','' \<notin> set a \<Longrightarrow> find_next a = (a, None)"
  by (simp add: find_next_def)

lemma build_timing_fields:
  assumes "info = t @ CHR '','' # w @ CHR '','' # d @ CHR '','' # m" "length info < 256"
    and "CHR '','' \<notin> set t" "CHR '','' \<notin> set w" "CHR '','' \<notin> set d" "CHR '','' \<notin> set m"
  shows "cw_build_timing i info =
    (True, i\<lparr>monthmask := get_month m, daymask := get_day d, dowmask := get_dow w, minmask := get_timerange t\<rparr>)"
  using assms by (simp add: cw_build_timing_def cw_copy_string_id find_next_field find_next_last Let_def)


definition friday_night :: tm where
  "friday_night = \<lparr>tm_mon = 6, tm_mday = 14, tm_wday = 5, tm_hour = 23, tm_min = 30\<rparr>"


text \<open>
  The end of a month range is ignored: for a valid first month \<open>a\<close>, the range \<open>a-b\<close>
  admits month \<open>a\<close> alone, whatever \<open>b\<close> is, because the second search of \<open>get_month\<close>
  compares the start of the range again.
\<close>

theorem month_range_end_ignored:
  assumes "CHR ''-'' \<notin> set a" "name_index a months < 12" "x < 12"
  shows "bit (get_month (a @ CHR ''-'' # b)) x \<longleftrightarrow> x = name_index a months"
proof -
  have "field_ends (a @ CHR ''-'' # b) = (a, b)"
    using assms(1) split_at_Some [of "CHR ''-''" "a @ CHR ''-'' # b" a b] by (simp add: field_ends_def)
  moreover have "\<not> any_field (a @ CHR ''-'' # b)" by (cases a) (auto simp: any_field_def)
  ultimately show ?thesis
    using assms by (simp add: month_mask_spec month_start_def)
qed

theorem month_range_end_ignored_witness: "\<not> bit (get_month ''jan-mar'') 1"
proof -
  have "name_index ''jan'' months = 0" by code_simp
  then have "bit (get_month (''jan'' @ CHR ''-'' # ''mar'')) 1 \<longleftrightarrow> 1 = (0 :: nat)"
    using month_range_end_ignored [of "''jan''" 1 "''mar''"] by simp
  then show ?thesis by simp
qed

text \<open>
  A time range that does not parse blocks every call: the routine warns that it is
  \<open>assuming no restrictions based on time\<close> but leaves all minute masks zero, so the
  condition is never met.
\<close>

theorem invalid_timerange_never_valid:
  assumes "\<not> any_field r" "parse_timerange r = None"
  shows "\<not> cw_check_timing (i\<lparr>minmask := get_timerange r\<rparr>) now"
proof -
  have "get_timerange r = replicate 24 0"
    using assms by (simp add: get_timerange_def any_field_def)
  then show ?thesis by (auto simp: cw_check_timing_def nat_less_iff)
qed

theorem invalid_timerange_never_valid_witness:
  "\<not> cw_check_timing (\<lparr>hastime = True, monthmask = 4095, daymask = 0x7FFFFFFF, dowmask = 127, minmask = []\<rparr>
     \<lparr>minmask := get_timerange ''9am''\<rparr>) friday_night"
  by (rule invalid_timerange_never_valid) (simp_all add: any_field_def parse_timerange_def)

end
