(* ===== verification/Pbx_Heap.thy ===== *)
theory Pbx_Heap
  imports CW_Hash
begin

text \<open>
  The memory of the dialplan: the \<open>struct cw_exten\<close> cells of \<open>corelib/pbx.c\<close> that contexts
  and hints point to, and linked lists in that memory.

  An address is a \<open>nat\<close>, 0 being \<open>NULL\<close>; the heap maps the allocated addresses to cells, and
  \<open>free\<close> removes an address from its domain.  \<open>seg f h p as q\<close> says that following the pointer
  field \<open>f\<close> from \<open>p\<close> visits the cells \<open>as\<close> and arrives at \<open>q\<close>.
\<close>

section \<open>Cells\<close>

type_synonym addr = nat

abbreviation null :: addr where
  "null \<equiv> 0"

record 'd cw_exten =
  exten :: string
  ext_hash :: u32
  match_cid :: bool
  cidmatch :: string
  priority :: int
  label :: "string option"
  parent :: string
  app :: string
  app_data :: 'd
  peer :: addr
  registrar :: string
  enext :: addr

type_synonym 'd heap = "addr \<rightharpoonup> 'd cw_exten"

datatype errno = ENOMEM | EBUSY | EEXIST | EINVAL | ENOENT

definition PRIORITY_HINT :: int where
  "PRIORITY_HINT = - 1"

text \<open>Assignments through a pointer, \<open>p->peer = q\<close> and \<open>p->next = q\<close>; the source only writes
  through valid pointers.\<close>

definition set_peer :: "addr \<Rightarrow> addr \<Rightarrow> 'd heap \<Rightarrow> 'd heap" where
  "set_peer p q h = (case h p of Some x \<Rightarrow> h(p \<mapsto> x\<lparr>peer := q\<rparr>) | None \<Rightarrow> h)"

definition set_next :: "addr \<Rightarrow> addr \<Rightarrow> 'd heap \<Rightarrow> 'd heap" where
  "set_next p q h = (case h p of Some x \<Rightarrow> h(p \<mapsto> x\<lparr>enext := q\<rparr>) | None \<Rightarrow> h)"

section \<open>List segments\<close>

fun seg :: "('d cw_exten \<Rightarrow> addr) \<Rightarrow> 'd heap \<Rightarrow> addr \<Rightarrow> addr list \<Rightarrow> addr \<Rightarrow> bool" where
  "seg f h p [] q \<longleftrightarrow> p = q"
| "seg f h p (a # as) q \<longleftrightarrow>
     p = a \<and> a \<noteq> null \<and> (case h a of Some x \<Rightarrow> seg f h (f x) as q | None \<Rightarrow> False)"

lemma seg_append [heap_simps]: "seg f h p (as @ bs) q \<longleftrightarrow> (\<exists>r. seg f h p as r \<and> seg f h r bs q)"
  by (induction as arbitrary: p) (auto split: option.splits)

lemma seg_cong:
  "(\<And>a. a \<in> set as \<Longrightarrow> map_option f (h a) = map_option f (h' a)) \<Longrightarrow> seg f h p as q \<longleftrightarrow> seg f h' p as q"
proof (induction as arbitrary: p)
  case (Cons a as)
  have "map_option f (h a) = map_option f (h' a)" using Cons.prems by simp
  with Cons show ?case by (cases "h a"; cases "h' a") auto
qed simp

lemma seg_update [heap_simps]: "a \<notin> set as \<Longrightarrow> seg f (h(a := v)) p as q \<longleftrightarrow> seg f h p as q"
  by (rule seg_cong) auto

lemma seg_next_set_peer [heap_simps]: "seg enext (set_peer a b h) p as q \<longleftrightarrow> seg enext h p as q"
  by (rule seg_cong) (auto simp: set_peer_def split: option.splits)

lemma seg_peer_set_next [heap_simps]: "seg peer (set_next a b h) p as q \<longleftrightarrow> seg peer h p as q"
  by (rule seg_cong) (auto simp: set_next_def split: option.splits)

lemma seg_set_peer [heap_simps]: "a \<notin> set as \<Longrightarrow> seg peer (set_peer a b h) p as q \<longleftrightarrow> seg peer h p as q"
  by (rule seg_cong) (auto simp: set_peer_def split: option.splits)

lemma seg_set_next [heap_simps]: "a \<notin> set as \<Longrightarrow> seg enext (set_next a b h) p as q \<longleftrightarrow> seg enext h p as q"
  by (rule seg_cong) (auto simp: set_next_def split: option.splits)

lemma seg_null [simp]: "seg f h null as null \<longleftrightarrow> as = []"
  by (cases as) auto

lemma seg_dom: "seg f h p as q \<Longrightarrow> a \<in> set as \<Longrightarrow> a \<noteq> null \<and> h a \<noteq> None"
  by (induction as arbitrary: p) (auto split: option.splits)

lemma seg_unique: "seg f h p as null \<Longrightarrow> seg f h p bs null \<Longrightarrow> as = bs"
proof (induction as arbitrary: p bs)
  case (Cons a as)
  then show ?case by (cases bs) (auto split: option.splits)
qed (auto elim: seg.elims)

definition head :: "addr list \<Rightarrow> addr" where
  "head as = (case as of [] \<Rightarrow> null | a # _ \<Rightarrow> a)"

lemma head_simps [simp]: "head [] = null" "head (a # as) = a"
  by (simp_all add: head_def)

lemma seg_head: "seg f h p as null \<Longrightarrow> p = head as"
  by (cases as) auto

lemma seg_step:
  "seg f h p (a # as) null \<longleftrightarrow> p = a \<and> a \<noteq> null \<and> (\<exists>x. h a = Some x \<and> f x = head as \<and> seg f h (head as) as null)"
  by (cases as) (auto split: option.splits)

lemma set_next_other [simp]: "a \<noteq> p \<Longrightarrow> set_next p q h a = h a"
  by (simp add: set_next_def split: option.split)

lemma set_peer_other [simp]: "a \<noteq> p \<Longrightarrow> set_peer p q h a = h a"
  by (simp add: set_peer_def split: option.split)

lemma set_next_same: "h p = Some x \<Longrightarrow> set_next p q h p = Some (x\<lparr>enext := q\<rparr>)"
  by (simp add: set_next_def)

lemma set_peer_same: "h p = Some x \<Longrightarrow> set_peer p q h p = Some (x\<lparr>peer := q\<rparr>)"
  by (simp add: set_peer_def)

lemma set_next_None [simp]: "set_next p q h a = None \<longleftrightarrow> h a = None"
  by (simp add: set_next_def split: option.split)

lemma set_peer_None [simp]: "set_peer p q h a = None \<longleftrightarrow> h a = None"
  by (simp add: set_peer_def split: option.split)

text \<open>Redirecting the last pointer of a segment.\<close>

lemma seg_relink_next:
  assumes "seg enext h p (as @ [a]) q" "a \<notin> set as"
  shows "seg enext (set_next a r h) p (as @ [a]) r"
  using assms by (auto simp: heap_simps set_next_same split: option.splits)

lemma seg_relink_peer:
  assumes "seg peer h p (as @ [a]) q" "a \<notin> set as"
  shows "seg peer (set_peer a r h) p (as @ [a]) r"
  using assms by (auto simp: heap_simps set_peer_same split: option.splits)

end
