(* ===== verification/Pbx_Hints.thy ===== *)
theory Pbx_Hints
  imports Pbx_Heap
begin

text \<open>
  Extension states: \<open>corelib/devicestate.c\<close> (the state of a device) and the hint part of
  \<open>corelib/pbx.c\<close> (the state of an extension computed from its devices, the watchers of it and
  their notification).

  A hint points to an extension cell, so the operations read the heap of \<open>Pbx_Heap\<close>.  The
  channel drivers' \<open>devicestate\<close> callbacks and the list of active channels are parameters of
  \<open>cw_device_state\<close>; the hint operations take the resulting function \<open>dev\<close> from device names
  to states.  Notifying a watcher is an entry of the log \<open>notified\<close>.  \<open>hintlock\<close> counts how
  often the recursive lock is held.
\<close>

section \<open>Device states\<close>

definition CW_DEVICE_UNKNOWN :: int where "CW_DEVICE_UNKNOWN = 0"
definition CW_DEVICE_NOT_INUSE :: int where "CW_DEVICE_NOT_INUSE = 1"
definition CW_DEVICE_INUSE :: int where "CW_DEVICE_INUSE = 2"
definition CW_DEVICE_BUSY :: int where "CW_DEVICE_BUSY = 3"
definition CW_DEVICE_INVALID :: int where "CW_DEVICE_INVALID = 4"
definition CW_DEVICE_UNAVAILABLE :: int where "CW_DEVICE_UNAVAILABLE = 5"
definition CW_DEVICE_RINGING :: int where "CW_DEVICE_RINGING = 6"

lemmas device_state_defs =
  CW_DEVICE_UNKNOWN_def CW_DEVICE_NOT_INUSE_def CW_DEVICE_INUSE_def CW_DEVICE_BUSY_def
  CW_DEVICE_INVALID_def CW_DEVICE_UNAVAILABLE_def CW_DEVICE_RINGING_def

definition CW_CHANNEL_NAME :: nat where "CW_CHANNEL_NAME = 80"
definition CW_MAX_EXTENSION :: nat where "CW_MAX_EXTENSION = 80"

text \<open>\<open>chan\<close> looks up a channel by the prefix of its name: \<open>Some ringing\<close> if there is one.\<close>

definition cw_parse_device_state :: "(string \<Rightarrow> bool option) \<Rightarrow> string \<Rightarrow> int" where
  "cw_parse_device_state chan device =
     (case chan (cw_copy_string device (CW_CHANNEL_NAME - 1) @ ''-'') of
        None \<Rightarrow> CW_DEVICE_UNKNOWN
      | Some ringing \<Rightarrow> if ringing then CW_DEVICE_RINGING else CW_DEVICE_INUSE)"

text \<open>\<open>tech\<close> looks up a channel driver by its name: \<open>Some None\<close> is a driver that does not
  report device states.\<close>

definition cw_device_state ::
    "(string \<Rightarrow> (string option \<Rightarrow> int) option option) \<Rightarrow> (string \<Rightarrow> bool option) \<Rightarrow> string \<Rightarrow> int" where
  "cw_device_state tech chan device =
     (let (tname, number) = (case split_at (CHR ''/'') device of
                               Some (a, b) \<Rightarrow> (a, Some b) | None \<Rightarrow> (device, None)) in
      case tech tname of
        None \<Rightarrow> CW_DEVICE_INVALID
      | Some None \<Rightarrow> cw_parse_device_state chan device
      | Some (Some devicestate) \<Rightarrow>
          (let res = devicestate number in
           if res = CW_DEVICE_UNKNOWN
           then (let res = cw_parse_device_state chan device in
                 if res = CW_DEVICE_UNKNOWN then CW_DEVICE_NOT_INUSE else res)
           else res))"

section \<open>The state of an extension\<close>

definition CW_EXTENSION_DEACTIVATED :: int where "CW_EXTENSION_DEACTIVATED = - 1"
definition CW_EXTENSION_NOT_INUSE :: int where "CW_EXTENSION_NOT_INUSE = 0"
definition CW_EXTENSION_INUSE :: int where "CW_EXTENSION_INUSE = 1"
definition CW_EXTENSION_BUSY :: int where "CW_EXTENSION_BUSY = 2"
definition CW_EXTENSION_UNAVAILABLE :: int where "CW_EXTENSION_UNAVAILABLE = 4"
definition CW_EXTENSION_RINGING :: int where "CW_EXTENSION_RINGING = 8"

lemmas extension_state_defs =
  CW_EXTENSION_DEACTIVATED_def CW_EXTENSION_NOT_INUSE_def CW_EXTENSION_INUSE_def
  CW_EXTENSION_BUSY_def CW_EXTENSION_UNAVAILABLE_def CW_EXTENSION_RINGING_def

definition extension_states :: "(int \<times> string) list" where
  "extension_states =
     [(CW_EXTENSION_NOT_INUSE, ''Idle''), (CW_EXTENSION_INUSE, ''InUse''),
      (CW_EXTENSION_BUSY, ''Busy''), (CW_EXTENSION_UNAVAILABLE, ''Unavailable''),
      (CW_EXTENSION_RINGING, ''Ringing''),
      (CW_EXTENSION_INUSE OR CW_EXTENSION_RINGING, ''InUse&Ringing'')]"

definition cw_extension_state2str :: "int \<Rightarrow> string" where
  "cw_extension_state2str s =
     (case map_of extension_states s of Some t \<Rightarrow> t | None \<Rightarrow> ''Unknown'')"

record flags =
  allunavailable :: bool
  allbusy :: bool
  allfree :: bool
  busy :: bool
  inuse :: bool
  ring :: bool

definition initial_flags :: flags where
  "initial_flags = \<lparr>allunavailable = True, allbusy = True, allfree = True, busy = False, inuse = False, ring = False\<rparr>"

definition count_device :: "flags \<Rightarrow> int \<Rightarrow> flags" where
  "count_device f res =
     (if res = CW_DEVICE_NOT_INUSE then f\<lparr>allunavailable := False, allbusy := False\<rparr>
      else if res = CW_DEVICE_INUSE then f\<lparr>inuse := True, allunavailable := False, allfree := False\<rparr>
      else if res = CW_DEVICE_RINGING then f\<lparr>ring := True, allunavailable := False, allfree := False\<rparr>
      else if res = CW_DEVICE_BUSY then f\<lparr>allunavailable := False, allfree := False, busy := True\<rparr>
      else if res = CW_DEVICE_UNAVAILABLE \<or> res = CW_DEVICE_INVALID then f\<lparr>allbusy := False, allfree := False\<rparr>
      else f\<lparr>allunavailable := False, allbusy := False, allfree := False\<rparr>)"

definition flags_state :: "flags \<Rightarrow> int" where
  "flags_state f =
     (if \<not> inuse f \<and> ring f then CW_EXTENSION_RINGING
      else if inuse f \<and> ring f then CW_EXTENSION_INUSE OR CW_EXTENSION_RINGING
      else if inuse f then CW_EXTENSION_INUSE
      else if allfree f then CW_EXTENSION_NOT_INUSE
      else if allbusy f then CW_EXTENSION_BUSY
      else if allunavailable f then CW_EXTENSION_UNAVAILABLE
      else if busy f then CW_EXTENSION_INUSE
      else CW_EXTENSION_NOT_INUSE)"

text \<open>The pieces of a string between the separators: \<open>strchr\<close> and \<open>strsep\<close> loops alike.\<close>

fun split_on :: "char \<Rightarrow> string \<Rightarrow> string list" where
  "split_on c [] = [[]]"
| "split_on c (x # s) =
     (if x = c then [] # split_on c s
      else case split_on c s of d # ds \<Rightarrow> (x # d) # ds | [] \<Rightarrow> [[x]])"

fun state_loop :: "(string \<Rightarrow> int) \<Rightarrow> flags \<Rightarrow> string list \<Rightarrow> flags" where
  "state_loop dev f [] = f"
| "state_loop dev f (cur # rest) = state_loop dev (count_device f (dev cur)) rest"

definition cw_extension_state2 :: "(string \<Rightarrow> int) \<Rightarrow> 'd cw_exten option \<Rightarrow> int" where
  "cw_extension_state2 dev e =
     (case e of
        None \<Rightarrow> - 1
      | Some x \<Rightarrow>
          flags_state (state_loop dev initial_flags
            (split_on (CHR ''&'') (cw_copy_string (app x) CW_MAX_EXTENSION))))"

section \<open>Hints and watchers\<close>

record ('c, 'x) cw_state_cb =
  cb_id :: u32
  cb_data :: 'x
  cb_callback :: 'c

record ('c, 'x) cw_hint =
  hint_exten :: addr
  laststate :: int
  callbacks :: "('c, 'x) cw_state_cb list"

record ('c, 'x) hint_state =
  hints :: "('c, 'x) cw_hint list"
  statecbs :: "('c, 'x) cw_state_cb list"
  stateid :: u32
  hintlock :: int
  notified :: "('c \<times> string \<times> string \<times> int \<times> 'x) list"

definition lock_hints :: "('c, 'x) hint_state \<Rightarrow> ('c, 'x) hint_state" where
  "lock_hints s = s\<lparr>hintlock := hintlock s + 1\<rparr>"

definition unlock_hints :: "('c, 'x) hint_state \<Rightarrow> ('c, 'x) hint_state" where
  "unlock_hints s = s\<lparr>hintlock := hintlock s - 1\<rparr>"

text \<open>\<open>for (cblist = ...) cblist->callback(parent->name, exten, state, cblist->data)\<close>\<close>

definition notify :: "'d cw_exten \<Rightarrow> int \<Rightarrow> ('c, 'x) cw_state_cb list \<Rightarrow>
    ('c \<times> string \<times> string \<times> int \<times> 'x) list" where
  "notify x st cbs = map (\<lambda>cb. (cb_callback cb, parent x, exten x, st, cb_data cb)) cbs"

text \<open>The inner loop of \<open>cw_hint_state_changed\<close> over the devices of one hint; the result is
  the hint and the calls made for it.\<close>

fun hint_devices :: "(string \<Rightarrow> int) \<Rightarrow> string \<Rightarrow> ('c, 'x) cw_state_cb list \<Rightarrow> 'd cw_exten \<Rightarrow>
    string list \<Rightarrow> ('c, 'x) cw_hint \<Rightarrow> ('c, 'x) cw_hint \<times> ('c \<times> string \<times> string \<times> int \<times> 'x) list" where
  "hint_devices dev device general x [] hint = (hint, [])"
| "hint_devices dev device general x (cur # rest) hint =
     (if strcmp cur device \<noteq> 0 then hint_devices dev device general x rest hint
      else
        (let st = cw_extension_state2 dev (Some x) in
         if st = - 1 \<or> st = laststate hint then hint_devices dev device general x rest hint
         else (hint\<lparr>laststate := st\<rparr>, notify x st general @ notify x st (callbacks hint))))"

text \<open>The outer loop; \<open>None\<close> when a hint points to a cell that has been freed.\<close>

fun hint_loop :: "(string \<Rightarrow> int) \<Rightarrow> string \<Rightarrow> 'd heap \<Rightarrow> ('c, 'x) cw_state_cb list \<Rightarrow>
    ('c, 'x) cw_hint list \<Rightarrow> (('c, 'x) cw_hint list \<times> ('c \<times> string \<times> string \<times> int \<times> 'x) list) option" where
  "hint_loop dev device h general [] = Some ([], [])"
| "hint_loop dev device h general (hint # rest) =
     (case h (hint_exten hint) of
        None \<Rightarrow> None
      | Some x \<Rightarrow>
          (let (hint', calls) = hint_devices dev device general x
                 (split_on (CHR ''&'') (cw_copy_string (app x) CW_MAX_EXTENSION)) hint in
           case hint_loop dev device h general rest of
             None \<Rightarrow> None
           | Some (rest', calls') \<Rightarrow> Some (hint' # rest', calls @ calls')))"

definition cw_hint_state_changed ::
    "(string \<Rightarrow> int) \<Rightarrow> 'd heap \<Rightarrow> string \<Rightarrow> ('c, 'x) hint_state \<Rightarrow> ('c, 'x) hint_state option" where
  "cw_hint_state_changed dev h device s =
     (let s = lock_hints s in
      case hint_loop dev device h (statecbs s) (hints s) of
        None \<Rightarrow> None
      | Some (hs, calls) \<Rightarrow> Some (unlock_hints (s\<lparr>hints := hs, notified := notified s @ calls\<rparr>)))"

text \<open>
  \<open>cw_extension_state_add\<close>.  \<open>which\<close> is \<open>None\<close> when neither context nor extension is given;
  otherwise it carries the hint cell that \<open>cw_hint_extension\<close> found for them, if any.
\<close>

fun set_general :: "'c \<Rightarrow> 'x \<Rightarrow> ('c, 'x) cw_state_cb list \<Rightarrow> ('c, 'x) cw_state_cb list option" where
  "set_general cb d [] = None"
| "set_general cb d (c # cs) =
     (if cb_callback c = cb then Some (c\<lparr>cb_data := d\<rparr> # cs) else map_option ((#) c) (set_general cb d cs))"

fun add_callback :: "addr \<Rightarrow> ('c, 'x) cw_state_cb \<Rightarrow> ('c, 'x) cw_hint list \<Rightarrow> ('c, 'x) cw_hint list option" where
  "add_callback e c [] = None"
| "add_callback e c (l # ls) =
     (if hint_exten l = e then Some (l\<lparr>callbacks := c # callbacks l\<rparr> # ls)
      else map_option ((#) l) (add_callback e c ls))"

definition cw_extension_state_add ::
    "bool \<Rightarrow> addr option option \<Rightarrow> 'c \<Rightarrow> 'x \<Rightarrow> ('c, 'x) hint_state \<Rightarrow> int \<times> ('c, 'x) hint_state" where
  "cw_extension_state_add mem which cb d s =
     (case which of
        None \<Rightarrow>
          (let s = lock_hints s in
           case set_general cb d (statecbs s) of
             Some cbs \<Rightarrow> (0, unlock_hints (s\<lparr>statecbs := cbs\<rparr>))
           | None \<Rightarrow>
               if \<not> mem then (- 1, unlock_hints s)
               else (0, unlock_hints (s\<lparr>statecbs :=
                      \<lparr>cb_id = 0, cb_data = d, cb_callback = cb\<rparr> # statecbs s\<rparr>)))
      | Some None \<Rightarrow> (- 1, s)
      | Some (Some e) \<Rightarrow>
          (let s = lock_hints s in
           case add_callback e \<lparr>cb_id = stateid s, cb_data = d, cb_callback = cb\<rparr> (hints s) of
             None \<Rightarrow> (- 1, unlock_hints s)
           | Some hs \<Rightarrow>
               if \<not> mem then (- 1, unlock_hints s)
               else (sint (stateid s), unlock_hints (s\<lparr>hints := hs, stateid := stateid s + 1\<rparr>))))"

fun del_callback :: "u32 \<Rightarrow> ('c, 'x) cw_hint list \<Rightarrow> ('c, 'x) cw_hint list option" where
  "del_callback i [] = None"
| "del_callback i (l # ls) =
     (if \<exists>c\<in>set (callbacks l). cb_id c = i
      then Some (l\<lparr>callbacks := remove_first (\<lambda>c. cb_id c = i) (callbacks l)\<rparr> # ls)
      else map_option ((#) l) (del_callback i ls))"

text \<open>\<open>cw_extension_state_del\<close>; on the path where a general callback is not found the source
  locks the hints a second time before it returns.\<close>

definition cw_extension_state_del ::
    "u32 \<Rightarrow> 'c option \<Rightarrow> ('c, 'x) hint_state \<Rightarrow> int \<times> ('c, 'x) hint_state" where
  "cw_extension_state_del i cb s =
     (if i = 0 \<and> cb = None then (- 1, s)
      else
        (let s = lock_hints s in
         if i = 0
         then if \<exists>c\<in>set (statecbs s). Some (cb_callback c) = cb
              then (0, unlock_hints (s\<lparr>statecbs := remove_first (\<lambda>c. Some (cb_callback c) = cb) (statecbs s)\<rparr>))
              else (- 1, lock_hints s)
         else case del_callback i (hints s) of
                Some hs \<Rightarrow> (0, unlock_hints (s\<lparr>hints := hs\<rparr>))
              | None \<Rightarrow> (- 1, unlock_hints s)))"

definition cw_add_hint ::
    "(string \<Rightarrow> int) \<Rightarrow> 'd heap \<Rightarrow> bool \<Rightarrow> addr \<Rightarrow> ('c, 'x) hint_state \<Rightarrow> int \<times> ('c, 'x) hint_state" where
  "cw_add_hint dev h mem e s =
     (if e = null then (- 1, s)
      else
        (let s = lock_hints s in
         if \<exists>l\<in>set (hints s). hint_exten l = e then (- 1, unlock_hints s)
         else if \<not> mem then (- 1, unlock_hints s)
         else (0, unlock_hints (s\<lparr>hints :=
                \<lparr>hint_exten = e, laststate = cw_extension_state2 dev (h e), callbacks = []\<rparr> # hints s\<rparr>))))"

fun change_first :: "addr \<Rightarrow> addr \<Rightarrow> ('c, 'x) cw_hint list \<Rightarrow> ('c, 'x) cw_hint list option" where
  "change_first oe ne [] = None"
| "change_first oe ne (l # ls) =
     (if hint_exten l = oe then Some (l\<lparr>hint_exten := ne\<rparr> # ls)
      else map_option ((#) l) (change_first oe ne ls))"

definition cw_change_hint :: "addr \<Rightarrow> addr \<Rightarrow> ('c, 'x) hint_state \<Rightarrow> int \<times> ('c, 'x) hint_state" where
  "cw_change_hint oe ne s =
     (let s = lock_hints s in
      case change_first oe ne (hints s) of
        Some hs \<Rightarrow> (0, unlock_hints (s\<lparr>hints := hs\<rparr>))
      | None \<Rightarrow> (- 1, unlock_hints s))"

text \<open>\<open>cw_remove_hint\<close> tells the watchers that the hint is gone; it reads the cell of the
  extension, which is still allocated when it is called.\<close>

definition cw_remove_hint :: "'d heap \<Rightarrow> addr \<Rightarrow> ('c, 'x) hint_state \<Rightarrow> int \<times> ('c, 'x) hint_state" where
  "cw_remove_hint h e s =
     (if e = null then (- 1, s)
      else
        (let s = lock_hints s in
         case List.extract (\<lambda>l. hint_exten l = e) (hints s) of
           None \<Rightarrow> (- 1, unlock_hints s)
         | Some (before, l, rest) \<Rightarrow>
             (let calls = (case h e of Some x \<Rightarrow> notify x CW_EXTENSION_DEACTIVATED (callbacks l) | None \<Rightarrow> []) in
              (0, unlock_hints (s\<lparr>hints := before @ rest, notified := notified s @ calls\<rparr>)))))"

section \<open>The state of an extension as a function of its devices\<close>

definition devices :: "'d cw_exten \<Rightarrow> string list" where
  "devices x = split_on (CHR ''&'') (cw_copy_string (app x) CW_MAX_EXTENSION)"

definition state_of_devices :: "int set \<Rightarrow> int" where
  "state_of_devices D =
     (if CW_DEVICE_INUSE \<in> D
      then if CW_DEVICE_RINGING \<in> D then CW_EXTENSION_INUSE OR CW_EXTENSION_RINGING else CW_EXTENSION_INUSE
      else if CW_DEVICE_RINGING \<in> D then CW_EXTENSION_RINGING
      else if D \<subseteq> {CW_DEVICE_NOT_INUSE} then CW_EXTENSION_NOT_INUSE
      else if D \<subseteq> {CW_DEVICE_BUSY} then CW_EXTENSION_BUSY
      else if D \<subseteq> {CW_DEVICE_UNAVAILABLE, CW_DEVICE_INVALID} then CW_EXTENSION_UNAVAILABLE
      else if CW_DEVICE_BUSY \<in> D then CW_EXTENSION_INUSE
      else CW_EXTENSION_NOT_INUSE)"

lemma state_loop_flags:
  "state_loop dev f ds =
     \<lparr>allunavailable = (allunavailable f \<and> dev ` set ds \<subseteq> {CW_DEVICE_UNAVAILABLE, CW_DEVICE_INVALID}),
      allbusy = (allbusy f \<and> dev ` set ds \<subseteq> {CW_DEVICE_INUSE, CW_DEVICE_RINGING, CW_DEVICE_BUSY}),
      allfree = (allfree f \<and> dev ` set ds \<subseteq> {CW_DEVICE_NOT_INUSE}),
      busy = (busy f \<or> CW_DEVICE_BUSY \<in> dev ` set ds),
      inuse = (inuse f \<or> CW_DEVICE_INUSE \<in> dev ` set ds),
      ring = (ring f \<or> CW_DEVICE_RINGING \<in> dev ` set ds)\<rparr>"
proof (induction ds arbitrary: f)
  case (Cons d ds)
  show ?case
    unfolding state_loop.simps Cons.IH count_device_def
    by (simp add: device_state_defs)
qed simp

lemma split_on_not_Nil [simp]: "split_on c s \<noteq> []"
  by (induction s) (auto split: list.split)

lemma cw_extension_state2_devices:
  "cw_extension_state2 dev (Some x) = state_of_devices (dev ` set (devices x))"
proof -
  let ?D = "dev ` set (devices x)"
  have "flags_state (state_loop dev initial_flags (devices x)) = state_of_devices ?D"
    unfolding state_loop_flags initial_flags_def flags_state_def state_of_devices_def
    by (auto simp: device_state_defs)
  then show ?thesis by (simp add: cw_extension_state2_def devices_def)
qed

lemma state_of_devices_not_neg: "state_of_devices D \<noteq> - 1"
  by (simp add: state_of_devices_def extension_state_defs)

section \<open>What a change of a device does\<close>

definition affected :: "(string \<Rightarrow> int) \<Rightarrow> string \<Rightarrow> 'd cw_exten \<Rightarrow> ('c, 'x) cw_hint \<Rightarrow> bool" where
  "affected dev device x l \<longleftrightarrow>
     device \<in> set (devices x) \<and> laststate l \<noteq> cw_extension_state2 dev (Some x)"

lemma hint_devices_affected:
  "hint_devices dev device general x ds l =
     (if device \<in> set ds \<and> laststate l \<noteq> cw_extension_state2 dev (Some x)
      then (l\<lparr>laststate := cw_extension_state2 dev (Some x)\<rparr>,
            notify x (cw_extension_state2 dev (Some x)) (general @ callbacks l))
      else (l, []))"
  using state_of_devices_not_neg [of "dev ` set (devices x)"]
  by (induction ds) (auto simp: cw_extension_state2_devices notify_def Let_def)

definition refresh :: "(string \<Rightarrow> int) \<Rightarrow> string \<Rightarrow> 'd heap \<Rightarrow> ('c, 'x) cw_hint \<Rightarrow> ('c, 'x) cw_hint" where
  "refresh dev device h l =
     (let x = the (h (hint_exten l)) in
      if affected dev device x l then l\<lparr>laststate := cw_extension_state2 dev (Some x)\<rparr> else l)"

definition calls_for :: "(string \<Rightarrow> int) \<Rightarrow> string \<Rightarrow> 'd heap \<Rightarrow> ('c, 'x) cw_state_cb list \<Rightarrow>
    ('c, 'x) cw_hint \<Rightarrow> ('c \<times> string \<times> string \<times> int \<times> 'x) list" where
  "calls_for dev device h general l =
     (let x = the (h (hint_exten l)) in
      if affected dev device x l
      then notify x (cw_extension_state2 dev (Some x)) (general @ callbacks l) else [])"

lemma hint_loop_refresh:
  "(\<forall>l\<in>set ls. h (hint_exten l) \<noteq> None) \<Longrightarrow>
     hint_loop dev device h general ls =
       Some (map (refresh dev device h) ls, concat (map (calls_for dev device h general) ls))"
  by (induction ls)
    (auto simp: hint_devices_affected affected_def devices_def refresh_def calls_for_def Let_def)

lemma hint_loop_dangling:
  "l \<in> set ls \<Longrightarrow> h (hint_exten l) = None \<Longrightarrow> hint_loop dev device h general ls = None"
  by (induction ls) (auto split: option.splits simp: Let_def)

section \<open>Watchers\<close>

definition watcher_ids :: "('c, 'x) hint_state \<Rightarrow> u32 set" where
  "watcher_ids s = (\<Union>l\<in>set (hints s). cb_id ` set (callbacks l))"

lemma del_add_callback:
  "add_callback e c ls = Some ls' \<Longrightarrow> \<forall>l\<in>set ls. \<forall>k\<in>set (callbacks l). cb_id k \<noteq> cb_id c \<Longrightarrow>
     del_callback (cb_id c) ls' = Some ls"
  by (induction ls arbitrary: ls') (auto split: if_splits)

lemma add_callback_None: "add_callback e c ls = None \<longleftrightarrow> (\<forall>l\<in>set ls. hint_exten l \<noteq> e)"
  by (induction ls) auto

section \<open>Properties\<close>


text \<open>
  C9. A change of a device refreshes every hint that names the device and no other, and tells
  the general watchers and then the hint's own watchers of it, once each and only when the
  state of the extension differs from the one last reported; the lock is released.
\<close>

theorem hint_state_changed_notifies:
  assumes "\<forall>l\<in>set (hints s). h (hint_exten l) \<noteq> None"
  shows "cw_hint_state_changed dev h device s =
    Some (s\<lparr>hints := map (refresh dev device h) (hints s),
            notified := notified s @ concat (map (calls_for dev device h (statecbs s)) (hints s))\<rparr>)"
  using assms
  by (simp add: cw_hint_state_changed_def lock_hints_def unlock_hints_def hint_loop_refresh)

definition demo_cell :: "unit cw_exten" where
  "demo_cell = \<lparr>exten = ''100'', ext_hash = 0, match_cid = False, cidmatch = [], priority = - 1, label = None,
     parent = ''default'', app = ''SIP/a&SIP/b'', app_data = (), peer = 0, registrar = ''demo'', enext = 0\<rparr>"

definition demo_hints :: "(nat, nat) hint_state" where
  "demo_hints = \<lparr>hints = [\<lparr>hint_exten = 5, laststate = 0,
                            callbacks = [\<lparr>cb_id = 1, cb_data = 11, cb_callback = 1\<rparr>]\<rparr>],
     statecbs = [\<lparr>cb_id = 0, cb_data = 22, cb_callback = 2\<rparr>], stateid = 2, hintlock = 0, notified = []\<rparr>"

theorem hint_state_changed_notifies_witness:
  "map_option notified (cw_hint_state_changed (\<lambda>d. if d = ''SIP/b'' then 6 else 1) [5 \<mapsto> demo_cell] ''SIP/b'' demo_hints)
     = Some [(2, ''default'', ''100'', 8, 22), (1, ''default'', ''100'', 8, 11)]"
proof -
  have "set (devices demo_cell) = {''SIP/a'', ''SIP/b''}"
    by (simp add: devices_def demo_cell_def cw_copy_string_def CW_MAX_EXTENSION_def)
  then have "calls_for (\<lambda>d. if d = ''SIP/b'' then 6 else 1) ''SIP/b'' [5 \<mapsto> demo_cell] (statecbs demo_hints) (hd (hints demo_hints))
      = [(2, ''default'', ''100'', 8, 22), (1, ''default'', ''100'', 8, 11)]"
    by (simp add: calls_for_def affected_def cw_extension_state2_devices state_of_devices_def device_state_defs
        extension_state_defs notify_def demo_hints_def) (simp add: demo_cell_def)
  then show ?thesis
    by (subst hint_state_changed_notifies) (simp_all add: demo_hints_def)
qed

text \<open>
  Removing a general watcher that is not registered leaves the lock on the hints held:
  the operation fails without changing the watchers, but the lock is taken twice and never
  released, so every later operation of another thread blocks.
\<close>

theorem state_del_keeps_lock:
  assumes "\<forall>c\<in>set (statecbs s). cb_callback c \<noteq> cb"
  shows "cw_extension_state_del 0 (Some cb) s = (- 1, s\<lparr>hintlock := hintlock s + 2\<rparr>)"
  using assms by (auto simp: cw_extension_state_del_def lock_hints_def)

theorem state_del_keeps_lock_witness:
  "hintlock (snd (cw_extension_state_del 0 (Some 7) demo_hints)) = 2"
  using state_del_keeps_lock [of demo_hints 7] by (simp add: demo_hints_def)

text \<open>
  Watching an extension and cancelling the watch by the id returned restores the hints, as
  long as the id counter has not run into ids still in use; watching an extension without a
  hint fails and changes nothing.
\<close>

theorem state_add_del:
  assumes "stateid s \<noteq> 0" "stateid s \<notin> watcher_ids s"
  shows "case cw_extension_state_add True (Some (Some e)) cb d s of (i, s') \<Rightarrow>
    if \<exists>l\<in>set (hints s). hint_exten l = e
    then i = sint (stateid s) \<and> cw_extension_state_del (word_of_int i) None s' = (0, s\<lparr>stateid := stateid s + 1\<rparr>)
    else i = - 1 \<and> s' = s"
proof (cases "add_callback e \<lparr>cb_id = stateid s, cb_data = d, cb_callback = cb\<rparr> (hints s)")
  case None
  then show ?thesis
    using add_callback_None [of e _ "hints s"]
    by (auto simp: cw_extension_state_add_def lock_hints_def unlock_hints_def)
next
  case (Some hs)
  then have ex: "\<exists>l\<in>set (hints s). hint_exten l = e"
    using add_callback_None [of e "\<lparr>cb_id = stateid s, cb_data = d, cb_callback = cb\<rparr>" "hints s"] by auto
  have "\<forall>l\<in>set (hints s). \<forall>k\<in>set (callbacks l). cb_id k \<noteq> stateid s"
    using assms(2) by (force simp: watcher_ids_def)
  with del_add_callback [OF Some] have "del_callback (stateid s) hs = Some (hints s)" by simp
  with ex show ?thesis
    using assms(1) Some
    by (simp add: cw_extension_state_add_def cw_extension_state_del_def lock_hints_def unlock_hints_def)
qed

theorem state_add_del_witness:
  "fst (cw_extension_state_add True (Some (Some 5)) 3 33 demo_hints) = 2"
  using state_add_del [of demo_hints 5 3 33]
  by (simp add: demo_hints_def watcher_ids_def split: prod.splits)

end
