(* ===== verification/Pbx_Extens.thy ===== *)
theory Pbx_Extens
  imports Pbx_Hints "HOL-Library.Product_Lexorder"
begin

text \<open>
  The extensions of a context, \<open>corelib/pbx.c\<close>: \<open>cw_add_extension2\<close> and
  \<open>cw_context_remove_extension2\<close>.

  A context keeps its extensions as a list of lists in the heap: \<open>next\<close> links the first
  priorities of the different extensions, \<open>peer\<close> links the priorities of one extension.  Both
  routines are translated with their pointer assignments.  The address \<open>malloc\<close> returns is
  an argument (\<open>None\<close> when it fails), as is whether the context could be locked.  A walk that
  follows more pointers than the fuel \<open>n\<close>, or a freed cell, yields \<open>None\<close>; the lemmas show
  that fuel above the number of cells is enough.  \<open>destroyed\<close> lists the application data that
  was handed to its destructor.
\<close>

section \<open>The routines of the source\<close>

record ('d, 'c, 'x) ext_state =
  cells :: "'d heap"
  root :: addr
  hint_st :: "('c, 'x) hint_state"
  destroyed :: "'d list"

definition ext_strncpy :: "string \<Rightarrow> nat \<Rightarrow> string" where
  "ext_strncpy src len = filter (\<lambda>c. c \<noteq> CHR '' '') (take (len - 1) src)"

definition new_exten :: "string \<Rightarrow> string \<Rightarrow> int \<Rightarrow> string option \<Rightarrow> string option \<Rightarrow> string \<Rightarrow> 'd \<Rightarrow> string \<Rightarrow> 'd cw_exten" where
  "new_exten con extension prio lab callerid application d reg =
     \<lparr>exten = ext_strncpy extension (length extension + 1),
      ext_hash = cw_hash_string extension,
      match_cid = (callerid \<noteq> None),
      cidmatch = (case callerid of Some c \<Rightarrow> ext_strncpy c (length c + 1) | None \<Rightarrow> []),
      priority = prio, label = lab, parent = con, app = application, app_data = d,
      peer = null, registrar = reg, enext = null\<rparr>"

text \<open>The comparison of an extension of the list with the new one: \<open>extension\<close> is the name as
  the caller wrote it, \<open>tmp\<close> the new cell.\<close>

definition exten_cmp :: "'d cw_exten \<Rightarrow> string \<Rightarrow> 'd cw_exten \<Rightarrow> int" where
  "exten_cmp e extension tmp =
     (let res = (if at0 (exten e) \<noteq> CHR ''_'' \<and> at0 extension = CHR ''_'' then - 1
                 else if at0 (exten e) = CHR ''_'' \<and> at0 extension \<noteq> CHR ''_'' then 1
                 else strcmp (exten e) extension) in
      if res = 0
      then if \<not> match_cid e \<and> \<not> match_cid tmp then 0
           else if match_cid tmp \<and> \<not> match_cid e then 1
           else if match_cid e \<and> \<not> match_cid tmp then - 1
           else strcasecmp (cidmatch e) (cidmatch tmp)
      else res)"

datatype place = Same_row addr addr | Before addr addr | At_end addr

fun find_row :: "nat \<Rightarrow> 'd heap \<Rightarrow> string \<Rightarrow> 'd cw_exten \<Rightarrow> addr \<Rightarrow> addr \<Rightarrow> place option" where
  "find_row 0 h extension tmp el e = None"
| "find_row (Suc n) h extension tmp el e =
     (if e = null then Some (At_end el)
      else case h e of
        None \<Rightarrow> None
      | Some x \<Rightarrow>
          (let res = exten_cmp x extension tmp in
           if res = 0 then Some (Same_row el e)
           else if res > 0 then Some (Before el e)
           else find_row n h extension tmp e (enext x)))"

datatype peer_place = Equal addr addr | Greater addr addr | Last addr

fun find_peer :: "nat \<Rightarrow> 'd heap \<Rightarrow> int \<Rightarrow> addr \<Rightarrow> addr \<Rightarrow> peer_place option" where
  "find_peer 0 h prio ep e = None"
| "find_peer (Suc n) h prio ep e =
     (if e = null then Some (Last ep)
      else case h e of
        None \<Rightarrow> None
      | Some x \<Rightarrow>
          if priority x = prio then Some (Equal ep e)
          else if priority x > prio then Some (Greater ep e)
          else find_peer n h prio e (peer x))"

text \<open>\<open>if (el) el->next = q; else con->root = q;\<close>\<close>

definition link_next :: "addr \<Rightarrow> addr \<Rightarrow> ('d, 'c, 'x) ext_state \<Rightarrow> ('d, 'c, 'x) ext_state" where
  "link_next el q s =
     (if el \<noteq> null then s\<lparr>cells := set_next el q (cells s)\<rparr> else s\<lparr>root := q\<rparr>)"

definition hint_added :: "(string \<Rightarrow> int) \<Rightarrow> bool \<Rightarrow> int \<Rightarrow> addr \<Rightarrow> ('d, 'c, 'x) ext_state \<Rightarrow> ('d, 'c, 'x) ext_state" where
  "hint_added dev hmem prio t s =
     (if prio = PRIORITY_HINT
      then s\<lparr>hint_st := snd (cw_add_hint dev (cells s) hmem t (hint_st s))\<rparr> else s)"

definition hint_changed :: "int \<Rightarrow> addr \<Rightarrow> addr \<Rightarrow> ('d, 'c, 'x) ext_state \<Rightarrow> ('d, 'c, 'x) ext_state" where
  "hint_changed prio e t s =
     (if prio = PRIORITY_HINT then s\<lparr>hint_st := snd (cw_change_hint e t (hint_st s))\<rparr> else s)"

text \<open>\<open>datad(data); free(e)\<close>\<close>

definition destroy_cell :: "addr \<Rightarrow> ('d, 'c, 'x) ext_state \<Rightarrow> ('d, 'c, 'x) ext_state" where
  "destroy_cell e s =
     (case cells s e of
        Some x \<Rightarrow> s\<lparr>cells := (cells s)(e := None), destroyed := destroyed s @ [app_data x]\<rparr>
      | None \<Rightarrow> s)"

definition get_next :: "addr \<Rightarrow> ('d, 'c, 'x) ext_state \<Rightarrow> addr" where
  "get_next e s = (case cells s e of Some x \<Rightarrow> enext x | None \<Rightarrow> null)"

definition get_peer :: "addr \<Rightarrow> ('d, 'c, 'x) ext_state \<Rightarrow> addr" where
  "get_peer e s = (case cells s e of Some x \<Rightarrow> peer x | None \<Rightarrow> null)"

definition put_next :: "addr \<Rightarrow> addr \<Rightarrow> ('d, 'c, 'x) ext_state \<Rightarrow> ('d, 'c, 'x) ext_state" where
  "put_next e q s = s\<lparr>cells := set_next e q (cells s)\<rparr>"

definition put_peer :: "addr \<Rightarrow> addr \<Rightarrow> ('d, 'c, 'x) ext_state \<Rightarrow> ('d, 'c, 'x) ext_state" where
  "put_peer e q s = s\<lparr>cells := set_peer e q (cells s)\<rparr>"

text \<open>A priority that is already there is replaced (the three ways of unlinking the old cell)
  or refused.\<close>

definition replace_peer :: "int \<Rightarrow> addr \<Rightarrow> addr \<Rightarrow> addr \<Rightarrow> addr \<Rightarrow> ('d, 'c, 'x) ext_state \<Rightarrow> ('d, 'c, 'x) ext_state" where
  "replace_peer prio el ep e t s =
     (let s = (if ep \<noteq> null then put_peer t (get_peer e s) (put_peer ep t s)
               else put_peer t (get_peer e s) (put_next t (get_next e s) (link_next el t s)));
          s = hint_changed prio e t s;
          s = destroy_cell e s in
      hint_changed prio e t s)"

text \<open>The new cell goes before a higher priority.  At the head of the first row the old head
  keeps its \<open>next\<close> pointer; in other rows it is cleared.\<close>

definition insert_peer :: "addr \<Rightarrow> addr \<Rightarrow> addr \<Rightarrow> addr \<Rightarrow> ('d, 'c, 'x) ext_state \<Rightarrow> ('d, 'c, 'x) ext_state" where
  "insert_peer el ep e t s =
     (if ep \<noteq> null then put_peer t e (put_peer ep t s)
      else if el \<noteq> null
      then put_peer t e (put_next e null (put_next t (get_next e s) (put_next el t s)))
      else (put_peer t (root s) (put_next t (get_next (root s) s) s))\<lparr>root := t\<rparr>)"

text \<open>The row exists: search it for the priority and act on what is found.\<close>

definition add_in_row :: "nat \<Rightarrow> (string \<Rightarrow> int) \<Rightarrow> bool \<Rightarrow> bool \<Rightarrow> int \<Rightarrow> addr \<Rightarrow> addr \<Rightarrow> addr \<Rightarrow>
    ('d, 'c, 'x) ext_state \<Rightarrow> (errno option \<times> ('d, 'c, 'x) ext_state) option" where
  "add_in_row n dev hmem replace prio el e t s1 =
     (case find_peer n (cells s1) prio null e of
        None \<Rightarrow> None
      | Some (Equal ep e) \<Rightarrow>
          if replace then Some (None, replace_peer prio el ep e t s1) else Some (Some EEXIST, destroy_cell t s1)
      | Some (Greater ep e) \<Rightarrow> Some (None, hint_added dev hmem prio t (insert_peer el ep e t s1))
      | Some (Last ep) \<Rightarrow> Some (None, hint_added dev hmem prio t (put_peer ep t s1)))"

definition cw_add_extension2 ::
    "nat \<Rightarrow> (string \<Rightarrow> int) \<Rightarrow> bool \<Rightarrow> addr option \<Rightarrow> bool \<Rightarrow> string \<Rightarrow> bool \<Rightarrow> string \<Rightarrow> int \<Rightarrow>
     string option \<Rightarrow> string option \<Rightarrow> string \<Rightarrow> 'd \<Rightarrow> string \<Rightarrow> ('d, 'c, 'x) ext_state \<Rightarrow>
     (errno option \<times> ('d, 'c, 'x) ext_state) option" where
  "cw_add_extension2 n dev lock_ok mem hmem con replace extension prio lab callerid application d reg s =
     (case mem of
        None \<Rightarrow> Some (Some ENOMEM, s)
      | Some t \<Rightarrow>
          (let tmp = new_exten con extension prio lab callerid application d reg in
           if \<not> lock_ok then Some (Some EBUSY, s\<lparr>destroyed := destroyed s @ [d]\<rparr>)
           else
             (let s1 = s\<lparr>cells := (cells s)(t \<mapsto> tmp)\<rparr> in
              case find_row n (cells s1) extension tmp null (root s1) of
                None \<Rightarrow> None
              | Some (At_end el) \<Rightarrow> Some (None, hint_added dev hmem prio t (link_next el t s1))
              | Some (Before el e) \<Rightarrow>
                  Some (None, hint_added dev hmem prio t (link_next el t (put_next t e s1)))
              | Some (Same_row el e) \<Rightarrow> add_in_row n dev hmem replace prio el e t s1)))"

subsection \<open>Removal\<close>

definition reg_ok :: "string option \<Rightarrow> 'd cw_exten \<Rightarrow> bool" where
  "reg_ok reg x \<longleftrightarrow> (case reg of None \<Rightarrow> True | Some r \<Rightarrow> strcmp (registrar x) r = 0)"

text \<open>The first row with the name; the result is its predecessor and its head.\<close>

fun find_name :: "nat \<Rightarrow> 'd heap \<Rightarrow> string \<Rightarrow> string option \<Rightarrow> addr \<Rightarrow> addr \<Rightarrow> (addr \<times> addr) option option" where
  "find_name 0 h nm reg prev e = None"
| "find_name (Suc n) h nm reg prev e =
     (if e = null then Some None
      else case h e of
        None \<Rightarrow> None
      | Some x \<Rightarrow>
          if strcmp (exten x) nm = 0 \<and> reg_ok reg x then Some (Some (prev, e))
          else find_name n h nm reg e (enext x))"

fun find_prio :: "nat \<Rightarrow> 'd heap \<Rightarrow> int \<Rightarrow> string option \<Rightarrow> addr \<Rightarrow> addr \<Rightarrow> (addr \<times> addr) option option" where
  "find_prio 0 h prio reg prev p = None"
| "find_prio (Suc n) h prio reg prev p =
     (if p = null then Some None
      else case h p of
        None \<Rightarrow> None
      | Some x \<Rightarrow>
          if priority x = prio \<and> reg_ok reg x then Some (Some (prev, p))
          else find_prio n h prio reg p (peer x))"

text \<open>The loop that frees a whole row.  Its test \<open>!peer->priority == PRIORITY_HINT\<close> compares
  the negated priority, 0 or 1, with \<open>-1\<close>.\<close>

fun free_peers :: "nat \<Rightarrow> addr \<Rightarrow> ('d, 'c, 'x) ext_state \<Rightarrow> ('d, 'c, 'x) ext_state option" where
  "free_peers 0 p s = None"
| "free_peers (Suc n) p s =
     (if p = null then Some s
      else case cells s p of
        None \<Rightarrow> None
      | Some x \<Rightarrow>
          (let s = (if (if priority x = 0 then 1 else 0) = PRIORITY_HINT
                    then s\<lparr>hint_st := snd (cw_remove_hint (cells s) p (hint_st s))\<rparr> else s) in
           free_peers n (peer x) (destroy_cell p s)))"

definition remove_peer :: "addr \<Rightarrow> addr \<Rightarrow> addr \<Rightarrow> addr \<Rightarrow> ('d, 'c, 'x) ext_state \<Rightarrow> ('d, 'c, 'x) ext_state" where
  "remove_peer prev_exten ex previous_peer p s =
     (if previous_peer = null
      then if prev_exten \<noteq> null
           then if get_peer p s \<noteq> null
                then put_next (get_peer p s) (get_next ex s) (put_next prev_exten (get_peer p s) s)
                else put_next prev_exten (get_next ex s) s
           else if get_peer p s \<noteq> null then s\<lparr>root := get_peer p s\<rparr>
                else s\<lparr>root := get_next ex s\<rparr>
      else put_peer previous_peer (get_peer p s) s)"

definition cw_context_remove_extension2 ::
    "nat \<Rightarrow> bool \<Rightarrow> string \<Rightarrow> int \<Rightarrow> string option \<Rightarrow> ('d, 'c, 'x) ext_state \<Rightarrow>
     (bool \<times> ('d, 'c, 'x) ext_state) option" where
  "cw_context_remove_extension2 n lock_ok extension prio reg s =
     (if \<not> lock_ok then Some (False, s)
      else case find_name n (cells s) extension reg null (root s) of
        None \<Rightarrow> None
      | Some None \<Rightarrow> Some (False, s)
      | Some (Some (prev, e)) \<Rightarrow>
          if prio = 0
          then map_option (Pair True) (free_peers n e (link_next prev (get_next e s) s))
          else case find_prio n (cells s) prio reg null e of
                 None \<Rightarrow> None
               | Some None \<Rightarrow> Some (False, s)
               | Some (Some (prevp, p)) \<Rightarrow>
                   (let s = remove_peer prev e prevp p s;
                        s = (if (case cells s p of Some x \<Rightarrow> priority x = PRIORITY_HINT | None \<Rightarrow> False)
                             then s\<lparr>hint_st := snd (cw_remove_hint (cells s) p (hint_st s))\<rparr> else s) in
                    Some (True, destroy_cell p s)))"

section \<open>Row keys\<close>

text \<open>The order of the rows: names before patterns, then by name, then entries with a caller id
  before those without, then by caller id ignoring case.\<close>

definition row_key :: "'d cw_exten \<Rightarrow> bool \<times> nat list \<times> bool \<times> nat list" where
  "row_key x =
     (at0 (exten x) = CHR ''_'', map ucval (exten x), \<not> match_cid x,
      if match_cid x then map (\<lambda>c. ucval (tolower c)) (cidmatch x) else [])"

lemma strcasecmp_bytes:
  "strcasecmp s t < 0 \<longleftrightarrow> map (\<lambda>c. ucval (tolower c)) s < map (\<lambda>c. ucval (tolower c)) t"
  "strcasecmp s t = 0 \<longleftrightarrow> map (\<lambda>c. ucval (tolower c)) s = map (\<lambda>c. ucval (tolower c)) t"
proof -
  have "map (\<lambda>c. ucval (tolower c)) u = map ucval (map tolower u)" for u by simp
  then show "strcasecmp s t < 0 \<longleftrightarrow> map (\<lambda>c. ucval (tolower c)) s < map (\<lambda>c. ucval (tolower c)) t"
    "strcasecmp s t = 0 \<longleftrightarrow> map (\<lambda>c. ucval (tolower c)) s = map (\<lambda>c. ucval (tolower c)) t"
    unfolding strcasecmp_def by (simp_all only: strcmp_less strcmp_eq0 map_ucval_eq)
qed

lemma exten_cmp_key:
  assumes "exten tmp = extension"
  shows "exten_cmp x extension tmp < 0 \<longleftrightarrow> row_key x < row_key tmp"
    "exten_cmp x extension tmp = 0 \<longleftrightarrow> row_key x = row_key tmp"
proof -
  define p q where "p = (at0 (exten x) = CHR ''_'')" and "q = (at0 extension = CHR ''_'')"
  have neq: "exten x \<noteq> extension" if "p \<noteq> q" using that by (auto simp: p_def q_def)
  have le: "map ucval (exten x) \<le> map ucval extension \<longleftrightarrow> map ucval (exten x) < map ucval extension"
    if "exten x \<noteq> extension" using that by (simp add: le_less)
  show "exten_cmp x extension tmp < 0 \<longleftrightarrow> row_key x < row_key tmp"
    unfolding exten_cmp_def row_key_def assms p_def [symmetric] q_def [symmetric] Let_def
    using neq le strcmp_less [of "exten x" extension]
    by (cases p; cases q; cases "exten x = extension"; cases "match_cid x"; cases "match_cid tmp")
      (auto simp: strcasecmp_bytes less_bool_def)
  show "exten_cmp x extension tmp = 0 \<longleftrightarrow> row_key x = row_key tmp"
    unfolding exten_cmp_def row_key_def assms p_def [symmetric] q_def [symmetric] Let_def
    using neq
    by (cases p; cases q; cases "exten x = extension"; cases "match_cid x"; cases "match_cid tmp")
      (simp_all add: strcasecmp_bytes)
qed

section \<open>A context as a list of rows\<close>

definition rep :: "'d heap \<Rightarrow> addr \<Rightarrow> addr list list \<Rightarrow> bool" where
  "rep h r ass \<longleftrightarrow>
     seg enext h r (map head ass) null \<and> (\<forall>as\<in>set ass. as \<noteq> [] \<and> seg peer h (head as) as null) \<and>
     distinct (concat ass)"

definition cell :: "'d heap \<Rightarrow> addr \<Rightarrow> 'd cw_exten" where
  "cell h a = the (h a)"

definition content :: "'d cw_exten \<Rightarrow> 'd cw_exten" where
  "content x = x\<lparr>peer := null, enext := null\<rparr>"

definition rows :: "'d heap \<Rightarrow> addr list list \<Rightarrow> 'd cw_exten list list" where
  "rows h ass = map (map (\<lambda>a. content (cell h a))) ass"

definition last_head :: "addr \<Rightarrow> addr list list \<Rightarrow> addr" where
  "last_head el pre = (if pre = [] then el else head (last pre))"

lemma last_head_simps [simp]: "last_head el [] = el" "last_head el (as # ass) = last_head (head as) ass"
  by (simp_all add: last_head_def)

definition row_place :: "'d heap \<Rightarrow> 'd cw_exten \<Rightarrow> addr \<Rightarrow> addr list list \<Rightarrow> place" where
  "row_place h tmp el ass =
     (let P = (\<lambda>as. row_key (cell h (head as)) < row_key tmp);
          el' = last_head el (takeWhile P ass) in
      case dropWhile P ass of
        [] \<Rightarrow> At_end el'
      | as # _ \<Rightarrow> if row_key (cell h (head as)) = row_key tmp then Same_row el' (head as) else Before el' (head as))"

lemma find_row_place:
  assumes "seg enext h e (map head ass) null" "length ass < n" "exten tmp = extension"
  shows "find_row n h extension tmp el e = Some (row_place h tmp el ass)"
  using assms(1,2)
proof (induction ass arbitrary: n el e)
  case Nil
  then show ?case by (cases n) (auto simp: row_place_def)
next
  case (Cons as ass)
  then obtain m where n: "n = Suc m" "length ass < m" by (cases n) auto
  from Cons.prems(1) obtain x where x: "e = head as" "e \<noteq> null" "h e = Some x" "seg enext h (enext x) (map head ass) null"
    by (auto split: option.splits)
  note IH = Cons.IH [OF x(4) n(2), of e]
  note key = exten_cmp_key [OF assms(3), of x]
  have cx: "cell h (head as) = x" using x by (simp add: cell_def)
  consider (lt) "row_key x < row_key tmp" | (eq) "row_key x = row_key tmp" | (gt) "row_key tmp < row_key x"
    by (metis linorder_cases)
  then show ?case
  proof cases
    case lt
    then have "exten_cmp x extension tmp < 0" using key by simp
    moreover have "row_place h tmp el (as # ass) = row_place h tmp e ass"
      using lt by (simp add: row_place_def cx x(1) Let_def cong: list.case_cong if_cong)
    ultimately show ?thesis using IH by (simp add: n x(2,3))
  next
    case eq
    moreover have "cell h e = x" using x(3) by (simp add: cell_def)
    ultimately show ?thesis
      using key(2) by (simp add: n x(2,3) row_place_def x(1) [symmetric] Let_def)
  next
    case gt
    then have "exten_cmp x extension tmp \<noteq> 0" "\<not> exten_cmp x extension tmp < 0" using key by auto
    moreover have "cell h e = x" using x(3) by (simp add: cell_def)
    ultimately show ?thesis
      using gt by (auto simp: n x(2,3) row_place_def x(1) [symmetric] Let_def)
  qed
qed

definition last0 :: "addr \<Rightarrow> addr list \<Rightarrow> addr" where
  "last0 ep as = (if as = [] then ep else last as)"

lemma last0_simps [simp]: "last0 ep [] = ep" "last0 ep (a # as) = last0 a as"
  by (simp_all add: last0_def)

definition peer_at :: "'d heap \<Rightarrow> int \<Rightarrow> addr \<Rightarrow> addr list \<Rightarrow> peer_place" where
  "peer_at h prio ep as =
     (let P = (\<lambda>a. priority (cell h a) < prio);
          ep' = last0 ep (takeWhile P as) in
      case dropWhile P as of
        [] \<Rightarrow> Last ep'
      | a # _ \<Rightarrow> if priority (cell h a) = prio then Equal ep' a else Greater ep' a)"

lemma find_peer_at:
  assumes "seg peer h e as null" "length as < n"
  shows "find_peer n h prio ep e = Some (peer_at h prio ep as)"
  using assms
proof (induction as arbitrary: n ep e)
  case Nil
  then show ?case by (cases n) (auto simp: peer_at_def)
next
  case (Cons a as)
  then obtain m where n: "n = Suc m" "length as < m" by (cases n) auto
  from Cons.prems(1) obtain x where x: "e = a" "a \<noteq> null" "h a = Some x" "seg peer h (peer x) as null"
    by (auto split: option.splits)
  have "peer_at h prio ep (a # as) = peer_at h prio a as" if "priority x < prio"
    using that by (simp add: peer_at_def cell_def x Let_def cong: list.case_cong if_cong)
  then show ?case
    using Cons.IH [OF x(4) n(2), of a]
    by (auto simp: n x(1-3)) (auto simp: peer_at_def cell_def x(3))
qed

end
