(* ===== verification/Pbx_Contexts.thy ===== *)
theory Pbx_Contexts
  imports Pbx_Extens Pbx_Timing Pbx_Pattern
begin

text \<open>
  The contexts of the dialplan, \<open>corelib/pbx.c\<close>: creating and finding contexts, and their
  includes, switches and ignore patterns.

  The linked lists of contexts, includes, switches and ignore patterns are lists; nothing else
  points into them.  The extensions of a context stay in the heap of \<open>Pbx_Heap\<close>, and
  \<open>ext_view\<close> is the part of the state that the routines of \<open>Pbx_Extens\<close> work on.  Whether
  \<open>malloc\<close> and the locks succeed is an argument.  \<open>conlock\<close> counts how often the recursive
  lock of the context list is held.
\<close>

section \<open>State\<close>

record cw_include =
  inc_name :: string
  rname :: string
  inc_registrar :: string
  inc_hastime :: bool
  timing :: cw_timing

record cw_sw =
  sw_name :: string
  sw_registrar :: string
  sw_data :: string
  sw_eval :: bool

text \<open>The registrar of an ignore pattern is compared as a pointer: an address with the text
  it points to.\<close>

record cw_ignorepat =
  ip_registrar :: "addr \<times> string"
  ip_pattern :: string

record cw_context =
  con_name :: string
  con_hash :: u32
  con_root :: addr
  con_includes :: "cw_include list"
  ignorepats :: "cw_ignorepat list"
  con_registrar :: string
  alts :: "cw_sw list"

record ('d, 'c, 'x) pbx =
  pbx_cells :: "'d heap"
  pbx_hints :: "('c, 'x) hint_state"
  pbx_destroyed :: "'d list"
  contexts :: "cw_context list"
  conlock :: int

definition cw_lock_contexts :: "('d, 'c, 'x) pbx \<Rightarrow> ('d, 'c, 'x) pbx" where
  "cw_lock_contexts s = s\<lparr>conlock := conlock s + 1\<rparr>"

definition cw_unlock_contexts :: "('d, 'c, 'x) pbx \<Rightarrow> ('d, 'c, 'x) pbx" where
  "cw_unlock_contexts s = s\<lparr>conlock := conlock s - 1\<rparr>"

definition ext_view :: "('d, 'c, 'x) pbx \<Rightarrow> cw_context \<Rightarrow> ('d, 'c, 'x) ext_state" where
  "ext_view s con =
     \<lparr>cells = pbx_cells s, root = con_root con, hint_st = pbx_hints s, destroyed = pbx_destroyed s\<rparr>"

section \<open>Contexts\<close>

definition new_context :: "string \<Rightarrow> string \<Rightarrow> cw_context" where
  "new_context name reg =
     \<lparr>con_name = name, con_hash = cw_hash_string name, con_root = null, con_includes = [], ignorepats = [],
      con_registrar = reg, alts = []\<rparr>"

text \<open>\<open>extc\<close> is the list passed by the caller, \<open>None\<close> for the global one.  On the path where
  the name is taken the lock is released once more than it was taken.\<close>

definition cw_context_create ::
    "bool \<Rightarrow> cw_context list option \<Rightarrow> string \<Rightarrow> string \<Rightarrow> ('d, 'c, 'x) pbx \<Rightarrow>
     cw_context option \<times> cw_context list option \<times> ('d, 'c, 'x) pbx" where
  "cw_context_create mem extc name reg s =
     (let hash = cw_hash_string name;
          s1 = (if extc = None then cw_lock_contexts s else s);
          local_contexts = (case extc of None \<Rightarrow> contexts s1 | Some l \<Rightarrow> l);
          leave = (\<lambda>t. if extc = None then cw_unlock_contexts t else t) in
      if \<exists>c\<in>set local_contexts. con_hash c = hash
      then (None, extc, leave (cw_unlock_contexts s1))
      else if mem
      then (let tmp = new_context name reg in
            case extc of
              None \<Rightarrow> (Some tmp, None, leave (s1\<lparr>contexts := tmp # contexts s1\<rparr>))
            | Some l \<Rightarrow> (Some tmp, Some (tmp # l), s1))
      else (None, extc, leave s1))"

definition cw_context_find :: "string option \<Rightarrow> ('d, 'c, 'x) pbx \<Rightarrow> cw_context option" where
  "cw_context_find name s =
     (case name of
        Some n \<Rightarrow> find (\<lambda>c. con_hash c = cw_hash_string n) (contexts s)
      | None \<Rightarrow> (case contexts s of [] \<Rightarrow> None | c # _ \<Rightarrow> Some c))"

text \<open>The walk over the contexts to the first one with the hash of the name, on which the
  operation is done.\<close>

fun on_context :: "u32 \<Rightarrow> (cw_context \<Rightarrow> 'r \<times> cw_context) \<Rightarrow> cw_context list \<Rightarrow> ('r \<times> cw_context list) option" where
  "on_context hash f [] = None"
| "on_context hash f (c # cs) =
     (if hash = con_hash c then Some (let (r, c') = f c in (r, c' # cs))
      else map_option (\<lambda>(r, cs'). (r, c # cs')) (on_context hash f cs))"

section \<open>Includes\<close>

definition zero_timing :: cw_timing where
  "zero_timing = \<lparr>hastime = False, monthmask = 0, daymask = 0, dowmask = 0, minmask = replicate 24 0\<rparr>"

definition new_include :: "string \<Rightarrow> string \<Rightarrow> cw_include" where
  "new_include value reg =
     (let (r, has, tim) = (case split_at (CHR '','') value of
                             None \<Rightarrow> (value, False, zero_timing)
                           | Some (a, b) \<Rightarrow> (a, cw_build_timing zero_timing b)) in
      \<lparr>inc_name = value, rname = r, inc_registrar = reg, inc_hastime = has, timing = tim\<rparr>)"

definition cw_context_add_include2 ::
    "bool \<Rightarrow> bool \<Rightarrow> string \<Rightarrow> string \<Rightarrow> cw_context \<Rightarrow> errno option \<times> cw_context" where
  "cw_context_add_include2 mem lock_ok value reg con =
     (if \<not> mem then (Some ENOMEM, con)
      else if \<not> lock_ok then (Some EBUSY, con)
      else
        (let new = new_include value reg in
         if \<exists>i\<in>set (con_includes con). strcasecmp (inc_name i) (inc_name new) = 0 then (Some EEXIST, con)
         else (None, con\<lparr>con_includes := con_includes con @ [new]\<rparr>)))"

definition cw_context_add_include ::
    "bool \<Rightarrow> bool \<Rightarrow> bool \<Rightarrow> string \<Rightarrow> string \<Rightarrow> string \<Rightarrow> ('d, 'c, 'x) pbx \<Rightarrow> errno option \<times> ('d, 'c, 'x) pbx" where
  "cw_context_add_include conlock_ok mem lock_ok context value reg s =
     (if \<not> conlock_ok then (Some EBUSY, s)
      else
        (let s = cw_lock_contexts s in
         case on_context (cw_hash_string context) (cw_context_add_include2 mem lock_ok value reg) (contexts s) of
           None \<Rightarrow> (Some ENOENT, cw_unlock_contexts s)
         | Some (ret, cs) \<Rightarrow> (ret, cw_unlock_contexts (s\<lparr>contexts := cs\<rparr>))))"

definition reg_match :: "string option \<Rightarrow> string \<Rightarrow> bool" where
  "reg_match reg r \<longleftrightarrow> (case reg of None \<Rightarrow> True | Some t \<Rightarrow> strcmp r t = 0)"

definition include_is :: "string \<Rightarrow> string option \<Rightarrow> cw_include \<Rightarrow> bool" where
  "include_is value reg i \<longleftrightarrow> strcmp (inc_name i) value = 0 \<and> reg_match reg (inc_registrar i)"

definition cw_context_remove_include2 ::
    "bool \<Rightarrow> string \<Rightarrow> string option \<Rightarrow> cw_context \<Rightarrow> bool \<times> cw_context" where
  "cw_context_remove_include2 lock_ok value reg con =
     (if \<not> lock_ok then (False, con)
      else if \<exists>i\<in>set (con_includes con). include_is value reg i
      then (True, con\<lparr>con_includes := remove_first (include_is value reg) (con_includes con)\<rparr>)
      else (False, con))"

definition cw_context_remove_include ::
    "bool \<Rightarrow> bool \<Rightarrow> string \<Rightarrow> string \<Rightarrow> string option \<Rightarrow> ('d, 'c, 'x) pbx \<Rightarrow> bool \<times> ('d, 'c, 'x) pbx" where
  "cw_context_remove_include conlock_ok lock_ok context value reg s =
     (if \<not> conlock_ok then (False, s)
      else
        (let s = cw_lock_contexts s in
         case on_context (cw_hash_string context) (cw_context_remove_include2 lock_ok value reg) (contexts s) of
           None \<Rightarrow> (False, cw_unlock_contexts s)
         | Some (ret, cs) \<Rightarrow> (ret, cw_unlock_contexts (s\<lparr>contexts := cs\<rparr>))))"

definition include_valid :: "tm \<Rightarrow> cw_include \<Rightarrow> bool" where
  "include_valid t i \<longleftrightarrow> (if \<not> inc_hastime i then True else cw_check_timing (timing i) t)"

definition cw_context_verify_includes :: "cw_context \<Rightarrow> ('d, 'c, 'x) pbx \<Rightarrow> bool" where
  "cw_context_verify_includes con s \<longleftrightarrow>
     (\<forall>i\<in>set (con_includes con). cw_context_find (Some (rname i)) s \<noteq> None)"

section \<open>Switches\<close>

definition new_switch :: "string \<Rightarrow> string option \<Rightarrow> bool \<Rightarrow> string \<Rightarrow> cw_sw" where
  "new_switch value data ev reg =
     \<lparr>sw_name = value, sw_registrar = reg, sw_data = (case data of Some d \<Rightarrow> d | None \<Rightarrow> []), sw_eval = ev\<rparr>"

definition cw_context_add_switch2 ::
    "bool \<Rightarrow> bool \<Rightarrow> string \<Rightarrow> string option \<Rightarrow> bool \<Rightarrow> string \<Rightarrow> cw_context \<Rightarrow> errno option \<times> cw_context" where
  "cw_context_add_switch2 mem lock_ok value data ev reg con =
     (if \<not> mem then (Some ENOMEM, con)
      else if \<not> lock_ok then (Some EBUSY, con)
      else
        (let new = new_switch value data ev reg in
         if \<exists>i\<in>set (alts con). strcasecmp (sw_name i) (sw_name new) = 0 \<and> strcasecmp (sw_data i) (sw_data new) = 0
         then (Some EEXIST, con)
         else (None, con\<lparr>alts := alts con @ [new]\<rparr>)))"

definition cw_context_add_switch ::
    "bool \<Rightarrow> bool \<Rightarrow> bool \<Rightarrow> string \<Rightarrow> string \<Rightarrow> string option \<Rightarrow> bool \<Rightarrow> string \<Rightarrow> ('d, 'c, 'x) pbx \<Rightarrow>
     errno option \<times> ('d, 'c, 'x) pbx" where
  "cw_context_add_switch conlock_ok mem lock_ok context value data ev reg s =
     (if \<not> conlock_ok then (Some EBUSY, s)
      else
        (let s = cw_lock_contexts s in
         case on_context (cw_hash_string context) (cw_context_add_switch2 mem lock_ok value data ev reg) (contexts s) of
           None \<Rightarrow> (Some ENOENT, cw_unlock_contexts s)
         | Some (ret, cs) \<Rightarrow> (ret, cw_unlock_contexts (s\<lparr>contexts := cs\<rparr>))))"

definition switch_is :: "string \<Rightarrow> string \<Rightarrow> string option \<Rightarrow> cw_sw \<Rightarrow> bool" where
  "switch_is sw data reg i \<longleftrightarrow>
     strcmp (sw_name i) sw = 0 \<and> strcmp (sw_data i) data = 0 \<and> reg_match reg (sw_registrar i)"

definition cw_context_remove_switch2 ::
    "bool \<Rightarrow> string \<Rightarrow> string \<Rightarrow> string option \<Rightarrow> cw_context \<Rightarrow> bool \<times> cw_context" where
  "cw_context_remove_switch2 lock_ok sw data reg con =
     (if \<not> lock_ok then (False, con)
      else if \<exists>i\<in>set (alts con). switch_is sw data reg i
      then (True, con\<lparr>alts := remove_first (switch_is sw data reg) (alts con)\<rparr>)
      else (False, con))"

definition cw_context_remove_switch ::
    "bool \<Rightarrow> bool \<Rightarrow> string \<Rightarrow> string \<Rightarrow> string \<Rightarrow> string option \<Rightarrow> ('d, 'c, 'x) pbx \<Rightarrow> bool \<times> ('d, 'c, 'x) pbx" where
  "cw_context_remove_switch conlock_ok lock_ok context sw data reg s =
     (if \<not> conlock_ok then (False, s)
      else
        (let s = cw_lock_contexts s in
         case on_context (cw_hash_string context) (cw_context_remove_switch2 lock_ok sw data reg) (contexts s) of
           None \<Rightarrow> (False, cw_unlock_contexts s)
         | Some (ret, cs) \<Rightarrow> (ret, cw_unlock_contexts (s\<lparr>contexts := cs\<rparr>))))"

section \<open>Ignore patterns\<close>

text \<open>The result of locking the context is not looked at here.\<close>

definition cw_context_add_ignorepat2 ::
    "bool \<Rightarrow> string \<Rightarrow> addr \<times> string \<Rightarrow> cw_context \<Rightarrow> errno option \<times> cw_context" where
  "cw_context_add_ignorepat2 mem value reg con =
     (if \<not> mem then (Some ENOMEM, con)
      else if \<exists>i\<in>set (ignorepats con). strcasecmp (ip_pattern i) value = 0 then (Some EEXIST, con)
      else (None, con\<lparr>ignorepats := ignorepats con @ [\<lparr>ip_registrar = reg, ip_pattern = value\<rparr>]\<rparr>))"

definition cw_context_add_ignorepat ::
    "bool \<Rightarrow> bool \<Rightarrow> string \<Rightarrow> string \<Rightarrow> addr \<times> string \<Rightarrow> ('d, 'c, 'x) pbx \<Rightarrow> errno option \<times> ('d, 'c, 'x) pbx" where
  "cw_context_add_ignorepat conlock_ok mem context value reg s =
     (if \<not> conlock_ok then (Some EBUSY, s)
      else
        (let s = cw_lock_contexts s in
         case on_context (cw_hash_string context) (cw_context_add_ignorepat2 mem value reg) (contexts s) of
           None \<Rightarrow> (Some ENOENT, cw_unlock_contexts s)
         | Some (ret, cs) \<Rightarrow> (ret, cw_unlock_contexts (s\<lparr>contexts := cs\<rparr>))))"

definition ignorepat_is :: "string \<Rightarrow> (addr \<times> string) option \<Rightarrow> cw_ignorepat \<Rightarrow> bool" where
  "ignorepat_is value reg i \<longleftrightarrow>
     strcmp (ip_pattern i) value = 0 \<and> (case reg of None \<Rightarrow> True | Some r \<Rightarrow> fst r = fst (ip_registrar i))"

definition cw_context_remove_ignorepat2 ::
    "bool \<Rightarrow> string \<Rightarrow> (addr \<times> string) option \<Rightarrow> cw_context \<Rightarrow> errno option \<times> cw_context" where
  "cw_context_remove_ignorepat2 lock_ok value reg con =
     (if \<not> lock_ok then (Some EBUSY, con)
      else if \<exists>i\<in>set (ignorepats con). ignorepat_is value reg i
      then (None, con\<lparr>ignorepats := remove_first (ignorepat_is value reg) (ignorepats con)\<rparr>)
      else (Some EINVAL, con))"

definition cw_context_remove_ignorepat ::
    "bool \<Rightarrow> bool \<Rightarrow> string \<Rightarrow> string \<Rightarrow> (addr \<times> string) option \<Rightarrow> ('d, 'c, 'x) pbx \<Rightarrow>
     errno option \<times> ('d, 'c, 'x) pbx" where
  "cw_context_remove_ignorepat conlock_ok lock_ok context value reg s =
     (if \<not> conlock_ok then (Some EBUSY, s)
      else
        (let s = cw_lock_contexts s in
         case on_context (cw_hash_string context) (cw_context_remove_ignorepat2 lock_ok value reg) (contexts s) of
           None \<Rightarrow> (Some ENOENT, cw_unlock_contexts s)
         | Some (ret, cs) \<Rightarrow> (ret, cw_unlock_contexts (s\<lparr>contexts := cs\<rparr>))))"

definition cw_ignore_pattern :: "string \<Rightarrow> string \<Rightarrow> ('d, 'c, 'x) pbx \<Rightarrow> bool" where
  "cw_ignore_pattern context digits s =
     (case cw_context_find (Some context) s of
        None \<Rightarrow> False
      | Some con \<Rightarrow>
          \<exists>p\<in>set (ignorepats con). cw_extension_pattern_match digits (ip_pattern p) \<in>
             {EXTENSION_MATCH_EXACT, EXTENSION_MATCH_STRETCHABLE, EXTENSION_MATCH_POSSIBLE})"

section \<open>Extensions by the name of the context\<close>

fun con_index :: "u32 \<Rightarrow> cw_context list \<Rightarrow> nat option" where
  "con_index hash [] = None"
| "con_index hash (c # cs) = (if hash = con_hash c then Some 0 else map_option Suc (con_index hash cs))"

text \<open>Writing the result of a routine of \<open>Pbx_Extens\<close> back.\<close>

definition ext_write :: "nat \<Rightarrow> ('d, 'c, 'x) ext_state \<Rightarrow> ('d, 'c, 'x) pbx \<Rightarrow> ('d, 'c, 'x) pbx" where
  "ext_write i e s =
     s\<lparr>pbx_cells := cells e, pbx_hints := hint_st e, pbx_destroyed := destroyed e,
       contexts := (contexts s)[i := (contexts s ! i)\<lparr>con_root := root e\<rparr>]\<rparr>"

definition cw_add_extension ::
    "nat \<Rightarrow> (string \<Rightarrow> int) \<Rightarrow> bool \<Rightarrow> bool \<Rightarrow> addr option \<Rightarrow> bool \<Rightarrow> string \<Rightarrow> bool \<Rightarrow> string \<Rightarrow> int \<Rightarrow>
     string option \<Rightarrow> string option \<Rightarrow> string \<Rightarrow> 'd \<Rightarrow> string \<Rightarrow> ('d, 'c, 'x) pbx \<Rightarrow>
     (errno option \<times> ('d, 'c, 'x) pbx) option" where
  "cw_add_extension n dev conlock_ok lock_ok mem hmem context replace extension prio lab callerid application d reg s =
     (if \<not> conlock_ok then Some (Some EBUSY, s)
      else
        (let s = cw_lock_contexts s in
         case con_index (cw_hash_string context) (contexts s) of
           None \<Rightarrow> Some (Some ENOENT, cw_unlock_contexts s)
         | Some i \<Rightarrow>
             (let con = contexts s ! i in
              map_option (\<lambda>(ret, e). (ret, cw_unlock_contexts (ext_write i e s)))
                (cw_add_extension2 n dev lock_ok mem hmem (con_name con) replace extension prio lab callerid
                   application d reg (ext_view s con)))))"

definition cw_context_remove_extension ::
    "nat \<Rightarrow> bool \<Rightarrow> bool \<Rightarrow> string \<Rightarrow> string \<Rightarrow> int \<Rightarrow> string option \<Rightarrow> ('d, 'c, 'x) pbx \<Rightarrow>
     (bool \<times> ('d, 'c, 'x) pbx) option" where
  "cw_context_remove_extension n conlock_ok lock_ok context extension prio reg s =
     (if \<not> conlock_ok then Some (False, s)
      else
        (let s = cw_lock_contexts s in
         case con_index (cw_hash_string context) (contexts s) of
           None \<Rightarrow> Some (False, cw_unlock_contexts s)
         | Some i \<Rightarrow>
             map_option (\<lambda>(ret, e). (ret, cw_unlock_contexts (ext_write i e s)))
               (cw_context_remove_extension2 n lock_ok extension prio reg (ext_view s (contexts s ! i)))))"

section \<open>Lists without clashing entries\<close>

text \<open>The contract that includes, switches and ignore patterns share: two entries clash when the
  adding routine refuses one because of the other, and the entries one removal request fits
  clash with each other.\<close>

locale entry_list =
  fixes clash :: "'a \<Rightarrow> 'a \<Rightarrow> bool" and fits :: "'k \<Rightarrow> 'a \<Rightarrow> bool"
  assumes fits_clash: "fits k x \<Longrightarrow> fits k y \<Longrightarrow> clash x y"
begin

lemma remove_added:
  "\<not> (\<exists>y\<in>set xs. clash y x) \<Longrightarrow> fits k x \<Longrightarrow> remove_first (fits k) (xs @ [x]) = xs"
  using fits_clash by (subst remove_first_append) auto

lemma fits_added: "fits k x \<Longrightarrow> \<exists>y\<in>set (xs @ [x]). fits k y"
  by auto

lemma add_free:
  "sorted_wrt (\<lambda>x y. \<not> clash x y) xs \<Longrightarrow> \<not> (\<exists>y\<in>set xs. clash y x) \<Longrightarrow>
     sorted_wrt (\<lambda>x y. \<not> clash x y) (xs @ [x])"
  by (auto simp: sorted_wrt_append)

lemma remove_free:
  "sorted_wrt (\<lambda>x y. \<not> clash x y) xs \<Longrightarrow> sorted_wrt (\<lambda>x y. \<not> clash x y) (remove_first (fits k) xs)"
  by (rule sorted_wrt_remove_first)

text \<open>In a list without clashes a removal request fits at most one entry.\<close>

lemma fits_unique:
  "sorted_wrt (\<lambda>x y. \<not> clash x y) (as @ x # bs) \<Longrightarrow> fits k x \<Longrightarrow> y \<in> set (as @ bs) \<Longrightarrow> \<not> fits k y"
  using fits_clash [of k] by (auto simp: sorted_wrt_append)

end

definition inc_clash :: "cw_include \<Rightarrow> cw_include \<Rightarrow> bool" where
  "inc_clash i j \<longleftrightarrow> strcasecmp (inc_name i) (inc_name j) = 0"

definition sw_clash :: "cw_sw \<Rightarrow> cw_sw \<Rightarrow> bool" where
  "sw_clash i j \<longleftrightarrow> strcasecmp (sw_name i) (sw_name j) = 0 \<and> strcasecmp (sw_data i) (sw_data j) = 0"

definition ip_clash :: "cw_ignorepat \<Rightarrow> cw_ignorepat \<Rightarrow> bool" where
  "ip_clash i j \<longleftrightarrow> strcasecmp (ip_pattern i) (ip_pattern j) = 0"

interpretation inc: entry_list inc_clash "\<lambda>(v, r). include_is v r"
  by unfold_locales (auto simp: inc_clash_def include_is_def)

interpretation sws: entry_list sw_clash "\<lambda>(v, d, r). switch_is v d r"
  by unfold_locales (auto simp: sw_clash_def switch_is_def)

interpretation ips: entry_list ip_clash "\<lambda>(v, r). ignorepat_is v r"
  by unfold_locales (auto simp: ip_clash_def ignorepat_is_def)

section \<open>The invariant of the contexts\<close>

definition con_ok :: "cw_context \<Rightarrow> bool" where
  "con_ok c \<longleftrightarrow> con_hash c = cw_hash_string (con_name c) \<and>
     sorted_wrt (\<lambda>x y. \<not> inc_clash x y) (con_includes c) \<and>
     sorted_wrt (\<lambda>x y. \<not> sw_clash x y) (alts c) \<and>
     sorted_wrt (\<lambda>x y. \<not> ip_clash x y) (ignorepats c)"

definition con_inv :: "('d, 'c, 'x) pbx \<Rightarrow> bool" where
  "con_inv s \<longleftrightarrow> distinct (map con_hash (contexts s)) \<and> (\<forall>c\<in>set (contexts s). con_ok c)"

text \<open>An operation on one context keeps its identity and its invariant.\<close>

definition keeps :: "(cw_context \<Rightarrow> 'r \<times> cw_context) \<Rightarrow> bool" where
  "keeps f \<longleftrightarrow> (\<forall>c. con_ok c \<longrightarrow> con_ok (snd (f c)) \<and> con_hash (snd (f c)) = con_hash c)"

lemma on_context_found:
  "on_context h f cs = Some (r, cs') \<Longrightarrow>
     \<exists>as c bs. cs = as @ c # bs \<and> con_hash c = h \<and> (\<forall>a\<in>set as. con_hash a \<noteq> h) \<and> f c = (r, snd (f c)) \<and>
       cs' = as @ snd (f c) # bs"
proof (induction cs arbitrary: cs')
  case (Cons c cs)
  show ?case
  proof (cases "h = con_hash c")
    case True
    with Cons.prems show ?thesis by (intro exI [of _ "[]"] exI [of _ c] exI [of _ cs]) (auto split: prod.splits)
  next
    case False
    with Cons.prems obtain cs2 where c2: "on_context h f cs = Some (r, cs2)" "cs' = c # cs2" by auto
    from Cons.IH [OF c2(1)] obtain as d bs where
      "cs = as @ d # bs" "con_hash d = h" "\<forall>a\<in>set as. con_hash a \<noteq> h" "f d = (r, snd (f d))" "cs2 = as @ snd (f d) # bs"
      by blast
    with False c2(2) show ?thesis by (intro exI [of _ "c # as"] exI [of _ d] exI [of _ bs]) auto
  qed
qed simp

lemma on_context_ok:
  "on_context h f cs = Some (r, cs') \<Longrightarrow> keeps f \<Longrightarrow> \<forall>c\<in>set cs. con_ok c \<Longrightarrow>
     map con_hash cs' = map con_hash cs \<and> (\<forall>c\<in>set cs'. con_ok c)"
  by (drule on_context_found) (auto simp: keeps_def)

lemma on_context_inv:
  "on_context h f (contexts s) = Some (r, cs') \<Longrightarrow> keeps f \<Longrightarrow> con_inv s \<Longrightarrow> con_inv (s\<lparr>contexts := cs'\<rparr>)"
  using on_context_ok [of h f "contexts s" r cs'] by (simp add: con_inv_def)

lemma lock_simps [simp]:
  "contexts (cw_lock_contexts s) = contexts s" "contexts (cw_unlock_contexts s) = contexts s"
  "conlock (cw_lock_contexts s) = conlock s + 1" "conlock (cw_unlock_contexts s) = conlock s - 1"
  "con_inv (cw_lock_contexts s) = con_inv s" "con_inv (cw_unlock_contexts s) = con_inv s"
  "cw_unlock_contexts (cw_lock_contexts s) = s"
  "cw_unlock_contexts ((cw_lock_contexts s)\<lparr>contexts := cs\<rparr>) = s\<lparr>contexts := cs\<rparr>"
  by (simp_all add: cw_lock_contexts_def cw_unlock_contexts_def con_inv_def)

lemma keeps_include:
  "keeps (cw_context_add_include2 mem l v r)" "keeps (cw_context_remove_include2 l v q)"
  using inc.add_free inc.remove_free [of _ "(v, q)"]
  by (auto simp: keeps_def cw_context_add_include2_def cw_context_remove_include2_def con_ok_def Let_def
      inc_clash_def)

lemma keeps_switch:
  "keeps (cw_context_add_switch2 mem l v d e r)" "keeps (cw_context_remove_switch2 l v w q)"
  using sws.add_free sws.remove_free [of _ "(v, w, q)"]
  by (auto simp: keeps_def cw_context_add_switch2_def cw_context_remove_switch2_def con_ok_def Let_def
      sw_clash_def)

lemma keeps_ignorepat:
  "keeps (cw_context_add_ignorepat2 mem v r)" "keeps (cw_context_remove_ignorepat2 l v q)"
  using ips.add_free ips.remove_free [of _ "(v, q)"]
  by (auto simp: keeps_def cw_context_add_ignorepat2_def cw_context_remove_ignorepat2_def con_ok_def
      ip_clash_def)

lemmas keeps_rules = keeps_include keeps_switch keeps_ignorepat

lemma create_inv:
  "con_inv s \<Longrightarrow> con_inv (snd (snd (cw_context_create mem None name reg s)))"
  by (auto simp: cw_context_create_def Let_def con_inv_def new_context_def con_ok_def image_iff)

section \<open>Sequences of operations\<close>

datatype con_op =
    Create bool string string
  | Add_include bool bool bool string string string
  | Remove_include bool bool string string "string option"
  | Add_switch bool bool bool string string "string option" bool string
  | Remove_switch bool bool string string string "string option"
  | Add_ignorepat bool bool string string "addr \<times> string"
  | Remove_ignorepat bool bool string string "(addr \<times> string) option"

fun con_exec :: "con_op \<Rightarrow> ('d, 'c, 'x) pbx \<Rightarrow> ('d, 'c, 'x) pbx" where
  "con_exec (Create m n r) s = snd (snd (cw_context_create m None n r s))"
| "con_exec (Add_include k m l c v r) s = snd (cw_context_add_include k m l c v r s)"
| "con_exec (Remove_include k l c v r) s = snd (cw_context_remove_include k l c v r s)"
| "con_exec (Add_switch k m l c v d e r) s = snd (cw_context_add_switch k m l c v d e r s)"
| "con_exec (Remove_switch k l c v d r) s = snd (cw_context_remove_switch k l c v d r s)"
| "con_exec (Add_ignorepat k m c v r) s = snd (cw_context_add_ignorepat k m c v r s)"
| "con_exec (Remove_ignorepat k l c v r) s = snd (cw_context_remove_ignorepat k l c v r s)"

lemmas con_wrappers =
  cw_context_add_include_def cw_context_remove_include_def cw_context_add_switch_def
  cw_context_remove_switch_def cw_context_add_ignorepat_def cw_context_remove_ignorepat_def

lemma con_exec_inv: "con_inv s \<Longrightarrow> con_inv (con_exec x s)"
  by (cases x) (auto simp: create_inv con_wrappers Let_def keeps_rules on_context_inv split: option.splits)

interpretation con_machine: op_machine con_exec con_inv
  by unfold_locales (rule con_exec_inv)

definition initial_pbx :: "('d, 'c, 'x) pbx" where
  "initial_pbx = \<lparr>pbx_cells = Map.empty,
     pbx_hints = \<lparr>hints = [], statecbs = [], stateid = 1, hintlock = 0, notified = []\<rparr>,
     pbx_destroyed = [], contexts = [], conlock = 0\<rparr>"


section \<open>Removing what was added\<close>

lemma on_context_at:
  "con_hash c = h \<Longrightarrow> \<forall>a\<in>set as. con_hash a \<noteq> h \<Longrightarrow>
     on_context h f (as @ c # bs) = Some (fst (f c), as @ snd (f c) # bs)"
  by (induction as) (auto split: prod.splits)

lemma on_context_undo:
  assumes "on_context h f cs = Some (r, cs')"
    and "\<And>c c'. f c = (r, c') \<Longrightarrow> con_hash c' = con_hash c \<and> g c' = (q, c)"
  shows "on_context h g cs' = Some (q, cs)"
proof -
  obtain as c bs where c: "cs = as @ c # bs" "con_hash c = h" "\<forall>a\<in>set as. con_hash a \<noteq> h"
      "f c = (r, snd (f c))" "cs' = as @ snd (f c) # bs" using on_context_found [OF assms(1)] by blast
  from assms(2) [OF c(4)] have "con_hash (snd (f c)) = h" "g (snd (f c)) = (q, c)" using c(2) by auto
  with on_context_at [of "snd (f c)" h as g bs] c show ?thesis by simp
qed

lemma undo_include:
  "cw_context_add_include2 m l v r c = (None, c') \<Longrightarrow>
     con_hash c' = con_hash c \<and> cw_context_remove_include2 True v (Some r) c' = (True, c)"
proof (cases "m \<and> l \<and> \<not> (\<exists>i\<in>set (con_includes c). inc_clash i (new_include v r))")
  case True
  assume "cw_context_add_include2 m l v r c = (None, c')"
  with True have c': "c' = c\<lparr>con_includes := con_includes c @ [new_include v r]\<rparr>"
    by (auto simp: cw_context_add_include2_def Let_def inc_clash_def split: if_splits)
  have "include_is v (Some r) (new_include v r)"
    by (simp add: include_is_def new_include_def reg_match_def split: option.splits prod.splits)
  with True inc.remove_added [of "con_includes c" "new_include v r" "(v, Some r)"]
  show ?thesis by (auto simp: c' cw_context_remove_include2_def)
qed (auto simp: cw_context_add_include2_def Let_def inc_clash_def split: if_splits)

lemma undo_switch:
  "cw_context_add_switch2 m l v d e r c = (None, c') \<Longrightarrow>
     con_hash c' = con_hash c \<and>
     cw_context_remove_switch2 True v (case d of Some t \<Rightarrow> t | None \<Rightarrow> []) (Some r) c' = (True, c)"
proof (cases "m \<and> l \<and> \<not> (\<exists>i\<in>set (alts c). sw_clash i (new_switch v d e r))")
  case True
  assume "cw_context_add_switch2 m l v d e r c = (None, c')"
  with True have c': "c' = c\<lparr>alts := alts c @ [new_switch v d e r]\<rparr>"
    by (auto simp: cw_context_add_switch2_def Let_def sw_clash_def split: if_splits)
  have "switch_is v (case d of Some t \<Rightarrow> t | None \<Rightarrow> []) (Some r) (new_switch v d e r)"
    by (simp add: switch_is_def new_switch_def reg_match_def)
  with True sws.remove_added [of "alts c" "new_switch v d e r" "(v, (case d of Some t \<Rightarrow> t | None \<Rightarrow> []), Some r)"]
  show ?thesis by (auto simp: c' cw_context_remove_switch2_def)
qed (auto simp: cw_context_add_switch2_def Let_def sw_clash_def split: if_splits)

lemma undo_ignorepat:
  "cw_context_add_ignorepat2 m v r c = (None, c') \<Longrightarrow>
     con_hash c' = con_hash c \<and> cw_context_remove_ignorepat2 True v (Some r) c' = (None, c)"
proof (cases "m \<and> \<not> (\<exists>i\<in>set (ignorepats c). ip_clash i \<lparr>ip_registrar = r, ip_pattern = v\<rparr>)")
  case True
  assume "cw_context_add_ignorepat2 m v r c = (None, c')"
  with True have c': "c' = c\<lparr>ignorepats := ignorepats c @ [\<lparr>ip_registrar = r, ip_pattern = v\<rparr>]\<rparr>"
    by (auto simp: cw_context_add_ignorepat2_def ip_clash_def split: if_splits)
  have "ignorepat_is v (Some r) \<lparr>ip_registrar = r, ip_pattern = v\<rparr>" by (simp add: ignorepat_is_def)
  with True ips.remove_added [of "ignorepats c" "\<lparr>ip_registrar = r, ip_pattern = v\<rparr>" "(v, Some r)"]
  show ?thesis by (auto simp: c' cw_context_remove_ignorepat2_def)
qed (auto simp: cw_context_add_ignorepat2_def ip_clash_def split: if_splits)

text \<open>
  Removing an include, a switch or an ignore pattern under the name and registrar it was
  successfully added with restores the whole state.
\<close>

theorem context_add_remove:
  "(cw_context_add_include k m l con v r s = (None, s1) \<longrightarrow>
      cw_context_remove_include True True con v (Some r) s1 = (True, s)) \<and>
   (cw_context_add_switch k m l con v d e r s = (None, s2) \<longrightarrow>
      cw_context_remove_switch True True con v (case d of Some t \<Rightarrow> t | None \<Rightarrow> []) (Some r) s2 = (True, s)) \<and>
   (cw_context_add_ignorepat k m con v p s = (None, s3) \<longrightarrow>
      cw_context_remove_ignorepat True True con v (Some p) s3 = (None, s))"
proof (intro conjI impI)
  assume "cw_context_add_include k m l con v r s = (None, s1)"
  then obtain cs where cs: "on_context (cw_hash_string con) (cw_context_add_include2 m l v r) (contexts s) = Some (None, cs)"
      "s1 = s\<lparr>contexts := cs\<rparr>" by (auto simp: con_wrappers Let_def split: if_splits option.splits)
  from on_context_undo [OF cs(1) undo_include] cs(2)
  show "cw_context_remove_include True True con v (Some r) s1 = (True, s)" by (simp add: con_wrappers Let_def)
next
  assume "cw_context_add_switch k m l con v d e r s = (None, s2)"
  then obtain cs where cs: "on_context (cw_hash_string con) (cw_context_add_switch2 m l v d e r) (contexts s) = Some (None, cs)"
      "s2 = s\<lparr>contexts := cs\<rparr>" by (auto simp: con_wrappers Let_def split: if_splits option.splits)
  from on_context_undo [OF cs(1) undo_switch] cs(2)
  show "cw_context_remove_switch True True con v (case d of Some t \<Rightarrow> t | None \<Rightarrow> []) (Some r) s2 = (True, s)"
    by (simp add: con_wrappers Let_def)
next
  assume "cw_context_add_ignorepat k m con v p s = (None, s3)"
  then obtain cs where cs: "on_context (cw_hash_string con) (cw_context_add_ignorepat2 m v p) (contexts s) = Some (None, cs)"
      "s3 = s\<lparr>contexts := cs\<rparr>" by (auto simp: con_wrappers Let_def split: if_splits option.splits)
  from on_context_undo [OF cs(1) undo_ignorepat] cs(2)
  show "cw_context_remove_ignorepat True True con v (Some p) s3 = (None, s)" by (simp add: con_wrappers Let_def)
qed

definition demo_pbx :: "(nat, nat, nat) pbx" where
  "demo_pbx = snd (snd (cw_context_create True None ''default'' ''demo'' initial_pbx))"

lemma demo_pbx_contexts: "contexts demo_pbx = [new_context ''default'' ''demo'']" "conlock demo_pbx = 0"
  by (simp_all add: demo_pbx_def cw_context_create_def initial_pbx_def Let_def)

theorem context_add_remove_witness:
  "cw_context_remove_include True True ''default'' ''parked'' (Some ''demo'')
     (snd (cw_context_add_include True True True ''default'' ''parked'' ''demo'' demo_pbx)) = (True, demo_pbx) \<and>
   cw_context_remove_switch True True ''default'' ''IAX2'' [] (Some ''demo'')
     (snd (cw_context_add_switch True True True ''default'' ''IAX2'' None False ''demo'' demo_pbx)) = (True, demo_pbx) \<and>
   cw_context_remove_ignorepat True True ''default'' ''9'' (Some (5, ''demo''))
     (snd (cw_context_add_ignorepat True True ''default'' ''9'' (5, ''demo'') demo_pbx)) = (None, demo_pbx)"
proof -
  have ok: "fst (cw_context_add_include True True True ''default'' ''parked'' ''demo'' demo_pbx) = None"
    "fst (cw_context_add_switch True True True ''default'' ''IAX2'' None False ''demo'' demo_pbx) = None"
    "fst (cw_context_add_ignorepat True True ''default'' ''9'' (5, ''demo'') demo_pbx) = None"
    by (simp_all add: con_wrappers demo_pbx_contexts new_context_def cw_context_add_include2_def
        cw_context_add_switch2_def cw_context_add_ignorepat2_def Let_def)
  then show ?thesis
    using context_add_remove [of True True True "''default''" "''parked''" "''demo''" demo_pbx]
      context_add_remove [where k = True and m = True and l = True and con = "''default''" and v = "''IAX2''" and
        d = None and e = False and r = "''demo''" and s = demo_pbx]
      context_add_remove [where k = True and m = True and con = "''default''" and v = "''9''" and
        p = "(5, ''demo'')" and s = demo_pbx]
    by (simp add: prod_eq_iff)
qed

section \<open>Names that are too long\<close>

text \<open>
  Contexts are told apart by the first 32 characters of their names alone.  Looking up a
  name finds the context of any name with the same beginning; creating a context when one
  with the same beginning exists is refused, and that path unlocks the list of contexts
  once more than it locked it.
\<close>

theorem context_names_cut:
  assumes "con_inv s" "c \<in> set (contexts s)" "take 32 name = take 32 (con_name c)"
  shows "cw_context_find (Some name) s = Some c \<and>
    cw_context_create mem None name reg s = (None, None, s\<lparr>conlock := conlock s - 1\<rparr>)"
proof -
  have h: "cw_hash_string name = con_hash c" using assms
    by (auto simp: con_inv_def con_ok_def cw_hash_string_def CWHASH_SIGNIFICANT_CHARS_def)
  obtain as bs where s: "contexts s = as @ c # bs" using assms(2) by (metis split_list)
  then have "con_hash a \<noteq> con_hash c" if "a \<in> set as" for a using assms(1) that by (auto simp: con_inv_def image_iff)
  then have "find (\<lambda>d. con_hash d = con_hash c) (contexts s) = Some c" unfolding s by (induction as) auto
  moreover have "cw_unlock_contexts (cw_unlock_contexts (cw_lock_contexts s)) = s\<lparr>conlock := conlock s - 1\<rparr>"
    by (simp add: cw_unlock_contexts_def cw_lock_contexts_def)
  ultimately show ?thesis using assms(2) h by (auto simp: cw_context_find_def cw_context_create_def Let_def)
qed

theorem context_names_cut_witness:
  "cw_context_create True None ''default'' ''other'' demo_pbx = (None, None, demo_pbx\<lparr>conlock := - 1\<rparr>)"
  using context_names_cut [of demo_pbx "new_context ''default'' ''demo''" "''default''" True "''other''"]
  by (simp add: con_inv_def demo_pbx_contexts con_ok_def new_context_def)

end
