(* ===== verification/Pbx_Find.thy ===== *)
theory Pbx_Find
  imports Pbx_Contexts
begin

text \<open>
  Looking up an extension, \<open>corelib/pbx.c\<close>: \<open>pbx_find_extension\<close>, the decisions of
  \<open>pbx_extension_helper\<close> and the routines built on them.

  The search reads the heap cells of a context, asks its switches and then descends into its
  includes.  Names of the contexts that were entered are pushed on \<open>incstack\<close> and never popped,
  so the stack is the set of visited contexts.  The depth of the recursion is bounded by the
  fuel \<open>k\<close>, the walk over one context by the fuel \<open>n\<close>; \<open>None\<close> stands for fuel that runs out
  or for reading a freed cell.  The time, the registered switches with their callbacks and
  the substitution of variables in the data of a switch are the fields of \<open>find_env\<close>.
\<close>

section \<open>The routines of the source\<close>

datatype helper = HELPER_EXISTS | HELPER_EXEC | HELPER_CANMATCH | HELPER_MATCHMORE | HELPER_FINDLABEL

definition STATUS_NO_CONTEXT :: int where "STATUS_NO_CONTEXT = 1"
definition STATUS_NO_EXTENSION :: int where "STATUS_NO_EXTENSION = 2"
definition STATUS_NO_PRIORITY :: int where "STATUS_NO_PRIORITY = 3"
definition STATUS_NO_LABEL :: int where "STATUS_NO_LABEL = 4"
definition STATUS_SUCCESS :: int where "STATUS_SUCCESS = 5"

definition CW_PBX_MAX_STACK :: nat where "CW_PBX_MAX_STACK = 128"

type_synonym switch_fun = "string option \<Rightarrow> string \<Rightarrow> int \<Rightarrow> string option \<Rightarrow> string \<Rightarrow> int"

record cw_switch =
  asw_name :: string
  asw_exists :: "switch_fun option"
  asw_canmatch :: "switch_fun option"
  asw_exec :: "switch_fun option"
  asw_matchmore :: "switch_fun option"

record find_env =
  now :: tm
  switches :: "cw_switch list"
  switchlock_ok :: bool
  substitute :: "string \<Rightarrow> string"

text \<open>The arguments of a search that every recursive call passes on.\<close>

record query =
  q_exten :: string
  q_prio :: int
  q_label :: "string option"
  q_callerid :: "string option"
  q_action :: helper

record find_state =
  incstack :: "string list"
  fstatus :: int
  swo :: "cw_switch option"
  fdata :: "string option"
  foundcontext :: "string option"

definition pbx_findswitch :: "find_env \<Rightarrow> string \<Rightarrow> cw_switch option" where
  "pbx_findswitch env sw =
     (if switchlock_ok env then find (\<lambda>asw. strcasecmp (asw_name asw) sw = 0) (switches env) else None)"

definition raise_status :: "int \<Rightarrow> int \<Rightarrow> int" where
  "raise_status st new = (if st < new then new else st)"

text \<open>The verdict on one row: whether its priorities are searched, and whether it becomes the
  early match.\<close>

definition row_verdict :: "query \<Rightarrow> bool \<Rightarrow> 'd cw_exten \<Rightarrow> bool \<times> bool" where
  "row_verdict q early x =
     (let m = cw_extension_pattern_match (q_exten q) (exten x) in
      if match_cid x \<and> \<not> matchcid (cidmatch x) (q_callerid q) then (False, early)
      else case q_action q of
        HELPER_CANMATCH \<Rightarrow>
          (m \<in> {EXTENSION_MATCH_POSSIBLE, EXTENSION_MATCH_EXACT, EXTENSION_MATCH_STRETCHABLE,
                 EXTENSION_MATCH_INCOMPLETE}, early)
      | HELPER_MATCHMORE \<Rightarrow>
          if m = EXTENSION_MATCH_POSSIBLE \<and> \<not> early then (False, True)
          else (m \<in> {EXTENSION_MATCH_STRETCHABLE, EXTENSION_MATCH_INCOMPLETE}, early)
      | _ \<Rightarrow> (m \<in> {EXTENSION_MATCH_POSSIBLE, EXTENSION_MATCH_EXACT, EXTENSION_MATCH_STRETCHABLE}, early))"

text \<open>The walk over the priorities of a row; the result is the cell, if any, and the status.\<close>

fun find_in_row :: "nat \<Rightarrow> 'd heap \<Rightarrow> query \<Rightarrow> addr \<Rightarrow> int \<Rightarrow> (addr option \<times> int) option" where
  "find_in_row 0 h q e st = None"
| "find_in_row (Suc n) h q e st =
     (if e = null then Some (None, st)
      else case h e of
        None \<Rightarrow> None
      | Some x \<Rightarrow>
          if q_action q = HELPER_FINDLABEL
          then (if q_label q \<noteq> None \<and> label x \<noteq> None \<and> strcmp (the (q_label q)) (the (label x)) = 0
                then Some (Some e, STATUS_SUCCESS)
                else find_in_row n h q (peer x) (raise_status st STATUS_NO_LABEL))
          else if priority x = q_prio q then Some (Some e, STATUS_SUCCESS)
          else find_in_row n h q (peer x) st)"

text \<open>The walk over the rows of a context; the result is the cell, the early match and the status.\<close>

fun find_in_rows :: "nat \<Rightarrow> nat \<Rightarrow> 'd heap \<Rightarrow> query \<Rightarrow> addr \<Rightarrow> bool \<Rightarrow> int \<Rightarrow> (addr option \<times> bool \<times> int) option" where
  "find_in_rows 0 n h q eroot early st = None"
| "find_in_rows (Suc m) n h q eroot early st =
     (if eroot = null then Some (None, early, st)
      else case h eroot of
        None \<Rightarrow> None
      | Some x \<Rightarrow>
          (let (res, early) = row_verdict q early x in
           if res
           then case find_in_row n h q eroot (raise_status st STATUS_NO_PRIORITY) of
                  None \<Rightarrow> None
                | Some (Some e, st) \<Rightarrow> Some (Some e, early, st)
                | Some (None, st) \<Rightarrow> find_in_rows m n h q (enext x) early st
           else find_in_rows m n h q (enext x) early st))"

definition switch_answer :: "query \<Rightarrow> cw_switch \<Rightarrow> string option \<Rightarrow> string \<Rightarrow> int" where
  "switch_answer q asw context d =
     (let f = (case q_action q of
                 HELPER_CANMATCH \<Rightarrow> asw_canmatch asw
               | HELPER_MATCHMORE \<Rightarrow> asw_matchmore asw
               | _ \<Rightarrow> asw_exists asw) in
      case f of None \<Rightarrow> 0 | Some g \<Rightarrow> g context (q_exten q) (q_prio q) (q_callerid q) d)"

fun find_in_switches :: "find_env \<Rightarrow> query \<Rightarrow> string option \<Rightarrow> cw_sw list \<Rightarrow> (cw_switch \<times> string) option" where
  "find_in_switches env q context [] = None"
| "find_in_switches env q context (sw # sws) =
     (case pbx_findswitch env (sw_name sw) of
        None \<Rightarrow> find_in_switches env q context sws
      | Some asw \<Rightarrow>
          (let d = (if sw_eval sw then substitute env (sw_data sw) else sw_data sw) in
           if switch_answer q asw context d \<noteq> 0 then Some (asw, d) else find_in_switches env q context sws))"

definition on_stack :: "string option \<Rightarrow> string list \<Rightarrow> bool" where
  "on_stack context stack \<longleftrightarrow>
     (case context of None \<Rightarrow> False | Some c \<Rightarrow> \<exists>x\<in>set stack. strcasecmp x c = 0)"

definition this_context :: "cw_context list \<Rightarrow> cw_context option \<Rightarrow> string option \<Rightarrow> cw_context option" where
  "this_context cons bypass context =
     (case bypass of
        Some c \<Rightarrow> Some c
      | None \<Rightarrow> find (\<lambda>c. cw_hash_string_null context = con_hash c) cons)"

definition enter_search :: "find_state \<Rightarrow> find_state" where
  "enter_search st =
     (if incstack st = [] then st\<lparr>fstatus := STATUS_NO_CONTEXT, swo := None, fdata := None\<rparr> else st)"

fun pbx_find_extension :: "nat \<Rightarrow> nat \<Rightarrow> find_env \<Rightarrow> 'd heap \<Rightarrow> cw_context list \<Rightarrow> cw_context option \<Rightarrow> query \<Rightarrow>
      string option \<Rightarrow> find_state \<Rightarrow> (addr option \<times> find_state) option"
  and find_in_includes :: "nat \<Rightarrow> nat \<Rightarrow> find_env \<Rightarrow> 'd heap \<Rightarrow> cw_context list \<Rightarrow> cw_context option \<Rightarrow> query \<Rightarrow>
      cw_include list \<Rightarrow> find_state \<Rightarrow> (addr option \<times> find_state) option" where
  "pbx_find_extension 0 n env h cons bypass q context st = None"
| "pbx_find_extension (Suc k) n env h cons bypass q context st =
     (let st = enter_search st in
      if CW_PBX_MAX_STACK \<le> length (incstack st) then Some (None, st)
      else if on_stack context (incstack st) then Some (None, st)
      else case this_context cons bypass context of
        None \<Rightarrow> Some (None, st)
      | Some tmp \<Rightarrow>
          (case find_in_rows n n h q (con_root tmp) False (raise_status (fstatus st) STATUS_NO_EXTENSION) of
             None \<Rightarrow> None
           | Some (Some e, _, status) \<Rightarrow> Some (Some e, st\<lparr>fstatus := status, foundcontext := context\<rparr>)
           | Some (None, early, status) \<Rightarrow>
               (let st = st\<lparr>fstatus := status\<rparr> in
                if early then Some (None, st)
                else case find_in_switches env q context (alts tmp) of
                  Some (asw, d) \<Rightarrow> Some (None, st\<lparr>swo := Some asw, fdata := Some d, foundcontext := context\<rparr>)
                | None \<Rightarrow>
                    find_in_includes k n env h cons bypass q (con_includes tmp)
                      (st\<lparr>incstack := incstack st @ [con_name tmp]\<rparr>))))"
| "find_in_includes k n env h cons bypass q [] st = Some (None, st)"
| "find_in_includes k n env h cons bypass q (i # is) st =
     (if include_valid (now env) i
      then case pbx_find_extension k n env h cons bypass q (Some (rname i)) st of
             None \<Rightarrow> None
           | Some (Some e, st) \<Rightarrow> Some (Some e, st)
           | Some (None, st) \<Rightarrow>
               if \<not> Option.is_none (swo st) then Some (None, st)
               else find_in_includes k n env h cons bypass q is st
      else find_in_includes k n env h cons bypass q is st)"

subsection \<open>Routines built on the search\<close>

definition initial_find :: find_state where
  "initial_find = \<lparr>incstack = [], fstatus = 0, swo = None, fdata = None, foundcontext = None\<rparr>"

definition search ::
    "nat \<Rightarrow> find_env \<Rightarrow> ('d, 'c, 'x) pbx \<Rightarrow> cw_context option \<Rightarrow> query \<Rightarrow> string option \<Rightarrow>
     (addr option \<times> find_state) option" where
  "search n env s bypass q context =
     pbx_find_extension (CW_PBX_MAX_STACK + 1) n env (pbx_cells s) (contexts s) bypass q context initial_find"

text \<open>What \<open>pbx_extension_helper\<close> decides: an immediate result, or which application cell or
  which switch is to be executed.\<close>

datatype outcome = Return int | Exec_app addr | Exec_switch cw_switch "string option" string

definition quiet :: "helper \<Rightarrow> bool" where
  "quiet a \<longleftrightarrow> a = HELPER_EXISTS \<or> a = HELPER_CANMATCH \<or> a = HELPER_MATCHMORE"

definition pbx_extension_helper ::
    "bool \<Rightarrow> nat \<Rightarrow> find_env \<Rightarrow> ('d, 'c, 'x) pbx \<Rightarrow> cw_context option \<Rightarrow> string option \<Rightarrow> query \<Rightarrow> outcome option" where
  "pbx_extension_helper conlock_ok n env s con context q =
     (if \<not> conlock_ok then Some (Return (if quiet (q_action q) then 0 else - 1))
      else case search n env s con q context of
        None \<Rightarrow> None
      | Some (Some e, st) \<Rightarrow>
          (case q_action q of
             HELPER_FINDLABEL \<Rightarrow> map_option (Return \<circ> priority) (pbx_cells s e)
           | HELPER_EXEC \<Rightarrow> Some (Exec_app e)
           | _ \<Rightarrow> Some (Return (- 1)))
      | Some (None, st) \<Rightarrow>
          (case swo st of
             Some sw \<Rightarrow>
               if q_action q = HELPER_EXEC
               then Some (if Option.is_none (asw_exec sw) then Return (- 1)
                          else Exec_switch sw (if foundcontext st \<noteq> None then foundcontext st else context)
                                 (case fdata st of Some d \<Rightarrow> d | None \<Rightarrow> []))
               else Some (Return (- 1))
           | None \<Rightarrow> Some (Return (if quiet (q_action q) then 0 else - 1))))"

definition ret_of :: "outcome \<Rightarrow> int" where
  "ret_of r = (case r of Return i \<Rightarrow> i | _ \<Rightarrow> - 1)"

definition cw_exists_extension where
  "cw_exists_extension k n env s context ext prio callerid =
     map_option ret_of (pbx_extension_helper k n env s None (Some context)
       \<lparr>q_exten = ext, q_prio = prio, q_label = None, q_callerid = callerid, q_action = HELPER_EXISTS\<rparr>)"

definition cw_canmatch_extension where
  "cw_canmatch_extension k n env s context ext prio callerid =
     map_option ret_of (pbx_extension_helper k n env s None (Some context)
       \<lparr>q_exten = ext, q_prio = prio, q_label = None, q_callerid = callerid, q_action = HELPER_CANMATCH\<rparr>)"

definition cw_matchmore_extension where
  "cw_matchmore_extension k n env s context ext prio callerid =
     map_option ret_of (pbx_extension_helper k n env s None (Some context)
       \<lparr>q_exten = ext, q_prio = prio, q_label = None, q_callerid = callerid, q_action = HELPER_MATCHMORE\<rparr>)"

definition cw_findlabel_extension where
  "cw_findlabel_extension k n env s context ext lab callerid =
     map_option ret_of (pbx_extension_helper k n env s None (Some context)
       \<lparr>q_exten = ext, q_prio = 0, q_label = Some lab, q_callerid = callerid, q_action = HELPER_FINDLABEL\<rparr>)"

definition cw_findlabel_extension2 where
  "cw_findlabel_extension2 k n env s con ext lab callerid =
     map_option ret_of (pbx_extension_helper k n env s (Some con) None
       \<lparr>q_exten = ext, q_prio = 0, q_label = Some lab, q_callerid = callerid, q_action = HELPER_FINDLABEL\<rparr>)"

definition cw_hint_extension ::
    "bool \<Rightarrow> nat \<Rightarrow> find_env \<Rightarrow> ('d, 'c, 'x) pbx \<Rightarrow> string \<Rightarrow> string \<Rightarrow> addr option option" where
  "cw_hint_extension conlock_ok n env s context ext =
     (if \<not> conlock_ok then Some None
      else map_option fst (search n env s None
        \<lparr>q_exten = ext, q_prio = PRIORITY_HINT, q_label = None, q_callerid = Some [], q_action = HELPER_EXISTS\<rparr>
        (Some context)))"

definition cw_extension_state ::
    "bool \<Rightarrow> nat \<Rightarrow> find_env \<Rightarrow> (string \<Rightarrow> int) \<Rightarrow> ('d, 'c, 'x) pbx \<Rightarrow> string \<Rightarrow> string \<Rightarrow> int option" where
  "cw_extension_state conlock_ok n env dev s context ext =
     (case cw_hint_extension conlock_ok n env s context ext of
        None \<Rightarrow> None
      | Some None \<Rightarrow> Some (- 1)
      | Some (Some e) \<Rightarrow> Some (cw_extension_state2 dev (pbx_cells s e)))"

text \<open>\<open>cw_get_hint\<close>: the device names and the label of a hint, cut to the caller's buffers.\<close>

definition cw_get_hint ::
    "bool \<Rightarrow> nat \<Rightarrow> find_env \<Rightarrow> (string option, 'c, 'x) pbx \<Rightarrow> nat \<Rightarrow> nat \<Rightarrow> string \<Rightarrow> string \<Rightarrow>
     (int \<times> string option \<times> string option) option" where
  "cw_get_hint conlock_ok n env s hintsize namesize context ext =
     (case cw_hint_extension conlock_ok n env s context ext of
        None \<Rightarrow> None
      | Some None \<Rightarrow> Some (0, None, None)
      | Some (Some e) \<Rightarrow>
          map_option (\<lambda>x. (- 1, Some (cw_copy_string (app x) hintsize),
                       map_option (\<lambda>d. cw_copy_string d namesize) (app_data x)))
            (pbx_cells s e))"

section \<open>One context\<close>

text \<open>The rows a query enters and the cells that answer it.\<close>

definition cid_ok :: "query \<Rightarrow> 'd cw_exten \<Rightarrow> bool" where
  "cid_ok q x \<longleftrightarrow> \<not> (match_cid x \<and> \<not> matchcid (cidmatch x) (q_callerid q))"

definition wanted :: "helper \<Rightarrow> ext_match set" where
  "wanted a = (case a of
     HELPER_CANMATCH \<Rightarrow> {EXTENSION_MATCH_POSSIBLE, EXTENSION_MATCH_EXACT, EXTENSION_MATCH_STRETCHABLE,
                          EXTENSION_MATCH_INCOMPLETE}
   | HELPER_MATCHMORE \<Rightarrow> {EXTENSION_MATCH_STRETCHABLE, EXTENSION_MATCH_INCOMPLETE}
   | _ \<Rightarrow> {EXTENSION_MATCH_POSSIBLE, EXTENSION_MATCH_EXACT, EXTENSION_MATCH_STRETCHABLE})"

definition enters :: "query \<Rightarrow> 'd cw_exten \<Rightarrow> bool" where
  "enters q x \<longleftrightarrow> cid_ok q x \<and> cw_extension_pattern_match (q_exten q) (exten x) \<in> wanted (q_action q)"

definition early_row :: "query \<Rightarrow> 'd cw_exten \<Rightarrow> bool" where
  "early_row q x \<longleftrightarrow> q_action q = HELPER_MATCHMORE \<and> cid_ok q x \<and>
     cw_extension_pattern_match (q_exten q) (exten x) = EXTENSION_MATCH_POSSIBLE"

definition answers :: "query \<Rightarrow> 'd cw_exten \<Rightarrow> bool" where
  "answers q x \<longleftrightarrow>
     (if q_action q = HELPER_FINDLABEL then q_label q \<noteq> None \<and> label x = q_label q
      else priority x = q_prio q)"

lemma row_verdict: "row_verdict q early x = (enters q x, early \<or> early_row q x)"
  by (auto simp: row_verdict_def enters_def early_row_def cid_ok_def wanted_def Let_def split: helper.splits)

text \<open>The first cell of a list of rows that answers the query.\<close>

fun first_hit :: "'d heap \<Rightarrow> query \<Rightarrow> addr list list \<Rightarrow> addr option" where
  "first_hit h q [] = None"
| "first_hit h q (as # ass) =
     (case (if enters q (cell h (head as)) then find (\<lambda>a. answers q (cell h a)) as else None) of
        Some a \<Rightarrow> Some a
      | None \<Rightarrow> first_hit h q ass)"

lemma find_in_row_step:
  "e \<noteq> null \<Longrightarrow> h e = Some x \<Longrightarrow> find_in_row (Suc n) h q e st =
     (if answers q x then Some (Some e, STATUS_SUCCESS)
      else find_in_row n h q (peer x) (if q_action q = HELPER_FINDLABEL then raise_status st STATUS_NO_LABEL else st))"
  by (cases "q_label q"; cases "label x") (auto simp: answers_def)

lemma find_in_row_seg:
  "seg peer h p as null \<Longrightarrow> length as < n \<Longrightarrow>
     \<exists>st'. find_in_row n h q p st = Some (find (\<lambda>a. answers q (cell h a)) as, st')"
proof (induction as arbitrary: p n st)
  case (Cons a as)
  then obtain m x where "n = Suc m" "p = a" "a \<noteq> null" "h a = Some x" "seg peer h (peer x) as null" "length as < m"
    by (cases n) (auto split: option.splits)
  with Cons.IH [of "peer x" m] show ?case
    by (auto simp: cell_def find_in_row_step simp del: find_in_row.simps)
next
  case Nil
  then show ?case by (cases n) auto
qed

lemma find_in_rows_seg:
  "seg enext h p (map head ass) null \<Longrightarrow> \<forall>as\<in>set ass. as \<noteq> [] \<and> seg peer h (head as) as null \<Longrightarrow>
     length ass < m \<Longrightarrow> length (concat ass) < n \<Longrightarrow>
     \<exists>early' st'. find_in_rows m n h q p early st = Some (first_hit h q ass, early', st') \<and>
       (first_hit h q ass = None \<longrightarrow> early' = (early \<or> (\<exists>as\<in>set ass. early_row q (cell h (head as)))))"
proof (induction ass arbitrary: p m early st)
  case (Cons as ass)
  then obtain m' x where m: "m = Suc m'" "length ass < m'" and a: "p = head as" "p \<noteq> null" "h p = Some x"
      "seg enext h (enext x) (map head ass) null" by (cases m) (auto split: option.splits)
  have IH: "\<exists>early' st'. find_in_rows m' n h q (enext x) early st = Some (first_hit h q ass, early', st') \<and>
      (first_hit h q ass = None \<longrightarrow> early' = (early \<or> (\<exists>as\<in>set ass. early_row q (cell h (head as)))))" for early st
    using Cons.IH [OF a(4) _ m(2)] Cons.prems(2,4) by simp
  obtain st' where r: "find_in_row n h q p (raise_status st STATUS_NO_PRIORITY) =
      Some (find (\<lambda>a. answers q (cell h a)) as, st')"
    using find_in_row_seg [of h p as n q "raise_status st STATUS_NO_PRIORITY"] Cons.prems(2,4) a(1) by auto
  have x: "cell h (head as) = x" using a by (simp add: cell_def)
  show ?case
  proof (cases "enters q x")
    case True
    then show ?thesis using IH [of "early \<or> early_row q x" st'] r
      by (cases "find (\<lambda>a. answers q (cell h a)) as") (auto simp: m a(2,3) x row_verdict)
  next
    case False
    then show ?thesis using IH [of "early \<or> early_row q x" st] by (auto simp: m a(2,3) x row_verdict)
  qed
next
  case Nil
  then show ?case by (cases m) auto
qed

text \<open>The search of one context, with fuel for its cells.\<close>

lemma concat_length_le: "\<forall>as\<in>set ass. as \<noteq> [] \<Longrightarrow> length ass \<le> length (concat ass)"
  by (induction ass) (auto simp: Suc_le_eq add_strict_increasing)

lemma find_in_rows_rep:
  assumes "rep h r ass" "length (concat ass) < n"
  obtains early st' where "find_in_rows n n h q r False st = Some (first_hit h q ass, early, st')"
    "first_hit h q ass = None \<longrightarrow> early \<longrightarrow> (\<exists>as\<in>set ass. early_row q (cell h (head as)))"
proof -
  have "length ass < n" using assms concat_length_le [of ass] by (auto simp: rep_def)
  then show ?thesis using find_in_rows_seg [of h r ass n n q False st] assms that by (auto simp: rep_def)
qed

lemma find_SomeD: "find P xs = Some x \<Longrightarrow> x \<in> set xs \<and> P x"
  by (induction xs) (auto split: if_splits)

lemma first_hit_Some:
  "first_hit h q ass = Some a \<Longrightarrow>
     \<exists>as\<in>set ass. a \<in> set as \<and> enters q (cell h (head as)) \<and> answers q (cell h a)"
  by (induction ass) (auto dest!: find_SomeD split: option.splits if_splits)

lemma first_hit_None:
  "first_hit h q ass = None \<longleftrightarrow>
     (\<forall>as\<in>set ass. enters q (cell h (head as)) \<longrightarrow> (\<forall>a\<in>set as. \<not> answers q (cell h a)))"
  by (induction ass) (auto simp: find_None_iff dest!: find_SomeD split: option.splits if_splits)

end
