(* ===== verification/Pbx_Rows.thy ===== *)
theory Pbx_Rows
  imports Pbx_Extens
begin

text \<open>
  The specification of a context: its extensions as sorted rows, the insertion that
  \<open>cw_add_extension2\<close> promises, and the invariant that insertion keeps.
\<close>

section \<open>Insertion\<close>

fun ins_peer :: "bool \<Rightarrow> 'd cw_exten \<Rightarrow> 'd cw_exten list \<Rightarrow> 'd cw_exten list option" where
  "ins_peer replace t [] = Some [t]"
| "ins_peer replace t (x # xs) =
     (if priority x < priority t then map_option ((#) x) (ins_peer replace t xs)
      else if priority x = priority t then if replace then Some (t # xs) else None
      else Some (t # x # xs))"

fun ins_rows :: "bool \<Rightarrow> 'd cw_exten \<Rightarrow> 'd cw_exten list list \<Rightarrow> 'd cw_exten list list option" where
  "ins_rows replace t [] = Some [[t]]"
| "ins_rows replace t (r # rs) =
     (if row_key (hd r) < row_key t then map_option ((#) r) (ins_rows replace t rs)
      else if row_key (hd r) = row_key t then map_option (\<lambda>r'. r' # rs) (ins_peer replace t r)
      else Some ([t] # r # rs))"

lemma ins_peer_split:
  "(\<And>x. x \<in> set xs \<Longrightarrow> priority x < priority t) \<Longrightarrow>
     ins_peer replace t (xs @ ys) = map_option ((@) xs) (ins_peer replace t ys)"
  by (cases "ins_peer replace t ys"; induction xs) simp_all

lemma ins_rows_split:
  "(\<And>r. r \<in> set rs \<Longrightarrow> row_key (hd r) < row_key t) \<Longrightarrow>
     ins_rows replace t (rs @ rs') = map_option ((@) rs) (ins_rows replace t rs')"
  by (cases "ins_rows replace t rs'"; induction rs) simp_all

section \<open>Sorted rows\<close>

text \<open>A row with key \<open>k\<close>: one name and caller id, priorities strictly increasing.\<close>

definition row_ok :: "bool \<times> nat list \<times> bool \<times> nat list \<Rightarrow> 'd cw_exten list \<Rightarrow> bool" where
  "row_ok k r \<longleftrightarrow> r \<noteq> [] \<and> (\<forall>x\<in>set r. row_key x = k) \<and> sorted_wrt (<) (map priority r)"

definition rows_ok :: "'d cw_exten list list \<Rightarrow> bool" where
  "rows_ok rs \<longleftrightarrow> (\<exists>ks. list_all2 row_ok ks rs \<and> sorted_wrt (<) ks)"

lemma ins_peer_ok:
  "sorted_wrt (<) (map priority r) \<Longrightarrow>
     (case ins_peer replace t r of
        None \<Rightarrow> \<not> replace \<and> (\<exists>x\<in>set r. priority x = priority t)
      | Some r' \<Rightarrow> (replace \<or> (\<forall>x\<in>set r. priority x \<noteq> priority t)) \<and> r' \<noteq> [] \<and>
          sorted_wrt (<) (map priority r') \<and> set r' = insert t {x \<in> set r. priority x \<noteq> priority t})"
proof (induction r)
  case (Cons x r)
  consider "priority x < priority t" | "priority x = priority t" | "priority t < priority x" by linarith
  then show ?case
  proof cases
    case 1
    with Cons show ?thesis by (cases "ins_peer replace t r") auto
  next
    case 2
    with Cons.prems have "{y \<in> set (x # r). priority y \<noteq> priority t} = set r" by auto
    with 2 Cons.prems show ?thesis by auto
  next
    case 3
    with Cons.prems have "{y \<in> set (x # r). priority y \<noteq> priority t} = set (x # r)" by auto
    with 3 Cons.prems show ?thesis by auto
  qed
qed simp

lemma row_ok_hd: "row_ok k r \<Longrightarrow> row_key (hd r) = k"
  by (simp add: row_ok_def)

text \<open>What is stored: the cells of all rows; an entry is identified by its row and priority.\<close>

definition same_entry :: "'d cw_exten \<Rightarrow> 'd cw_exten \<Rightarrow> bool" where
  "same_entry t x \<longleftrightarrow> row_key x = row_key t \<and> priority x = priority t"

lemma ins_rows_keys:
  assumes "list_all2 row_ok ks rs" "sorted_wrt (<) ks"
  shows "case ins_rows replace t rs of
      None \<Rightarrow> \<not> replace \<and> (\<exists>x\<in>set (concat rs). same_entry t x)
    | Some rs' \<Rightarrow> (replace \<or> (\<forall>x\<in>set (concat rs). \<not> same_entry t x)) \<and>
        (\<exists>ks'. list_all2 row_ok ks' rs' \<and> sorted_wrt (<) ks' \<and> set ks' \<subseteq> insert (row_key t) (set ks)) \<and>
        set (concat rs') = insert t {x \<in> set (concat rs). \<not> same_entry t x}"
  using assms
proof (induction ks rs rule: list_all2_induct)
  case Nil
  have "list_all2 row_ok [row_key t] [[t]]" by (simp add: row_ok_def)
  then show ?case by (auto intro!: exI [of _ "[row_key t]"])
next
  case (Cons k ks r rs)
  have rk: "row_key x = k" if "x \<in> set r" for x using Cons.hyps(1) that by (simp add: row_ok_def)
  have rsk: "row_key x \<in> set ks" if "x \<in> set (concat rs)" for x
  proof -
    from that obtain r' where r': "r' \<in> set rs" "x \<in> set r'" by auto
    then obtain i where i: "i < length rs" "r' = rs ! i" by (auto simp: in_set_conv_nth)
    with Cons.hyps(2) have "row_ok (ks ! i) r'" "i < length ks" by (auto simp: list_all2_conv_all_nth)
    with r'(2) show ?thesis by (auto simp: row_ok_def)
  qed
  have sk: "\<And>k'. k' \<in> set ks \<Longrightarrow> k < k'" "sorted_wrt (<) ks" using Cons.prems by auto
  note IH = Cons.IH [OF sk(2)]
  consider (lt) "k < row_key t" | (eq) "k = row_key t" | (gt) "row_key t < k" by (metis linorder_cases)
  then show ?case
  proof cases
    case lt
    then have ne: "\<not> same_entry t x" if "x \<in> set r" for x using rk [OF that] by (auto simp: same_entry_def)
    show ?thesis
    proof (cases "ins_rows replace t rs")
      case None
      with IH lt row_ok_hd [OF Cons.hyps(1)] show ?thesis by auto
    next
      case (Some rs')
      with IH obtain ks' where ks': "list_all2 row_ok ks' rs'" "sorted_wrt (<) ks'" "set ks' \<subseteq> insert (row_key t) (set ks)"
        and rs': "set (concat rs') = insert t {x \<in> set (concat rs). \<not> same_entry t x}"
        and rep: "replace \<or> (\<forall>x\<in>set (concat rs). \<not> same_entry t x)" by auto
      have "sorted_wrt (<) (k # ks')" using ks'(2,3) lt sk(1) by auto
      moreover have "list_all2 row_ok (k # ks') (r # rs')" using ks'(1) Cons.hyps(1) by simp
      moreover have "set (k # ks') \<subseteq> insert (row_key t) (set (k # ks))" using ks'(3) by auto
      moreover have "set (concat (r # rs')) = insert t {x \<in> set (concat (r # rs)). \<not> same_entry t x}"
        using rs' ne by auto
      moreover have "replace \<or> (\<forall>x\<in>set (concat (r # rs)). \<not> same_entry t x)" using rep ne by auto
      moreover have ir: "ins_rows replace t (r # rs) = Some (r # rs')"
        using Some lt row_ok_hd [OF Cons.hyps(1)] by simp
      ultimately show ?thesis unfolding ir option.case by blast
    qed
  next
    case eq
    have ne: "\<not> same_entry t x" if "x \<in> set (concat rs)" for x
      using sk(1) [OF rsk [OF that]] eq by (auto simp: same_entry_def)
    have same: "same_entry t x \<longleftrightarrow> priority x = priority t" if "x \<in> set r" for x
      using rk [OF that] eq by (simp add: same_entry_def)
    have sr: "sorted_wrt (<) (map priority r)" using Cons.hyps(1) by (simp add: row_ok_def)
    have ir: "ins_rows replace t (r # rs) = map_option (\<lambda>r'. r' # rs) (ins_peer replace t r)"
      using eq row_ok_hd [OF Cons.hyps(1)] by simp
    show ?thesis
    proof (cases "ins_peer replace t r")
      case None
      with ins_peer_ok [OF sr, of replace t] have "\<not> replace" "\<exists>x\<in>set r. priority x = priority t" by auto
      then have "\<exists>x\<in>set (concat (r # rs)). same_entry t x" using same by auto
      with \<open>\<not> replace\<close> show ?thesis unfolding ir None option.map option.case by blast
    next
      case (Some r')
      with ins_peer_ok [OF sr, of replace t]
      have r': "r' \<noteq> []" "sorted_wrt (<) (map priority r')" "set r' = insert t {x \<in> set r. priority x \<noteq> priority t}"
        "replace \<or> (\<forall>x\<in>set r. priority x \<noteq> priority t)" by auto
      have "row_ok k r'" using r'(1-3) rk eq by (auto simp: row_ok_def)
      then have "list_all2 row_ok (k # ks) (r' # rs)" using Cons.hyps(2) by simp
      moreover have "set (concat (r' # rs)) = insert t {x \<in> set (concat (r # rs)). \<not> same_entry t x}"
        using r'(3) ne same by auto
      moreover have "replace \<or> (\<forall>x\<in>set (concat (r # rs)). \<not> same_entry t x)" using r'(4) ne same by auto
      ultimately show ?thesis
        unfolding ir Some option.map option.case using Cons.prems eq by blast
    qed
  next
    case gt
    have ne: "\<not> same_entry t x" if "x \<in> set (concat (r # rs))" for x
    proof -
      have "row_key x = k \<or> row_key x \<in> set ks" using that rk rsk by auto
      then have "row_key t < row_key x" using gt sk(1) by (metis order.strict_trans)
      then show ?thesis by (auto simp: same_entry_def)
    qed
    have "list_all2 row_ok (row_key t # k # ks) ([t] # r # rs)" using Cons.hyps by (simp add: row_ok_def)
    moreover have "sorted_wrt (<) (row_key t # k # ks)"
      using Cons.prems gt sk(1) by (auto intro: order.strict_trans)
    moreover have "set (concat ([t] # r # rs)) = insert t {x \<in> set (concat (r # rs)). \<not> same_entry t x}"
      using ne by auto
    moreover have ir: "ins_rows replace t (r # rs) = Some ([t] # r # rs)"
      using gt row_ok_hd [OF Cons.hyps(1)] by auto
    moreover have "set (row_key t # k # ks) \<subseteq> insert (row_key t) (set (k # ks))" by simp
    ultimately show ?thesis unfolding ir option.case using ne by blast
  qed
qed

lemma ins_rows_ok:
  assumes "rows_ok rs"
  shows "case ins_rows replace t rs of
      None \<Rightarrow> \<not> replace \<and> (\<exists>x\<in>set (concat rs). same_entry t x)
    | Some rs' \<Rightarrow> (replace \<or> (\<forall>x\<in>set (concat rs). \<not> same_entry t x)) \<and> rows_ok rs' \<and>
        set (concat rs') = insert t {x \<in> set (concat rs). \<not> same_entry t x}"
proof -
  obtain ks where ks: "list_all2 row_ok ks rs" "sorted_wrt (<) ks" using assms by (auto simp: rows_ok_def)
  show ?thesis using ins_rows_keys [OF ks, of replace t] by (cases "ins_rows replace t rs") (auto simp: rows_ok_def)
qed

lemma ins_peer_length: "ins_peer replace t r = Some r' \<Longrightarrow> length r' \<le> length r + 1"
  by (induction r arbitrary: r') (auto split: if_splits)

lemma ins_rows_length: "ins_rows replace t rs = Some rs' \<Longrightarrow> length (concat rs') \<le> length (concat rs) + 1"
  by (induction rs arbitrary: rs') (auto dest: ins_peer_length split: if_splits)

end
