(* ===== verification/Pbx_Extens_Add.thy ===== *)
theory Pbx_Extens_Add
  imports Pbx_Rows
begin

text \<open>
  \<open>cw_add_extension2\<close> on the heap refines insertion into rows: the pointer assignments of
  every branch, in terms of the lists of addresses they produce.
\<close>

section \<open>Surgery on the lists\<close>

lemma content_simps [simp]:
  "content (x\<lparr>peer := p\<rparr>) = content x" "content (x\<lparr>enext := p\<rparr>) = content x"
  "content (content x) = content x"
  by (simp_all add: content_def)

lemma content_cell_set [simp]:
  "content (cell (set_next p q h) a) = content (cell h a)"
  "content (cell (set_peer p q h) a) = content (cell h a)"
  by (auto simp: cell_def set_next_def set_peer_def split: option.split)

lemma rows_set [simp]: "rows (set_next p q h) ass = rows h ass" "rows (set_peer p q h) ass = rows h ass"
  by (simp_all add: rows_def)

lemma rows_update: "t \<notin> set (concat ass) \<Longrightarrow> rows (h(t := v)) ass = rows h ass"
  by (auto simp: rows_def cell_def)

lemma rows_append [simp]: "rows h (ass @ bss) = rows h ass @ rows h bss"
  by (simp add: rows_def)

lemma rows_Nil [simp]: "rows h [] = []"
  by (simp add: rows_def)

lemma rows_Cons [simp]: "rows h (as # ass) = map (\<lambda>a. content (cell h a)) as # rows h ass"
  by (simp add: rows_def)

definition peers_ok :: "'d heap \<Rightarrow> addr list list \<Rightarrow> bool" where
  "peers_ok h ass \<longleftrightarrow> (\<forall>as\<in>set ass. as \<noteq> [] \<and> seg peer h (head as) as null)"

lemma peers_ok_simps [simp]:
  "peers_ok h []"
  "peers_ok h (as # ass) \<longleftrightarrow> as \<noteq> [] \<and> seg peer h (head as) as null \<and> peers_ok h ass"
  "peers_ok h (ass @ bss) \<longleftrightarrow> peers_ok h ass \<and> peers_ok h bss"
  "peers_ok (set_next p q h) ass = peers_ok h ass"
  by (auto simp: peers_ok_def heap_simps)

lemma peers_ok_update: "t \<notin> set (concat ass) \<Longrightarrow> peers_ok (h(t := v)) ass = peers_ok h ass"
  by (auto simp: peers_ok_def heap_simps)

lemma peers_ok_set_peer: "t \<notin> set (concat ass) \<Longrightarrow> peers_ok (set_peer t q h) ass = peers_ok h ass"
  by (auto simp: peers_ok_def heap_simps)

lemma rep_def': "rep h r ass \<longleftrightarrow> seg enext h r (map head ass) null \<and> peers_ok h ass \<and> distinct (concat ass)"
  by (simp add: rep_def peers_ok_def)

lemma head_in: "as \<noteq> [] \<Longrightarrow> head as \<in> set as"
  by (cases as) simp_all

lemma heads_in: "peers_ok h ass \<Longrightarrow> set (map head ass) \<subseteq> set (concat ass)"
  by (induction ass) (auto simp: head_in)

lemma heads_distinct: "peers_ok h ass \<Longrightarrow> distinct (concat ass) \<Longrightarrow> distinct (map head ass)"
proof (induction ass)
  case (Cons as ass)
  with heads_in [of h ass] head_in [of as] show ?case by auto
qed simp

lemma peers_allocated: "peers_ok h ass \<Longrightarrow> a \<in> set (concat ass) \<Longrightarrow> a \<noteq> null \<and> h a \<noteq> None"
  by (auto simp: peers_ok_def dest: seg_dom)

lemma rep_split:
  assumes "rep h r (pre @ post)"
  shows "seg enext h r (map head pre) (head (map head post))"
    "seg enext h (head (map head post)) (map head post) null"
  using assms seg_head by (auto simp: rep_def heap_simps)

definition hlink :: "addr \<Rightarrow> addr \<Rightarrow> 'd heap \<times> addr \<Rightarrow> 'd heap \<times> addr" where
  "hlink el q hr = (if el \<noteq> null then (set_next el q (fst hr), snd hr) else (fst hr, q))"

lemma link_next_hlink:
  "cells (link_next el q s) = fst (hlink el q (cells s, root s))"
  "root (link_next el q s) = snd (hlink el q (cells s, root s))"
  by (simp_all add: link_next_def hlink_def)

lemma hlink_seg:
  assumes "seg enext h r (map head pre) x" "distinct (map head pre)"
  shows "seg enext (fst (hlink (last_head null pre) q (h, r))) (snd (hlink (last_head null pre) q (h, r))) (map head pre) q"
proof (cases pre rule: rev_cases)
  case (snoc pre' as)
  then have "head as \<noteq> null" using assms(1) by (auto simp: heap_simps split: option.splits)
  then show ?thesis
    using assms seg_relink_next [of h r "map head pre'" "head as"] by (simp add: snoc hlink_def last_head_def)
qed (simp add: hlink_def)

lemma hlink_frame [simp]:
  "rows (fst (hlink el q (h, r))) ass = rows h ass"
  "peers_ok (fst (hlink el q (h, r))) ass = peers_ok h ass"
  "seg peer (fst (hlink el q (h, r))) p as x = seg peer h p as x"
  "content (cell (fst (hlink el q (h, r))) a) = content (cell h a)"
  by (simp_all add: hlink_def heap_simps)

lemma hlink_other: "a \<noteq> el \<Longrightarrow> fst (hlink el q (h, r)) a = h a"
  by (simp add: hlink_def)

lemma hlink_seg_other: "el \<notin> set as \<Longrightarrow> seg enext (fst (hlink el q (h, r))) p as x = seg enext h p as x"
  by (simp add: hlink_def heap_simps)

lemma last_head_in: "pre \<noteq> [] \<Longrightarrow> peers_ok h pre \<Longrightarrow> last_head null pre \<in> set (map head pre) \<and> last_head null pre \<in> set (concat pre)"
  by (cases pre rule: rev_cases) (auto simp: last_head_def head_in)

lemma last_head_notin:
  assumes "peers_ok h (pre @ post)" "distinct (concat (pre @ post))"
  shows "last_head null pre \<notin> set (concat post)"
proof (cases "pre = []")
  case True
  then show ?thesis using peers_allocated [OF assms(1), of null] by auto
next
  case False
  with assms last_head_in [of pre h] show ?thesis by auto
qed

text \<open>Taking a context apart at one row and putting it together again.\<close>

lemma rep_build:
  assumes "seg enext h r (map head pre) a" "h a = Some x" "a \<noteq> null" "enext x = head (map head post)"
    and "seg enext h (head (map head post)) (map head post) null"
    and "peers_ok h pre" "peers_ok h post" "seg peer h (peer x) as null"
    and "distinct (concat (pre @ (a # as) # post))"
  shows "rep h r (pre @ (a # as) # post)"
  using assms by (auto simp: rep_def' heap_simps)

lemma rep_row:
  assumes "rep h r (pre @ (a # as) # post)"
  obtains x where "seg enext h r (map head pre) a" "h a = Some x" "a \<noteq> null" "enext x = head (map head post)"
    "seg enext h (head (map head post)) (map head post) null"
    "peers_ok h pre" "peers_ok h post" "seg peer h (peer x) as null"
    "distinct (concat (pre @ (a # as) # post))"
proof -
  from assms have ok: "peers_ok h (pre @ (a # as) # post)" "distinct (concat (pre @ (a # as) # post))"
    by (simp_all add: rep_def')
  from ok(1) obtain x where x: "h a = Some x" "a \<noteq> null" "seg peer h (peer x) as null"
    by (auto split: option.splits)
  from rep_split(2) [OF assms] x have "seg enext h (enext x) (map head post) null" by simp
  moreover from this have "enext x = head (map head post)" by (rule seg_head)
  ultimately have "enext x = head (map head post)" "seg enext h (head (map head post)) (map head post) null"
    by simp_all
  with that [of x] ok x rep_split(1) [OF assms] show thesis by simp
qed

lemma rep_fresh:
  assumes "rep h r ass" "h t = None"
  shows "t \<notin> set (concat ass)" "t \<notin> set (map head ass)"
  using assms peers_allocated [of h ass t] heads_in [of h ass] by (auto simp: rep_def')

text \<open>A new row between \<open>pre\<close> and \<open>post\<close>.\<close>

lemma rep_new_row:
  assumes r: "rep h r (pre @ post)" and t: "h t = None" "t \<noteq> null" and tmp: "peer tmp = null"
  defines "hr \<equiv> hlink (last_head null pre) t (set_next t (head (map head post)) (h(t \<mapsto> tmp)), r)"
  shows "rep (fst hr) (snd hr) (pre @ [t] # post)"
    "rows (fst hr) (pre @ [t] # post) = rows h pre @ [content tmp] # rows h post"
proof -
  let ?el = "last_head null pre"
  have ok: "peers_ok h pre" "peers_ok h post" and d: "distinct (concat (pre @ post))"
    using r by (auto simp: rep_def')
  have tn: "t \<notin> set (concat pre)" "t \<notin> set (concat post)" "t \<notin> set (map head pre)" "t \<notin> set (map head post)"
    using rep_fresh [OF r t(1)] by auto
  have dh: "distinct (map head pre)" using heads_distinct [OF ok(1)] d by simp
  have elh: "?el \<notin> set (map head post)"
    using last_head_notin [of h pre post] heads_in [OF ok(2)] ok d by auto
  have elt: "t \<noteq> ?el" using tn last_head_in [OF _ ok(1)] t(2) by (cases "pre = []") auto
  have "seg enext (set_next t (head (map head post)) (h(t \<mapsto> tmp))) r (map head pre) (head (map head post))"
    using rep_split(1) [OF r] tn by (simp add: heap_simps)
  from hlink_seg [OF this dh] have 1: "seg enext (fst hr) (snd hr) (map head pre) t"
    by (simp add: hr_def)
  have 2: "fst hr t = Some (tmp\<lparr>enext := head (map head post)\<rparr>)"
    using elt by (simp add: hr_def hlink_other set_next_same)
  have 3: "seg enext (fst hr) (head (map head post)) (map head post) null"
    using rep_split(2) [OF r] tn elh by (simp add: hr_def hlink_seg_other heap_simps)
  have 4: "peers_ok (fst hr) pre" "peers_ok (fst hr) post"
    using ok tn by (simp_all add: hr_def peers_ok_update)
  show "rep (fst hr) (snd hr) (pre @ [t] # post)"
    using d tn t(2) tmp by (intro rep_build [OF 1 2 _ _ 3 4]) auto
  show "rows (fst hr) (pre @ [t] # post) = rows h pre @ [content tmp] # rows h post"
    using tn by (simp add: hr_def rows_update) (simp add: cell_def)
qed

text \<open>Inside a row, after the nonempty part \<open>rpre\<close>: the new cell takes the place of \<open>old\<close>,
  which has no or one element.\<close>

lemma rep_peer:
  fixes tmp :: "'d cw_exten"
  assumes r: "rep h r (pre @ (rpre @ old @ rpost) # post)" "rpre \<noteq> []"
    and t: "h t = None" "t \<noteq> null"
  defines "h' \<equiv> set_peer t (head rpost) (set_peer (last rpre) t (h(t \<mapsto> tmp)))"
  shows "rep h' r (pre @ (rpre @ t # rpost) # post)"
    "rows h' (pre @ (rpre @ t # rpost) # post) =
       rows h pre @ (map (\<lambda>a. content (cell h a)) rpre @ content tmp # map (\<lambda>a. content (cell h a)) rpost) # rows h post"
proof -
  let ?row = "rpre @ t # rpost"
  have ok: "peers_ok h pre" "peers_ok h post" "seg peer h (head rpre) (rpre @ old @ rpost) null"
    and d: "distinct (concat (pre @ (rpre @ old @ rpost) # post))"
    and n: "seg enext h r (map head (pre @ (rpre @ old @ rpost) # post)) null"
    using r by (cases rpre; auto simp: rep_def')+
  have tn: "t \<notin> set (concat (pre @ (rpre @ old @ rpost) # post))" "t \<notin> set (map head (pre @ (rpre @ old @ rpost) # post))"
    using rep_fresh [OF r(1) t(1)] by auto
  obtain rp l where rp: "rpre = rp @ [l]" using r(2) by (cases rpre rule: rev_cases) auto
  have lt: "l \<noteq> t" "l \<notin> set (concat pre)" "l \<notin> set (concat post)" "l \<notin> set rp" "l \<notin> set rpost"
    using tn d by (auto simp: rp)
  have n': "seg enext h' r (map head (pre @ ?row # post)) null"
  proof -
    have "map head (pre @ ?row # post) = map head (pre @ (rpre @ old @ rpost) # post)"
      using r(2) by (cases rpre) auto
    moreover have "seg enext h r hs null \<Longrightarrow> t \<notin> set hs \<Longrightarrow> seg enext h' r hs null" for hs
      by (simp add: h'_def heap_simps)
    from this [OF n tn(2)] calculation show ?thesis by (simp only:)
  qed
  from ok(3) obtain q q' where q: "seg peer h (head rpre) rpre q" "seg peer h q' rpost null"
    by (auto simp: heap_simps)
  then have q': "q' = head rpost" using seg_head by blast
  have trp: "t \<notin> set (rp @ [l])" using tn by (simp add: rp)
  then have "seg peer (h(t \<mapsto> tmp)) (head rpre) (rp @ [l]) q"
    using q(1) unfolding rp by (subst seg_update)
  from seg_relink_peer [OF this lt(4), of t]
  have "seg peer h' (head rpre) rpre t"
    by (simp only: h'_def rp last_snoc seg_set_peer [OF trp])
  moreover have "h' t = Some (tmp\<lparr>peer := head rpost\<rparr>)"
    using lt by (simp add: h'_def rp set_peer_same)
  moreover have "seg peer h' (head rpost) rpost null"
    using q(2) tn lt unfolding q' by (simp add: h'_def rp heap_simps)
  ultimately have "seg peer h' (head rpre) ?row null" using t(2) by (auto simp: heap_simps)
  moreover have "head ?row = head rpre" using r(2) by (cases rpre) auto
  moreover have "peers_ok h' pre" "peers_ok h' post"
    using ok(1,2) tn lt by (simp_all add: h'_def rp peers_ok_set_peer peers_ok_update)
  ultimately have "peers_ok h' (pre @ ?row # post)" by simp
  with n' d tn show "rep h' r (pre @ ?row # post)" by (auto simp: rep_def')
  show "rows h' (pre @ ?row # post) =
       rows h pre @ (map (\<lambda>a. content (cell h a)) rpre @ content tmp # map (\<lambda>a. content (cell h a)) rpost) # rows h post"
    using tn lt by (auto simp: h'_def rows_update) (auto simp: cell_def)
qed

lemma rep_free:
  assumes "rep h r ass" "e \<notin> set (concat ass)"
  shows "rep (h(e := None)) r ass" "rows (h(e := None)) ass = rows h ass"
proof -
  have "e \<notin> set (map head ass)" using assms heads_in [of h ass] unfolding rep_def' by blast
  with assms show "rep (h(e := None)) r ass" by (simp add: rep_def' seg_update peers_ok_update del: set_concat set_map)
  show "rows (h(e := None)) ass = rows h ass" using assms(2) by (rule rows_update)
qed

text \<open>At the head of the row of \<open>e\<close>: the new cell takes over \<open>e\<close>'s place in the list of rows
  and points to \<open>p\<close>, either \<open>e\<close> itself or its successor; \<open>c\<close> says whether \<open>e\<close>'s own
  pointer to the next row is cleared.\<close>

lemma rep_head:
  fixes tmp :: "'d cw_exten" and c :: bool and p :: addr
  assumes r: "rep h r (pre @ (e # as) # post)" and t: "h t = None" "t \<noteq> null" and e: "h e = Some x"
  defines "hr \<equiv> hlink (last_head null pre) t (h(t \<mapsto> tmp), r)"
  defines "h' \<equiv> set_peer t p ((if c then set_next e null else id) (set_next t (enext x) (fst hr)))"
  shows "p = e \<Longrightarrow> rep h' (snd hr) (pre @ (t # e # as) # post)"
    "p = peer x \<Longrightarrow> rep (h'(e := None)) (snd hr) (pre @ (t # as) # post)"
    "content (cell h' t) = content tmp"
    "set bs \<subseteq> set (concat (pre @ (e # as) # post)) \<Longrightarrow>
       map (\<lambda>a. content (cell h' a)) bs = map (\<lambda>a. content (cell h a)) bs"
proof -
  let ?el = "last_head null pre" and ?hp = "map head post"
  obtain n: "seg enext h r (map head pre) e" "e \<noteq> null" "enext x = head ?hp"
      "seg enext h (head ?hp) ?hp null" and po: "peers_ok h pre" "peers_ok h post" "seg peer h (peer x) as null"
      and d: "distinct (concat (pre @ (e # as) # post))"
    using rep_row [OF r] e by (metis option.inject)
  have tn: "t \<notin> set (concat pre)" "t \<notin> set (concat post)" "t \<noteq> e" "t \<notin> set as"
      "t \<notin> set (map head pre)" "t \<notin> set ?hp"
    using rep_fresh [OF r t(1)] by auto
  have en: "e \<notin> set (map head pre)" "e \<notin> set ?hp" "e \<notin> set (concat pre)" "e \<notin> set (concat post)" "e \<notin> set as"
    using d heads_in [OF po(1)] heads_in [OF po(2)] by auto
  have el: "?el = null \<or> ?el \<in> set (concat pre)"
    using last_head_in [OF _ po(1)] by (cases "pre = []") auto
  have disj: "set (concat pre) \<inter> set (concat post) = {}" using d by auto
  have np: "null \<notin> set (concat post)" using peers_allocated [OF po(2), of null] by metis
  have "?el \<notin> set (concat post)"
  proof
    assume in_post: "?el \<in> set (concat post)"
    with np el have "?el \<in> set (concat pre)" by metis
    with in_post disj show False by (metis IntI empty_iff)
  qed
  then have ed1: "?el \<notin> set ?hp" using heads_in [OF po(2)] by blast
  have ed2: "?el \<noteq> e" "?el \<noteq> t" using el en(3) tn(1) n(2) t(2) by metis+
  note ed = ed1 ed2
  have "seg enext (h(t \<mapsto> tmp)) r (map head pre) e" using n(1) tn by (subst seg_update) auto
  from hlink_seg [OF this] heads_distinct [OF po(1)] d
  have "seg enext (fst hr) (snd hr) (map head pre) t" by (simp add: hr_def)
  then have 1: "seg enext h' (snd hr) (map head pre) t"
    using tn(5) en(1) by (cases c) (simp_all add: h'_def seg_next_set_peer seg_set_next)
  have "fst hr t = Some tmp" using ed by (simp add: hr_def hlink_other)
  then have 2: "h' t = Some (tmp\<lparr>enext := head ?hp, peer := p\<rparr>)"
    using tn(3) by (cases c) (simp_all add: h'_def set_peer_same set_next_same n(3))
  have "seg enext (fst hr) (head ?hp) ?hp null"
    using n(4) ed(1) tn(6) by (simp add: hr_def hlink_seg_other seg_update del: set_map)
  then have 3: "seg enext h' (head ?hp) ?hp null"
    using tn(6) en(2) by (cases c) (simp_all add: h'_def seg_next_set_peer seg_set_next del: set_map)
  have 4: "peers_ok h' pre" "peers_ok h' post"
    using po(1,2) tn(1,2)
    by (cases c; simp add: h'_def hr_def peers_ok_set_peer peers_ok_update del: set_concat)+
  have 5: "seg peer h' q bs z = seg peer h q bs z" if "t \<notin> set bs" for q bs z
    using that by (cases c) (simp_all add: h'_def hr_def seg_set_peer seg_peer_set_next seg_update)
  have he: "h' e = Some x \<or> h' e = Some (x\<lparr>enext := null\<rparr>)"
  proof -
    have "fst hr e = Some x" using ed tn e by (simp add: hr_def hlink_other)
    then show ?thesis using tn(3) by (cases c) (simp_all add: h'_def set_next_same)
  qed
  show "rep h' (snd hr) (pre @ (t # e # as) # post)" if "p = e"
    using 5 [of "e # as" e null] po(3) e n(2) that tn d en t(2) 2 3 4
    by (intro rep_build [OF 1 2 t(2) _ 3 4]) auto
  show "rep (h'(e := None)) (snd hr) (pre @ (t # as) # post)" if "p = peer x"
  proof (rule rep_free)
    show "rep h' (snd hr) (pre @ (t # as) # post)"
      using 5 [of as "peer x" null] po(3) that tn d
      by (intro rep_build [OF 1 2 t(2) _ 3 4]) auto
    show "e \<notin> set (concat (pre @ (t # as) # post))" using en tn(3) by auto
  qed
  show "content (cell h' t) = content tmp" using 2 by (simp add: cell_def)
  show "map (\<lambda>a. content (cell h' a)) bs = map (\<lambda>a. content (cell h a)) bs"
    if "set bs \<subseteq> set (concat (pre @ (e # as) # post))"
  proof -
    have "t \<notin> set bs" using rep_fresh(1) [OF r t(1)] that by blast
    moreover have "content (cell h' a) = content (cell (h(t \<mapsto> tmp)) a)" for a
      by (cases c) (simp_all add: h'_def hr_def)
    ultimately show ?thesis by (auto simp: cell_def)
  qed
qed

section \<open>Adding refines insertion into sorted rows\<close>

lemma key_content [simp]: "row_key (content x) = row_key x" "priority (content x) = priority x"
  by (simp_all add: row_key_def content_def)

lemma frame_simps [simp]:
  "cells (hint_added dev hm prio t s) = cells s" "root (hint_added dev hm prio t s) = root s"
  "cells (hint_changed prio e t s) = cells s" "root (hint_changed prio e t s) = root s"
  "root (destroy_cell e s) = root s" "cells (destroy_cell e s) = (cells s)(e := None)"
  "root (put_next p q s) = root s" "cells (put_next p q s) = set_next p q (cells s)"
  "root (put_peer p q s) = root s" "cells (put_peer p q s) = set_peer p q (cells s)"
  by (auto simp: hint_added_def hint_changed_def destroy_cell_def put_next_def put_peer_def split: option.split)

definition no_space :: "string \<Rightarrow> bool" where
  "no_space s \<longleftrightarrow> CHR '' '' \<notin> set s"

lemma ext_strncpy_id: "no_space s \<Longrightarrow> ext_strncpy s (length s + 1) = s"
  by (auto simp: ext_strncpy_def no_space_def filter_id_conv)

lemma new_exten_simps [simp]:
  "content (new_exten con ext prio lab cid ap d reg) = new_exten con ext prio lab cid ap d reg"
  "peer (new_exten con ext prio lab cid ap d reg) = null"
  "enext (new_exten con ext prio lab cid ap d reg) = null"
  "priority (new_exten con ext prio lab cid ap d reg) = prio"
  "no_space ext \<Longrightarrow> exten (new_exten con ext prio lab cid ap d reg) = ext"
  using ext_strncpy_id by (simp_all add: content_def new_exten_def)

lemma set_next_id: "h p = Some x \<Longrightarrow> enext x = q \<Longrightarrow> set_next p q h = h"
  by (auto simp: set_next_def)

lemma set_peer_id: "h p = Some x \<Longrightarrow> peer x = q \<Longrightarrow> set_peer p q h = h"
  by (auto simp: set_peer_def)

text \<open>The state and the rows after an operation.\<close>

definition holds_rows :: "('d, 'c, 'x) ext_state \<Rightarrow> 'd cw_exten list list \<Rightarrow> bool" where
  "holds_rows s rs \<longleftrightarrow> (\<exists>ass. rep (cells s) (root s) ass \<and> rows (cells s) ass = rs)"

lemma head_row_key: "as \<noteq> [] \<Longrightarrow> row_key (hd (map (\<lambda>a. content (cell h a)) as)) = row_key (cell h (head as))"
  by (cases as) simp_all

text \<open>The three places of a new row, and the places inside a row.\<close>

lemma add_new_row:
  fixes tmp :: "'d cw_exten"
  assumes r: "rep (cells s) (root s) (pre @ post)" and t: "cells s t = None" "t \<noteq> null"
    and tmp: "peer tmp = null" "enext tmp = null"
  defines "s1 \<equiv> s\<lparr>cells := (cells s)(t \<mapsto> tmp)\<rparr>"
  shows "holds_rows (link_next (last_head null pre) t (put_next t (head (map head post)) s1))
    (rows (cells s) pre @ [content tmp] # rows (cells s) post)"
  using rep_new_row [OF r t tmp(1)]
  by (auto simp: holds_rows_def link_next_hlink s1_def intro!: exI [of _ "pre @ [t] # post"])

lemma add_inner_peer:
  fixes tmp :: "'d cw_exten"
  assumes r: "rep (cells s) (root s) (pre @ (rpre @ old @ rpost) # post)" "rpre \<noteq> []"
    and t: "cells s t = None" "t \<noteq> null"
  defines "s1 \<equiv> s\<lparr>cells := (cells s)(t \<mapsto> tmp)\<rparr>" and "f \<equiv> (\<lambda>a. content (cell (cells s) a))"
  shows "old = [] \<Longrightarrow> holds_rows (put_peer t (head rpost) (put_peer (last rpre) t s1))
      (rows (cells s) pre @ (map f rpre @ content tmp # map f rpost) # rows (cells s) post)"
    "old = [e] \<Longrightarrow> holds_rows (destroy_cell e (put_peer t (head rpost) (put_peer (last rpre) t s1)))
      (rows (cells s) pre @ (map f rpre @ content tmp # map f rpost) # rows (cells s) post)"
proof -
  note p = rep_peer [OF r t, of tmp]
  show "holds_rows (put_peer t (head rpost) (put_peer (last rpre) t s1))
      (rows (cells s) pre @ (map f rpre @ content tmp # map f rpost) # rows (cells s) post)"
    using p by (auto simp: holds_rows_def s1_def f_def intro!: exI [of _ "pre @ (rpre @ t # rpost) # post"])
  assume old: "old = [e]"
  have "t \<noteq> e" using rep_fresh(1) [OF r(1) t(1)] old by auto
  moreover have "distinct (concat (pre @ (rpre @ [e] @ rpost) # post))" using r(1) old by (simp add: rep_def)
  ultimately have e: "e \<notin> set (concat (pre @ (rpre @ t # rpost) # post))" by auto
  show "holds_rows (destroy_cell e (put_peer t (head rpost) (put_peer (last rpre) t s1)))
      (rows (cells s) pre @ (map f rpre @ content tmp # map f rpost) # rows (cells s) post)"
    using rep_free [OF p(1) e] p(2)
    by (auto simp: holds_rows_def s1_def f_def intro!: exI [of _ "pre @ (rpre @ t # rpost) # post"])
qed

lemma add_head_peer:
  fixes tmp :: "'d cw_exten"
  assumes r: "rep (cells s) (root s) (pre @ (e # as) # post)" and t: "cells s t = None" "t \<noteq> null"
  defines "s1 \<equiv> s\<lparr>cells := (cells s)(t \<mapsto> tmp)\<rparr>" and "f \<equiv> (\<lambda>a. content (cell (cells s) a))"
  shows "holds_rows (insert_peer (last_head null pre) null e t s1)
      (rows (cells s) pre @ (content tmp # map f (e # as)) # rows (cells s) post)"
    "holds_rows (replace_peer prio (last_head null pre) null e t s1)
      (rows (cells s) pre @ (content tmp # map f as) # rows (cells s) post)"
proof -
  let ?el = "last_head null pre"
  obtain x where e: "cells s e = Some x" using rep_row [OF r] by metis
  have et: "t \<noteq> e" using rep_fresh(1) [OF r t(1)] by auto
  have get: "get_next e s1 = enext x" "get_peer e s1 = peer x"
    using et e by (simp_all add: get_next_def get_peer_def s1_def)
  have re: "root s = e" if "?el = null"
  proof (cases "pre = []")
    case True
    with rep_split(2) [of "cells s" "root s" "[]"] r seg_head show ?thesis by (force simp: rep_def)
  next
    case False
    have "peers_ok (cells s) pre" using r by (simp add: rep_def')
    from last_head_in [OF False this] peers_allocated [OF this] that show ?thesis by metis
  qed
  have sub: "rows h' bss = rows (cells s) bss"
    if "\<And>bs. set bs \<subseteq> set (concat (pre @ (e # as) # post)) \<Longrightarrow> map (\<lambda>a. content (cell h' a)) bs = map f bs"
      "set bss \<subseteq> set (pre @ (e # as) # post)" for h' bss
    unfolding rows_def
  proof (rule map_cong [OF refl])
    fix bs assume "bs \<in> set bss"
    with that(2) have "set bs \<subseteq> set (concat (pre @ (e # as) # post))" by auto
    from that(1) [OF this] show "map (\<lambda>a. content (cell h' a)) bs = map (\<lambda>a. content (cell (cells s) a)) bs"
      by (simp add: f_def)
  qed
  note hd = rep_head [OF r t e, where tmp = tmp, folded f_def]
  show "holds_rows (insert_peer ?el null e t s1)
      (rows (cells s) pre @ (content tmp # map f (e # as)) # rows (cells s) post)"
    unfolding holds_rows_def
  proof (intro exI [of _ "pre @ (t # e # as) # post"] conjI)
    define c where "c = (?el \<noteq> null)"
    define h' where "h' = set_peer t e ((if c then set_next e null else id)
      (set_next t (enext x) (fst (hlink ?el t ((cells s)(t \<mapsto> tmp), root s)))))"
    have s': "cells (insert_peer ?el null e t s1) = h'"
      "root (insert_peer ?el null e t s1) = snd (hlink ?el t ((cells s)(t \<mapsto> tmp), root s))"
      using re get by (auto simp: insert_peer_def h'_def c_def hlink_def s1_def)
    show "rep (cells (insert_peer ?el null e t s1)) (root (insert_peer ?el null e t s1)) (pre @ (t # e # as) # post)"
      using hd(1) [where p = e and c = c] by (simp add: s' h'_def)
    have m: "map (\<lambda>a. content (cell h' a)) bs = map f bs"
      if "set bs \<subseteq> set (concat (pre @ (e # as) # post))" for bs
      using hd(4) [OF that, where p = e and c = c] by (simp add: h'_def)
    have "map (\<lambda>a. content (cell h' a)) (t # e # as) = content tmp # map f (e # as)"
    proof -
      have "content (cell h' t) = content tmp" using hd(3) [where p = e and c = c] by (simp only: h'_def)
      moreover have "map (\<lambda>a. content (cell h' a)) (e # as) = map f (e # as)" by (rule m) auto
      ultimately show ?thesis by simp
    qed
    moreover have "rows h' pre = rows (cells s) pre" "rows h' post = rows (cells s) post"
      by (rule sub [OF m], assumption, auto)+
    ultimately show "rows (cells (insert_peer ?el null e t s1)) (pre @ (t # e # as) # post) =
        rows (cells s) pre @ (content tmp # map f (e # as)) # rows (cells s) post"
      by (simp add: s')
  qed
  show "holds_rows (replace_peer prio ?el null e t s1)
      (rows (cells s) pre @ (content tmp # map f as) # rows (cells s) post)"
    unfolding holds_rows_def
  proof (intro exI [of _ "pre @ (t # as) # post"] conjI)
    define h' where "h' = set_peer t (peer x) ((if False then set_next e null else id)
      (set_next t (enext x) (fst (hlink ?el t ((cells s)(t \<mapsto> tmp), root s)))))"
    have s': "cells (replace_peer prio ?el null e t s1) = h'(e := None)"
      "root (replace_peer prio ?el null e t s1) = snd (hlink ?el t ((cells s)(t \<mapsto> tmp), root s))"
      using get by (auto simp: replace_peer_def Let_def h'_def link_next_hlink s1_def)
    show rp: "rep (cells (replace_peer prio ?el null e t s1)) (root (replace_peer prio ?el null e t s1)) (pre @ (t # as) # post)"
      using hd(2) [where p = "peer x" and c = False] by (simp only: s' h'_def)
    have "e \<notin> set (concat (pre @ (t # as) # post))"
      using rp peers_allocated [of "h'(e := None)" "pre @ (t # as) # post" e] by (auto simp: rep_def' s' simp del: peers_ok_simps)
    then have "rows (h'(e := None)) (pre @ (t # as) # post) = rows h' (pre @ (t # as) # post)" by (rule rows_update)
    moreover have m: "map (\<lambda>a. content (cell h' a)) bs = map f bs"
      if "set bs \<subseteq> set (concat (pre @ (e # as) # post))" for bs
      using hd(4) [OF that, where p = "peer x" and c = False] by (simp add: h'_def)
    have "map (\<lambda>a. content (cell h' a)) (t # as) = content tmp # map f as"
    proof -
      have "content (cell h' t) = content tmp" using hd(3) [where p = "peer x" and c = False] by (simp only: h'_def)
      moreover have "map (\<lambda>a. content (cell h' a)) as = map f as" by (rule m) auto
      ultimately show ?thesis by simp
    qed
    moreover have "rows h' pre = rows (cells s) pre" "rows h' post = rows (cells s) post"
      by (rule sub [OF m], assumption, auto)+
    ultimately show "rows (cells (replace_peer prio ?el null e t s1)) (pre @ (t # as) # post) =
        rows (cells s) pre @ (content tmp # map f as) # rows (cells s) post"
      by (simp add: s')
  qed
qed

lemma holds_rows_cong: "cells s = cells s' \<Longrightarrow> root s = root s' \<Longrightarrow> holds_rows s rs = holds_rows s' rs"
  by (simp add: holds_rows_def)

lemma holds_rows_hint [simp]:
  "holds_rows (hint_added dev hm prio t s) rs = holds_rows s rs"
  "holds_rows (hint_changed prio e t s) rs = holds_rows s rs"
  by (rule holds_rows_cong; simp)+

lemma seg_second: "seg peer h p (as @ a # bs) null \<Longrightarrow> h a \<noteq> None \<and> peer (cell h a) = head bs"
  using seg_head by (auto simp: heap_simps cell_def split: option.splits)

lemma add_in_row_rows:
  fixes tmp :: "'d cw_exten"
  assumes r: "rep (cells s) (root s) (pre @ as # post)" and t: "cells s t = None" "t \<noteq> null"
    and tmp: "peer tmp = null" "priority tmp = prio" "content tmp = tmp" and n: "length as < n"
  defines "s1 \<equiv> s\<lparr>cells := (cells s)(t \<mapsto> tmp)\<rparr>" and "f \<equiv> (\<lambda>a. content (cell (cells s) a))"
  shows "case ins_peer replace tmp (map f as) of
      Some row \<Rightarrow> \<exists>s'. add_in_row n dev hmem replace prio (last_head null pre) (head as) t s1 = Some (None, s') \<and>
        holds_rows s' (rows (cells s) pre @ row # rows (cells s) post)
    | None \<Rightarrow> add_in_row n dev hmem replace prio (last_head null pre) (head as) t s1 = Some (Some EEXIST, destroy_cell t s1)"
proof -
  let ?h1 = "(cells s)(t \<mapsto> tmp)" and ?el = "last_head null pre"
  define rpre where "rpre = takeWhile (\<lambda>a. priority (cell ?h1 a) < prio) as"
  define rest where "rest = dropWhile (\<lambda>a. priority (cell ?h1 a) < prio) as"
  have as: "as = rpre @ rest" by (simp add: rpre_def rest_def)
  have ok: "as \<noteq> []" "seg peer (cells s) (head as) as null" using r by (auto simp: rep_def)
  have tas: "t \<notin> set as" using rep_fresh(1) [OF r t(1)] by auto
  have cell1: "cell ?h1 a = cell (cells s) a" if "a \<in> set as" for a using that tas by (auto simp: cell_def)
  have "seg peer ?h1 (head as) as null" using ok(2) tas by (simp add: seg_update)
  from find_peer_at [OF this n, of prio null]
  have fp: "find_peer n (cells s1) prio null (head as) =
      Some (case rest of [] \<Rightarrow> Last (last0 null rpre)
            | a # _ \<Rightarrow> if priority (cell ?h1 a) = prio then Equal (last0 null rpre) a else Greater (last0 null rpre) a)"
    unfolding peer_at_def Let_def rpre_def [symmetric] rest_def [symmetric] s1_def by simp
  have "priority x < prio" if x: "x \<in> set (map f rpre)" for x
  proof -
    obtain a where a: "a \<in> set rpre" "x = f a" using x by auto
    have "priority (cell ?h1 a) < prio" using set_takeWhileD [OF a(1) [unfolded rpre_def]] by simp
    then show ?thesis using a cell1 [of a] by (simp add: f_def as)
  qed
  then have ins: "ins_peer replace tmp (map f as) = map_option ((@) (map f rpre)) (ins_peer replace tmp (map f rest))"
    using ins_peer_split [of "map f rpre" tmp] tmp(2) by (simp add: as)
  have lnull: "last rpre \<noteq> null" if "rpre \<noteq> []"
    using that seg_dom [OF ok(2), of "last rpre"] by (simp add: as)
  show ?thesis
  proof (cases rest)
    case Nil
    then have rp: "rpre = as" by (simp add: as)
    have "holds_rows (put_peer t null (put_peer (last as) t s1))
        (rows (cells s) pre @ (map f as @ [tmp]) # rows (cells s) post)"
      using add_inner_peer(1) [of s pre as "[]" "[]" post t tmp] r ok(1) t tmp(3) by (simp add: s1_def f_def)
    moreover have "put_peer t null (put_peer (last as) t s1) = put_peer (last as) t s1"
    proof -
      have "set_peer (last as) t ?h1 t = Some tmp" using tas ok(1) by (subst set_peer_other) auto
      from set_peer_id [where h = "set_peer (last as) t ?h1" and p = t and q = null, OF this tmp(1)] show ?thesis by (simp add: put_peer_def s1_def)
    qed
    ultimately show ?thesis
      using ok(1) by (simp add: ins Nil add_in_row_def fp rp last0_def)
  next
    case (Cons a rpost)
    have ca: "cell ?h1 a = cell (cells s) a" using cell1 [of a] Cons as by simp
    have pa: "get_peer a s1 = head rpost"
      using seg_second [of "cells s" "head as" rpre a rpost] ok(2) tas
      by (auto simp: as Cons get_peer_def s1_def cell_def split: option.splits)
    have pf: "priority (f a) = priority (cell (cells s) a)" by (simp add: f_def)
    have r': "rep (cells s) (root s) (pre @ (rpre @ rest) # post)" using r as by simp
    show ?thesis
    proof (cases "priority (cell (cells s) a) = prio")
      case eq: True
      have 1: "ins_peer replace tmp (map f as) = (if replace then Some (map f rpre @ tmp # map f rpost) else None)"
        using eq pf by (simp add: ins Cons tmp(2))
      have "holds_rows (replace_peer prio ?el (last0 null rpre) a t s1)
          (rows (cells s) pre @ (map f rpre @ tmp # map f rpost) # rows (cells s) post)"
      proof (cases "rpre = []")
        case True
        then show ?thesis
          using add_head_peer(2) [of s pre a rpost post t prio tmp] r' t tmp(3) by (simp add: Cons s1_def f_def)
      next
        case False
        have "holds_rows (destroy_cell a (put_peer t (head rpost) (put_peer (last rpre) t s1)))
            (rows (cells s) pre @ (map f rpre @ tmp # map f rpost) # rows (cells s) post)"
          using add_inner_peer(2) [of s pre rpre "[a]" rpost post t a tmp] r' False t tmp(3)
          by (simp add: Cons s1_def f_def)
        then show ?thesis
          using lnull [OF False] False pa
          by (simp add: replace_peer_def Let_def last0_def holds_rows_def)
      qed
      then show ?thesis by (simp add: 1 add_in_row_def fp Cons ca eq)
    next
      case neq: False
      have "\<not> priority (cell (cells s) a) < prio"
        using Cons ca unfolding rest_def dropWhile_eq_Cons_conv by simp
      then have 1: "ins_peer replace tmp (map f as) = Some (map f rpre @ tmp # map f rest)"
        using neq pf by (simp add: ins Cons tmp(2))
      have "holds_rows (insert_peer ?el (last0 null rpre) a t s1)
          (rows (cells s) pre @ (map f rpre @ tmp # map f rest) # rows (cells s) post)"
      proof (cases "rpre = []")
        case True
        then show ?thesis
          using add_head_peer(1) [of s pre a rpost post t tmp] r' t tmp(3) by (simp add: Cons s1_def f_def)
      next
        case False
        have "holds_rows (put_peer t (head rest) (put_peer (last rpre) t s1))
            (rows (cells s) pre @ (map f rpre @ tmp # map f rest) # rows (cells s) post)"
          using add_inner_peer(1) [of s pre rpre "[]" rest post t tmp] r' False t tmp(3)
          by (simp add: s1_def f_def)
        then show ?thesis
          using lnull [OF False] False by (simp add: insert_peer_def last0_def Cons)
      qed
      then show ?thesis by (simp add: 1 add_in_row_def fp Cons ca neq)
    qed
  qed
qed

lemma cw_add_extension2_unlocked:
  "cw_add_extension2 n dev True (Some t) hmem con replace extension prio lab callerid application d reg s =
     (let tmp = new_exten con extension prio lab callerid application d reg;
          s1 = s\<lparr>cells := (cells s)(t \<mapsto> tmp)\<rparr> in
      case find_row n (cells s1) extension tmp null (root s1) of
        None \<Rightarrow> None
      | Some (At_end el) \<Rightarrow> Some (None, hint_added dev hmem prio t (link_next el t s1))
      | Some (Before el e) \<Rightarrow> Some (None, hint_added dev hmem prio t (link_next el t (put_next t e s1)))
      | Some (Same_row el e) \<Rightarrow> add_in_row n dev hmem replace prio el e t s1)"
  by (simp add: cw_add_extension2_def Let_def)

lemma length_rows: "(\<And>as. as \<in> set ass \<Longrightarrow> as \<noteq> []) \<Longrightarrow> length ass \<le> length (concat ass)"
proof (induction ass)
  case (Cons as ass)
  then have "as \<noteq> []" by simp
  then have "1 \<le> length as" by (cases as) auto
  with Cons show ?case by simp
qed simp

lemma length_concat_rows: "length (concat (rows h ass)) = length (concat ass)"
  by (induction ass) simp_all

lemma cw_add_extension2_rows:
  fixes s :: "('d, 'c, 'x) ext_state"
  assumes r: "holds_rows s rs" and t: "cells s t = None" "t \<noteq> null" and ns: "no_space extension"
    and n: "length (concat rs) < n"
    and tmp_def: "tmp = new_exten con extension prio lab callerid application d reg"
  shows "case ins_rows replace tmp rs of
      Some rs' \<Rightarrow> \<exists>s'. cw_add_extension2 n dev True (Some t) hmem con replace extension prio lab callerid
                        application d reg s = Some (None, s') \<and> holds_rows s' rs'
    | None \<Rightarrow> cw_add_extension2 n dev True (Some t) hmem con replace extension prio lab callerid
                application d reg s = Some (Some EEXIST, s\<lparr>destroyed := destroyed s @ [d]\<rparr>)"
proof -
  let ?h = "cells s" and ?h1 = "(cells s)(t \<mapsto> tmp)" and ?P = "\<lambda>as. row_key (cell ((cells s)(t \<mapsto> tmp)) (head as)) < row_key tmp"
  let ?s1 = "s\<lparr>cells := (cells s)(t \<mapsto> tmp)\<rparr>" and ?f = "\<lambda>a. content (cell (cells s) a)"
  obtain ass where rp: "rep ?h (root s) ass" and rs: "rs = rows ?h ass" using r by (auto simp: holds_rows_def)
  have tmp: "peer tmp = null" "enext tmp = null" "priority tmp = prio" "content tmp = tmp" "exten tmp = extension"
    using ns by (simp_all add: tmp_def)
  have ne: "as \<noteq> []" if "as \<in> set ass" for as using rp that by (auto simp: rep_def)
  have th: "t \<notin> set (map head ass)" by (rule rep_fresh(2) [OF rp t(1)])
  have cell1: "cell ?h1 (head as) = cell ?h (head as)" if "as \<in> set ass" for as
    using th that by (auto simp: cell_def)
  define pre rest where "pre = takeWhile ?P ass" and "rest = dropWhile ?P ass"
  have ass: "ass = pre @ rest" by (simp add: pre_def rest_def)
  have len: "length ass < n" "\<And>as. as \<in> set ass \<Longrightarrow> length as < n"
  proof -
    show "length ass < n" using length_rows [of ass, OF ne] n by (simp add: rs length_concat_rows)
    fix as assume "as \<in> set ass"
    then obtain a b where "ass = a @ as # b" by (meson split_list)
    then show "length as < n" using n by (simp add: rs length_concat_rows)
  qed
  have "seg enext ?h1 (root s) (map head ass) null" using rp th by (simp add: rep_def seg_update del: set_map)
  from find_row_place [OF this len(1) tmp(5), of null]
  have fr: "find_row n (cells ?s1) extension tmp null (root ?s1) =
      Some (case rest of [] \<Rightarrow> At_end (last_head null pre)
            | as # _ \<Rightarrow> if row_key (cell ?h1 (head as)) = row_key tmp then Same_row (last_head null pre) (head as)
                       else Before (last_head null pre) (head as))"
    unfolding row_place_def Let_def pre_def [symmetric] rest_def [symmetric] by simp
  have "row_key (hd row) < row_key tmp" if row: "row \<in> set (rows ?h pre)" for row
  proof -
    obtain as where as: "as \<in> set pre" "row = map ?f as" using row by (auto simp: rows_def)
    have "?P as" using set_takeWhileD [OF as(1) [unfolded pre_def]] by simp
    then show ?thesis using as head_row_key [of as ?h] ne cell1 ass by simp
  qed
  then have ins: "ins_rows replace tmp rs = map_option ((@) (rows ?h pre)) (ins_rows replace tmp (rows ?h rest))"
    using ins_rows_split [of "rows ?h pre" tmp] by (simp add: rs ass)
  note add = cw_add_extension2_unlocked [of n dev t hmem con replace extension prio lab callerid application d reg s,
      folded tmp_def, unfolded Let_def fr]
  show ?thesis
  proof (cases rest)
    case Nil
    have "put_next t null ?s1 = ?s1" using set_next_id [of ?h1 t tmp null] tmp(2) by (simp add: put_next_def)
    with add_new_row [of s pre "[]" t tmp] rp t tmp
    have "holds_rows (link_next (last_head null pre) t ?s1) (rows ?h pre @ [[tmp]])" by (simp add: ass Nil rows_def)
    then show ?thesis by (simp add: ins add Nil rows_def)
  next
    case (Cons as post)
    have as: "as \<in> set ass" "as \<noteq> []" using ne by (simp_all add: ass Cons)
    have key: "row_key (hd (map ?f as)) = row_key (cell ?h1 (head as))"
      using head_row_key [OF as(2), of ?h] cell1 [OF as(1)] by simp
    have rp': "rep ?h (root s) (pre @ as # post)" using rp ass Cons by simp
    show ?thesis
    proof (cases "row_key (cell ?h1 (head as)) = row_key tmp")
      case True
      have "ins_rows replace tmp (rows ?h rest) = map_option (\<lambda>r'. r' # rows ?h post) (ins_peer replace tmp (map ?f as))"
        using key True by (simp add: Cons)
      moreover have "destroy_cell t ?s1 = s\<lparr>destroyed := destroyed s @ [d]\<rparr>"
      proof -
        have "app_data tmp = d" by (simp add: tmp_def new_exten_def)
        moreover have "?h(t := None) = ?h" using t(1) by auto
        ultimately show ?thesis by (simp add: destroy_cell_def)
      qed
      ultimately show ?thesis
        using add_in_row_rows [OF rp' t tmp(1,3,4) len(2) [OF as(1)], where replace = replace and dev = dev and hmem = hmem] True
        by (cases "ins_peer replace tmp (map ?f as)") (simp_all add: ins add Cons)
    next
      case False
      have "\<not> ?P as" using Cons unfolding rest_def dropWhile_eq_Cons_conv by simp
      with False key have "ins_rows replace tmp (rows ?h rest) = Some ([tmp] # rows ?h rest)" by (simp add: Cons)
      moreover have "holds_rows (link_next (last_head null pre) t (put_next t (head as) ?s1))
          (rows ?h pre @ [tmp] # rows ?h rest)"
        using add_new_row [of s pre rest t tmp] rp t tmp by (simp add: ass Cons)
      ultimately show ?thesis using False by (simp add: ins add Cons)
    qed
  qed
qed

section \<open>Properties\<close>

text \<open>
  C10. Adding an extension to a context refines insertion into a sorted table: from a
  well-formed list of lists, with a fresh cell and a name without blanks, the routine
  returns with a well-formed list of lists that is again sorted by pattern, name, caller id
  and priority and holds the new entry beside the old ones of other priorities; the same
  entry is replaced on request and otherwise refused with \<open>EEXIST\<close>, the context unchanged.
  Every walk ends after at most as many steps as there are cells.
\<close>

theorem add_extension_refines:
  fixes s :: "('d, 'c, 'x) ext_state"
  assumes "holds_rows s rs" "rows_ok rs" "cells s t = None" "t \<noteq> null" "no_space extension"
    and "length (concat rs) < n"
    and "tmp = new_exten con extension prio lab callerid application d reg"
    and "r = cw_add_extension2 n dev True (Some t) hmem con replace extension prio lab callerid application d reg s"
  shows "if \<not> replace \<and> (\<exists>x\<in>set (concat rs). same_entry tmp x)
    then r = Some (Some EEXIST, s\<lparr>destroyed := destroyed s @ [d]\<rparr>)
    else \<exists>s' rs'. r = Some (None, s') \<and> holds_rows s' rs' \<and> rows_ok rs' \<and>
           set (concat rs') = insert tmp {x \<in> set (concat rs). \<not> same_entry tmp x}"
proof (cases "ins_rows replace tmp rs")
  case None
  then show ?thesis
    using cw_add_extension2_rows [OF assms(1,3,4,5,6,7), where replace = replace and dev = dev and hmem = hmem] ins_rows_ok [OF assms(2), of replace tmp] assms(8)
    by simp
next
  case (Some rs')
  with ins_rows_ok [OF assms(2), of replace tmp]
  have ok: "replace \<or> (\<forall>x\<in>set (concat rs). \<not> same_entry tmp x)" "rows_ok rs'"
    "set (concat rs') = insert tmp {x \<in> set (concat rs). \<not> same_entry tmp x}" by auto
  obtain s' where s': "r = Some (None, s')" "holds_rows s' rs'"
    using cw_add_extension2_rows [OF assms(1,3,4,5,6,7), where replace = replace and dev = dev and hmem = hmem] Some assms(8) by auto
  have "\<not> (\<not> replace \<and> (\<exists>x\<in>set (concat rs). same_entry tmp x))" using ok(1) by blast
  with s' ok(2,3) show ?thesis by (simp only: if_False) blast
qed

definition empty_context :: "(nat, nat, nat) ext_state" where
  "empty_context =
     \<lparr>cells = (\<lambda>a. None), root = null,
      hint_st = \<lparr>hints = [], statecbs = [], stateid = 1, hintlock = 0, notified = []\<rparr>, destroyed = []\<rparr>"

lemma holds_rows_empty: "holds_rows empty_context []"
  by (auto simp: holds_rows_def rep_def empty_context_def intro!: exI [of _ "[]"])

theorem add_extension_refines_witness:
  "\<exists>s' rs'. cw_add_extension2 1 (\<lambda>d. 0) True (Some 1) True ''default'' False ''100'' 1 None None ''Dial'' 7 ''demo'' empty_context
      = Some (None, s') \<and> holds_rows s' rs' \<and>
      set (concat rs') = {new_exten ''default'' ''100'' 1 None None ''Dial'' 7 ''demo''}"
proof -
  have "rows_ok ([] :: nat cw_exten list list)" by (auto simp: rows_ok_def)
  from add_extension_refines [where t = 1 and n = 1 and extension = "''100''" and replace = False
      and con = "''default''" and prio = 1 and lab = None and callerid = None and application = "''Dial''" and d = 7
      and reg = "''demo''" and dev = "\<lambda>d. 0" and hmem = True, OF holds_rows_empty this _ _ _ _ refl refl]
  show ?thesis by (auto simp: empty_context_def no_space_def)
qed

end
