(* ===== verification/Pbx_Search.thy ===== *)
theory Pbx_Search
  imports Pbx_Find Pbx_Extens_Add
begin

text \<open>
  Properties of the search of \<open>Pbx_Find\<close>: it always returns, what it finds belongs to a
  context that the includes reach, and it finds whatever the includes reach.
\<close>

section \<open>What the search looks for\<close>

definition dialplan_ok :: "nat \<Rightarrow> 'd heap \<Rightarrow> cw_context list \<Rightarrow> bool" where
  "dialplan_ok n h cons \<longleftrightarrow> (\<forall>c\<in>set cons. \<exists>ass. rep h (con_root c) ass \<and> length (concat ass) < n)"

text \<open>The cell \<open>a\<close> of the context answers the query.\<close>

definition con_hit :: "'d heap \<Rightarrow> query \<Rightarrow> cw_context \<Rightarrow> addr \<Rightarrow> bool" where
  "con_hit h q c a \<longleftrightarrow>
     (\<exists>ass. rep h (con_root c) ass \<and>
       (\<exists>as\<in>set ass. a \<in> set as \<and> enters q (cell h (head as)) \<and> answers q (cell h a)))"

text \<open>One valid include leads from a context to another.\<close>

definition included :: "tm \<Rightarrow> cw_context list \<Rightarrow> cw_context \<Rightarrow> cw_context \<Rightarrow> bool" where
  "included t cons c d \<longleftrightarrow>
     (\<exists>i\<in>set (con_includes c). include_valid t i \<and> this_context cons None (Some (rname i)) = Some d)"

inductive con_reach :: "tm \<Rightarrow> cw_context list \<Rightarrow> cw_context \<Rightarrow> cw_context \<Rightarrow> bool" for t cons where
  reach_here: "con_reach t cons c c"
| reach_include: "included t cons c d \<Longrightarrow> con_reach t cons d e \<Longrightarrow> con_reach t cons c e"

inductive_cases con_reach_cases: "con_reach t cons c e"

lemma rep_unique:
  assumes "rep h r ass" "rep h r bss"
  shows "ass = bss"
proof -
  have m: "map head ass = map head bss" using seg_unique assms by (metis rep_def)
  then have l: "length ass = length bss" by (metis length_map)
  have "ass ! i = bss ! i" if i: "i < length ass" for i
  proof -
    have "head (ass ! i) = head (bss ! i)" using m i l by (metis nth_map)
    moreover have "seg peer h (head (ass ! i)) (ass ! i) null" "seg peer h (head (bss ! i)) (bss ! i) null"
      using assms i l by (auto simp: rep_def)
    ultimately show ?thesis using seg_unique by metis
  qed
  with l show ?thesis by (simp add: list_eq_iff_nth_eq)
qed

text \<open>The search of one context of a well-formed dialplan.\<close>

lemma find_in_rows_con:
  assumes "dialplan_ok n h cons" "c \<in> set cons"
  obtains e early st' where "find_in_rows n n h q (con_root c) False st = Some (e, early, st')"
    "\<And>a. e = Some a \<Longrightarrow> con_hit h q c a" "e = None \<Longrightarrow> \<not> con_hit h q c a'"
    "e = None \<Longrightarrow> q_action q \<noteq> HELPER_MATCHMORE \<Longrightarrow> \<not> early"
proof -
  from assms obtain ass where ass: "rep h (con_root c) ass" "length (concat ass) < n"
    by (auto simp: dialplan_ok_def)
  obtain early st' where
    f: "find_in_rows n n h q (con_root c) False st = Some (first_hit h q ass, early, st')"
      "first_hit h q ass = None \<longrightarrow> early \<longrightarrow> (\<exists>as\<in>set ass. early_row q (cell h (head as)))"
    by (rule find_in_rows_rep [OF ass, of q st])
  show ?thesis
  proof (rule that [OF f(1)])
    show "con_hit h q c a" if "first_hit h q ass = Some a" for a
      using first_hit_Some [OF that] ass(1) by (auto simp: con_hit_def)
    show "\<not> con_hit h q c a'" if "first_hit h q ass = None"
      using that ass(1) rep_unique [OF ass(1)] unfolding first_hit_None con_hit_def by blast
    show "\<not> early" if "first_hit h q ass = None" "q_action q \<noteq> HELPER_MATCHMORE"
      using that f(2) by (auto simp: early_row_def)
  qed
qed

section \<open>The search returns\<close>

lemma enter_search_simps [simp]:
  "incstack (enter_search st) = incstack st" "foundcontext (enter_search st) = foundcontext st"
  "swo st = None \<Longrightarrow> swo (enter_search st) = None"
  by (simp_all add: enter_search_def)

lemma this_context_in: "this_context cons None v = Some c \<Longrightarrow> c \<in> set cons"
  by (auto simp: this_context_def dest: find_SomeD)

definition byp_ok :: "cw_context list \<Rightarrow> cw_context option \<Rightarrow> bool" where
  "byp_ok cons b \<longleftrightarrow> (case b of None \<Rightarrow> True | Some c \<Rightarrow> c \<in> set cons)"

lemma this_context_byp: "byp_ok cons b \<Longrightarrow> this_context cons b v = Some c \<Longrightarrow> c \<in> set cons"
  by (cases b) (simp_all add: byp_ok_def this_context_in, simp add: this_context_def)

text \<open>The four ways one level of the search goes on.\<close>

lemma find_cases [consumes 2, case_names stop hit other descend]:
  assumes "dialplan_ok n h cons" "byp_ok cons bypass"
  obtains
    (stop) "pbx_find_extension (Suc k) n env h cons bypass q v st = Some (None, enter_search st)"
      "CW_PBX_MAX_STACK \<le> length (incstack st) \<or> on_stack v (incstack st) \<or> this_context cons bypass v = None"
  | (hit) c a st' where "pbx_find_extension (Suc k) n env h cons bypass q v st = Some (Some a, st')"
      "this_context cons bypass v = Some c" "con_hit h q c a" "foundcontext st' = v" "incstack st' = incstack st"
  | (other) st' where "pbx_find_extension (Suc k) n env h cons bypass q v st = Some (None, st')"
      "swo st' \<noteq> None \<or> q_action q = HELPER_MATCHMORE" "incstack st' = incstack st"
  | (descend) c st' where
      "pbx_find_extension (Suc k) n env h cons bypass q v st =
         find_in_includes k n env h cons bypass q (con_includes c) st'"
      "this_context cons bypass v = Some c" "incstack st' = incstack st @ [con_name c]"
      "length (incstack st) < CW_PBX_MAX_STACK" "\<not> on_stack v (incstack st)" "\<forall>a. \<not> con_hit h q c a"
      "swo st = None \<Longrightarrow> swo st' = None"
proof (cases "CW_PBX_MAX_STACK \<le> length (incstack st) \<or> on_stack v (incstack st) \<or> this_context cons bypass v = None")
  case True
  then show ?thesis by (intro stop) (auto simp: Let_def)
next
  case False
  then obtain c where c: "this_context cons bypass v = Some c" by auto
  let ?st = "enter_search st"
  obtain e early status where f: "find_in_rows n n h q (con_root c) False (raise_status (fstatus ?st) STATUS_NO_EXTENSION)
        = Some (e, early, status)"
    and e: "\<And>a. e = Some a \<Longrightarrow> con_hit h q c a" "\<And>a. e = None \<Longrightarrow> \<not> con_hit h q c a"
      "e = None \<Longrightarrow> q_action q \<noteq> HELPER_MATCHMORE \<Longrightarrow> \<not> early"
    using find_in_rows_con [OF assms(1) this_context_byp [OF assms(2) c]] by metis
  show ?thesis
  proof (cases e)
    case (Some a)
    with False c f e(1) show ?thesis
      by (intro hit [of a "?st\<lparr>fstatus := status, foundcontext := v\<rparr>" c]) (auto simp: Let_def)
  next
    case None
    show ?thesis
    proof (cases early)
      case True
      with None False c f e(3) show ?thesis by (intro other [of "?st\<lparr>fstatus := status\<rparr>"]) (auto simp: Let_def)
    next
      case early: False
      show ?thesis
      proof (cases "find_in_switches env q v (alts c)")
        case (Some x)
        obtain w d where "x = (w, d)" by (cases x)
        with Some None False c f early show ?thesis
          by (intro other [of "?st\<lparr>fstatus := status, swo := Some w, fdata := Some d, foundcontext := v\<rparr>"])
            (auto simp: Let_def)
      next
        case none: None
        with None False c f early e(2) show ?thesis
          by (intro descend [of c "?st\<lparr>fstatus := status, incstack := incstack st @ [con_name c]\<rparr>"]) (auto simp: Let_def)
      qed
    qed
  qed
qed

text \<open>The fuel is enough: every level pushes a name, and a full stack ends the search.\<close>

definition roomy :: "nat \<Rightarrow> find_state \<Rightarrow> bool" where
  "roomy k st \<longleftrightarrow> length (incstack st) \<le> CW_PBX_MAX_STACK \<and> CW_PBX_MAX_STACK < k + length (incstack st)"

lemma roomy_more: "roomy k st \<Longrightarrow> length (incstack st) \<le> length (incstack st') \<Longrightarrow>
    length (incstack st') \<le> CW_PBX_MAX_STACK \<Longrightarrow> roomy k st'"
  by (simp add: roomy_def)

lemma includes_returns:
  assumes "\<And>v st. roomy k st \<Longrightarrow>
      \<exists>r st'. pbx_find_extension k n env h cons bypass q v st = Some (r, st') \<and>
        length (incstack st) \<le> length (incstack st') \<and> length (incstack st') \<le> CW_PBX_MAX_STACK"
    and "roomy k st"
  shows "\<exists>r st'. find_in_includes k n env h cons bypass q is st = Some (r, st') \<and>
        length (incstack st) \<le> length (incstack st') \<and> length (incstack st') \<le> CW_PBX_MAX_STACK"
  using assms(2)
proof (induction "is" arbitrary: st)
  case (Cons i "is")
  obtain r st' where f: "pbx_find_extension k n env h cons bypass q (Some (rname i)) st = Some (r, st')"
      "length (incstack st) \<le> length (incstack st')" "length (incstack st') \<le> CW_PBX_MAX_STACK"
    using assms(1) [OF Cons.prems] by blast
  obtain r2 st2 where g: "find_in_includes k n env h cons bypass q is st' = Some (r2, st2)"
      "length (incstack st') \<le> length (incstack st2)" "length (incstack st2) \<le> CW_PBX_MAX_STACK"
    using Cons.IH roomy_more [OF Cons.prems f(2,3)] by blast
  show ?case
  proof (cases "include_valid (now env) i \<and> r = None \<and> swo st' = None")
    case True
    with f g show ?thesis by simp
  next
    case False
    with f g Cons.IH [OF Cons.prems] show ?thesis by (cases "include_valid (now env) i"; cases r) auto
  qed
qed (simp add: roomy_def)

lemma find_returns:
  assumes "dialplan_ok n h cons" "byp_ok cons bypass"
  shows "roomy k st \<Longrightarrow>
    \<exists>r st'. pbx_find_extension k n env h cons bypass q v st = Some (r, st') \<and>
      length (incstack st) \<le> length (incstack st') \<and> length (incstack st') \<le> CW_PBX_MAX_STACK"
proof (induction k arbitrary: v st)
  case (Suc k)
  then have st: "length (incstack st) \<le> CW_PBX_MAX_STACK" by (simp add: roomy_def)
  from assms show ?case
  proof (cases rule: find_cases [where k = k and env = env and q = q and v = v and st = st])
    case (descend c st')
    with Suc.prems have "roomy k st'" by (auto simp: roomy_def)
    with includes_returns [OF Suc.IH, of st' "con_includes c"] descend(1,3) show ?thesis by auto
  qed (use st in auto)
qed (auto simp: roomy_def)

lemma search_total:
  assumes "dialplan_ok n (pbx_cells s) (contexts s)" "byp_ok (contexts s) bypass"
  obtains r st where "search n env s bypass q v = Some (r, st)" "length (incstack st) \<le> CW_PBX_MAX_STACK"
proof -
  have "roomy (CW_PBX_MAX_STACK + 1) initial_find" by (simp add: roomy_def initial_find_def)
  from find_returns [OF assms this] that show ?thesis unfolding search_def by blast
qed

section \<open>What is found belongs to a reachable context\<close>

definition found_at :: "tm \<Rightarrow> 'd heap \<Rightarrow> cw_context list \<Rightarrow> query \<Rightarrow> string option \<Rightarrow> addr \<Rightarrow> string option \<Rightarrow> bool" where
  "found_at t h cons q v a fc \<longleftrightarrow>
     (\<exists>c0 c. this_context cons None v = Some c0 \<and> con_reach t cons c0 c \<and> con_hit h q c a \<and>
       this_context cons None fc = Some c)"

lemma includes_sound:
  assumes "\<And>v st a st'. pbx_find_extension k n env h cons None q v st = Some (Some a, st') \<Longrightarrow>
      found_at (now env) h cons q v a (foundcontext st')"
    and "find_in_includes k n env h cons None q is st = Some (Some a, st')"
  shows "\<exists>i\<in>set is. include_valid (now env) i \<and> found_at (now env) h cons q (Some (rname i)) a (foundcontext st')"
  using assms(2)
proof (induction "is" arbitrary: st)
  case (Cons i "is")
  show ?case
  proof (cases "include_valid (now env) i")
    case True
    with Cons.prems obtain r st1 where r: "pbx_find_extension k n env h cons None q (Some (rname i)) st = Some (r, st1)"
      by (auto split: option.splits)
    show ?thesis
    proof (cases r)
      case (Some b)
      with Cons.prems True r have "b = a" "st1 = st'" by auto
      with assms(1) r Some True show ?thesis by auto
    next
      case None
      with Cons.prems True r have "find_in_includes k n env h cons None q is st1 = Some (Some a, st')"
        by (auto split: if_splits)
      with Cons.IH show ?thesis by auto
    qed
  next
    case False
    with Cons.prems Cons.IH show ?thesis by auto
  qed
qed simp

lemma find_sound:
  assumes "dialplan_ok n h cons"
  shows "pbx_find_extension k n env h cons None q v st = Some (Some a, st') \<Longrightarrow>
    found_at (now env) h cons q v a (foundcontext st')"
proof (induction k arbitrary: v st a st')
  case (Suc k)
  have b: "byp_ok cons None" by (simp add: byp_ok_def)
  from assms b show ?case
  proof (cases rule: find_cases [where k = k and env = env and q = q and v = v and st = st])
    case (hit c b st2)
    with Suc.prems show ?thesis by (auto simp: found_at_def intro: reach_here)
  next
    case (descend c st2)
    with Suc.prems have "find_in_includes k n env h cons None q (con_includes c) st2 = Some (Some a, st')" by simp
    then have "\<exists>i\<in>set (con_includes c). include_valid (now env) i \<and>
        found_at (now env) h cons q (Some (rname i)) a (foundcontext st')"
      by (rule includes_sound [rotated]) (rule Suc.IH)
    then obtain i where i: "i \<in> set (con_includes c)" "include_valid (now env) i"
        "found_at (now env) h cons q (Some (rname i)) a (foundcontext st')" by blast
    then obtain d e where d: "this_context cons None (Some (rname i)) = Some d" "con_reach (now env) cons d e"
        "con_hit h q e a" "this_context cons None (foundcontext st') = Some e" by (auto simp: found_at_def)
    with i(1,2) have "included (now env) cons c d" by (auto simp: included_def)
    with d have "con_reach (now env) cons c e" by (auto intro: reach_include)
    with d descend(2) show ?thesis by (auto simp: found_at_def)
  qed (use Suc.prems in auto)
qed simp

section \<open>Whatever is reachable is found\<close>

text \<open>The names in use are told apart: looking up the start or an include yields the context of
  exactly that name, and no two contexts have names equal up to case.\<close>

definition names_exact :: "cw_context list \<Rightarrow> string \<Rightarrow> bool" where
  "names_exact cons v \<longleftrightarrow>
     (\<forall>r \<in> insert v (rname ` (\<Union>c\<in>set cons. set (con_includes c))). \<forall>c. this_context cons None (Some r) = Some c \<longrightarrow> con_name c = r) \<and>
     (\<forall>c\<in>set cons. \<forall>d\<in>set cons. strcasecmp (con_name c) (con_name d) = 0 \<longrightarrow> c = d)"

definition used_name :: "cw_context list \<Rightarrow> string \<Rightarrow> string \<Rightarrow> bool" where
  "used_name cons v r \<longleftrightarrow> r \<in> insert v (rname ` (\<Union>c\<in>set cons. set (con_includes c)))"

lemma names_exactD:
  "names_exact cons v \<Longrightarrow> used_name cons v r \<Longrightarrow> this_context cons None (Some r) = Some c \<Longrightarrow> con_name c = r"
  "names_exact cons v \<Longrightarrow> c \<in> set cons \<Longrightarrow> d \<in> set cons \<Longrightarrow> strcasecmp (con_name c) (con_name d) = 0 \<Longrightarrow> c = d"
  unfolding names_exact_def used_name_def by blast+

definition stack_ok :: "cw_context list \<Rightarrow> string list \<Rightarrow> bool" where
  "stack_ok cons stack \<longleftrightarrow> distinct stack \<and> set stack \<subseteq> con_name ` set cons"

text \<open>A full stack holds the names of all contexts.\<close>

lemma stack_full:
  assumes "stack_ok cons stack" "length cons \<le> CW_PBX_MAX_STACK" "CW_PBX_MAX_STACK \<le> length stack" "c \<in> set cons"
  shows "con_name c \<in> set stack"
proof -
  have "card (con_name ` set cons) \<le> length cons" by (metis card_image_le card_length finite_set le_trans)
  also have "\<dots> \<le> card (set stack)" using assms by (simp add: stack_ok_def distinct_card)
  finally have "set stack = con_name ` set cons" using assms(1)
    by (intro card_seteq) (auto simp: stack_ok_def)
  then show ?thesis using assms(4) by simp
qed

text \<open>\<open>explored\<close>: the names pushed between two states belong to contexts without an answer
  whose includes have all been visited.\<close>

definition explored :: "tm \<Rightarrow> 'd heap \<Rightarrow> cw_context list \<Rightarrow> query \<Rightarrow> string list \<Rightarrow> string list \<Rightarrow> bool" where
  "explored t h cons q old new \<longleftrightarrow> stack_ok cons new \<and> set old \<subseteq> set new \<and>
     (\<forall>c\<in>set cons. con_name c \<in> set new - set old \<longrightarrow>
        (\<forall>a. \<not> con_hit h q c a) \<and> (\<forall>d. included t cons c d \<longrightarrow> con_name d \<in> set new))"

definition visited :: "cw_context list \<Rightarrow> string \<Rightarrow> string list \<Rightarrow> bool" where
  "visited cons r stack \<longleftrightarrow> (\<forall>c. this_context cons None (Some r) = Some c \<longrightarrow> con_name c \<in> set stack)"

lemma explored_refl: "stack_ok cons st \<Longrightarrow> explored t h cons q st st"
  by (simp add: explored_def)

lemma explored_trans: "explored t h cons q a b \<Longrightarrow> explored t h cons q b c \<Longrightarrow> explored t h cons q a c"
  unfolding explored_def by blast

lemma visited_mono: "visited cons r a \<Longrightarrow> explored t h cons q a b \<Longrightarrow> visited cons r b"
  unfolding explored_def visited_def by blast

lemma includes_complete:
  assumes IH: "\<And>r st st'. pbx_find_extension k n env h cons None q (Some r) st = Some (None, st') \<Longrightarrow>
      swo st' = None \<Longrightarrow> stack_ok cons (incstack st) \<Longrightarrow> used_name cons v r \<Longrightarrow>
      explored (now env) h cons q (incstack st) (incstack st') \<and> visited cons r (incstack st')"
    and "find_in_includes k n env h cons None q is st = Some (None, st')" "swo st' = None"
      "stack_ok cons (incstack st)" "\<forall>i\<in>set is. used_name cons v (rname i)"
  shows "explored (now env) h cons q (incstack st) (incstack st') \<and>
    (\<forall>i\<in>set is. include_valid (now env) i \<longrightarrow> visited cons (rname i) (incstack st'))"
  using assms(2-5)
proof (induction "is" arbitrary: st)
  case (Cons i "is")
  show ?case
  proof (cases "include_valid (now env) i")
    case True
    with Cons.prems(1) obtain st1 where r: "pbx_find_extension k n env h cons None q (Some (rname i)) st = Some (None, st1)"
      by (auto split: option.splits)
    have s1: "swo st1 = None"
    proof (rule ccontr)
      assume "swo st1 \<noteq> None"
      moreover with Cons.prems(1) True r have "st1 = st'" by auto
      ultimately show False using Cons.prems(2) by simp
    qed
    with Cons.prems(1) True r have f: "find_in_includes k n env h cons None q is st1 = Some (None, st')" by auto
    have e1: "explored (now env) h cons q (incstack st) (incstack st1)" "visited cons (rname i) (incstack st1)"
      using IH [OF r s1 Cons.prems(3)] Cons.prems(4) by auto
    then have "stack_ok cons (incstack st1)" by (simp add: explored_def)
    from Cons.IH [OF f Cons.prems(2) this] Cons.prems(4)
    have e2: "explored (now env) h cons q (incstack st1) (incstack st')"
      "\<forall>i\<in>set is. include_valid (now env) i \<longrightarrow> visited cons (rname i) (incstack st')" by auto
    from explored_trans [OF e1(1) e2(1)] visited_mono [OF e1(2) e2(1)] e2(2) show ?thesis by auto
  next
    case False
    with Cons.prems have "find_in_includes k n env h cons None q is st = Some (None, st')" by auto
    from Cons.IH [OF this Cons.prems(2,3)] Cons.prems(4) False show ?thesis by auto
  qed
qed (auto simp: explored_refl)

lemma find_complete:
  assumes "dialplan_ok n h cons" "names_exact cons v" "length cons \<le> CW_PBX_MAX_STACK" "q_action q \<noteq> HELPER_MATCHMORE"
  shows "pbx_find_extension k n env h cons None q (Some r) st = Some (None, st') \<Longrightarrow> swo st' = None \<Longrightarrow>
    stack_ok cons (incstack st) \<Longrightarrow> used_name cons v r \<Longrightarrow>
    explored (now env) h cons q (incstack st) (incstack st') \<and> visited cons r (incstack st')"
proof (induction k arbitrary: r st st')
  case (Suc k)
  have b: "byp_ok cons None" by (simp add: byp_ok_def)
  from assms(1) b show ?case
  proof (cases rule: find_cases [where k = k and env = env and q = q and v = "Some r" and st = st])
    case stop
    with Suc.prems(1) have st': "incstack st' = incstack st" by auto
    have "con_name c \<in> set (incstack st)" if c: "this_context cons None (Some r) = Some c" for c
    proof (cases "CW_PBX_MAX_STACK \<le> length (incstack st)")
      case True
      then show ?thesis using stack_full Suc.prems(3) assms(3) this_context_in [OF c] by blast
    next
      case False
      with stop(2) c obtain x where x: "x \<in> set (incstack st)" "strcasecmp x r = 0" by (auto simp: on_stack_def)
      then obtain d where d: "d \<in> set cons" "x = con_name d" using Suc.prems(3) by (auto simp: stack_ok_def)
      have "con_name c = r" using names_exactD(1) [OF assms(2) Suc.prems(4) c] .
      with x(2) d have "d = c" using names_exactD(2) [OF assms(2) d(1) this_context_in [OF c]] by simp
      with x(1) d show ?thesis by simp
    qed
    with st' Suc.prems(3) show ?thesis by (simp add: explored_refl visited_def)
  next
    case (hit c a st2)
    with Suc.prems(1) show ?thesis by simp
  next
    case (other st2)
    with Suc.prems(1,2) assms(4) show ?thesis by simp
  next
    case (descend c st2)
    have c: "c \<in> set cons" "con_name c = r"
      using this_context_in names_exactD(1) [OF assms(2) Suc.prems(4)] descend(2) by auto
    then have new: "con_name c \<notin> set (incstack st)" using descend(5) by (auto simp: on_stack_def)
    then have ok: "stack_ok cons (incstack st2)" using Suc.prems(3) descend(3) c(1) by (auto simp: stack_ok_def)
    have "\<forall>i\<in>set (con_includes c). used_name cons v (rname i)" using c(1) by (auto simp: used_name_def)
    with includes_complete [OF Suc.IH _ Suc.prems(2) ok] descend(1) Suc.prems(1)
    have e: "explored (now env) h cons q (incstack st2) (incstack st')"
      "\<forall>i\<in>set (con_includes c). include_valid (now env) i \<longrightarrow> visited cons (rname i) (incstack st')" by auto
    have inc: "con_name d \<in> set (incstack st')" if "included (now env) cons c d" for d
      using that e(2) by (auto simp: included_def visited_def)
    have same: "d = c" if "d \<in> set cons" "con_name d = con_name c" for d
      using names_exactD(2) [OF assms(2) that(1) c(1)] that(2) by simp
    have in': "con_name c \<in> set (incstack st')" using e(1) descend(3) by (auto simp: explored_def)
    have "explored (now env) h cons q (incstack st) (incstack st')"
      unfolding explored_def
    proof (intro conjI ballI impI)
      show "stack_ok cons (incstack st')" "set (incstack st) \<subseteq> set (incstack st')"
        using e(1) descend(3) by (auto simp: explored_def)
      fix d assume d: "d \<in> set cons" "con_name d \<in> set (incstack st') - set (incstack st)"
      have "(\<forall>a. \<not> con_hit h q d a) \<and> (\<forall>e. included (now env) cons d e \<longrightarrow> con_name e \<in> set (incstack st'))"
      proof (cases "con_name d = con_name c")
        case True
        with same d(1) inc descend(6) show ?thesis by blast
      next
        case False
        with d descend(3) have "con_name d \<in> set (incstack st') - set (incstack st2)" by auto
        with e(1) d(1) show ?thesis by (auto simp: explored_def)
      qed
      then show "\<forall>a. \<not> con_hit h q d a" "\<forall>e. included (now env) cons d e \<longrightarrow> con_name e \<in> set (incstack st')" by blast+
    qed
    moreover have "visited cons r (incstack st')" using descend(2) in' by (simp add: visited_def)
    ultimately show ?thesis by blast
  qed
qed simp

section \<open>Properties\<close>

text \<open>A dialplan with two contexts that include each other; the second one holds extension 100.\<close>

definition demo_a :: cw_context where
  "demo_a = (new_context ''a'' ''demo'')\<lparr>con_includes := [new_include ''b'' ''demo'']\<rparr>"

definition demo_b :: cw_context where
  "demo_b = (new_context ''b'' ''demo'')\<lparr>con_root := 1, con_includes := [new_include ''a'' ''demo'']\<rparr>"

definition demo_dialplan :: "(nat, nat, nat) pbx" where
  "demo_dialplan = initial_pbx\<lparr>pbx_cells := [1 \<mapsto> new_exten ''b'' ''100'' 1 None None ''Dial'' 7 ''demo''],
     contexts := [demo_a, demo_b]\<rparr>"

definition demo_env :: find_env where
  "demo_env = \<lparr>now = \<lparr>tm_mon = 0, tm_mday = 1, tm_wday = 0, tm_hour = 0, tm_min = 0\<rparr>, switches = [],
     switchlock_ok = True, substitute = id\<rparr>"

definition demo_query :: query where
  "demo_query = \<lparr>q_exten = ''100'', q_prio = 1, q_label = None, q_callerid = None, q_action = HELPER_EXISTS\<rparr>"

lemma demo_rep: "rep (pbx_cells demo_dialplan) 1 [[1]]" "rep (pbx_cells demo_dialplan) null []"
  by (simp_all add: rep_def demo_dialplan_def initial_pbx_def)

lemma demo_dialplan_ok: "dialplan_ok 2 (pbx_cells demo_dialplan) (contexts demo_dialplan)"
proof -
  have "\<exists>ass. rep (pbx_cells demo_dialplan) 1 ass \<and> length (concat ass) < 2" using demo_rep(1) by (intro exI [of _ "[[1]]"]) simp
  moreover have "\<exists>ass. rep (pbx_cells demo_dialplan) null ass \<and> length (concat ass) < 2" using demo_rep(2) by (intro exI [of _ "[]"]) simp
  ultimately show ?thesis by (simp add: dialplan_ok_def demo_dialplan_def demo_a_def demo_b_def new_context_def)
qed

lemma demo_hashes: "cw_hash_string ''a'' = 97" "cw_hash_string ''b'' = 98"
  by code_simp+

lemma demo_contexts [simp]:
  "contexts demo_dialplan = [demo_a, demo_b]"
  "alts demo_a = []" "con_includes demo_a = [new_include ''b'' ''demo'']" "con_name demo_a = ''a''" "con_root demo_a = null"
  "con_includes demo_b = [new_include ''a'' ''demo'']" "con_name demo_b = ''b''" "con_root demo_b = Suc 0"
  "rname (new_include ''b'' ''demo'') = ''b''" "rname (new_include ''a'' ''demo'') = ''a''"
  "include_valid t (new_include ''b'' ''demo'')"
  by (simp_all add: demo_dialplan_def demo_a_def demo_b_def new_context_def new_include_def include_valid_def)

lemma demo_context_of [simp]:
  "this_context [demo_a, demo_b] None (Some ''a'') = Some demo_a"
  "this_context [demo_a, demo_b] None (Some ''b'') = Some demo_b"
  by (simp_all add: this_context_def demo_a_def demo_b_def new_context_def cw_hash_string_null_def demo_hashes)

lemma demo_hit: "con_hit (pbx_cells demo_dialplan) demo_query demo_b 1"
  unfolding con_hit_def
  by (intro exI [of _ "[[1]]"])
    (use demo_rep in \<open>simp add: demo_dialplan_def demo_query_def enters_def cid_ok_def wanted_def answers_def cell_def
      cw_extension_pattern_match_def new_exten_def ext_strncpy_def\<close>)

lemma demo_reach: "con_reach (now demo_env) (contexts demo_dialplan) demo_a demo_b"
  by (rule reach_include [OF _ reach_here]) (simp add: included_def)



text \<open>
  C15. What the search finds is an answer: the cell has the priority or label asked for, its
  extension matches the number dialled and the caller id, and it lies in the context reported
  as \<open>foundcontext\<close>, which the starting context reaches through includes valid at the time.
\<close>

theorem search_sound:
  assumes "dialplan_ok n (pbx_cells s) (contexts s)" "search n env s None q v = Some (Some a, st)"
  shows "\<exists>c0 c. this_context (contexts s) None v = Some c0 \<and> con_reach (now env) (contexts s) c0 c \<and>
    this_context (contexts s) None (foundcontext st) = Some c \<and> con_hit (pbx_cells s) q c a"
  using find_sound [OF assms(1) assms(2) [unfolded search_def]] by (auto simp: found_at_def)


text \<open>
  Searching with a given context, as \<open>cw_findlabel_extension2\<close> does, never looks into its
  includes: whatever the search returns is a cell of that context itself, since the
  recursive calls pass the context on instead of looking up the included one.
\<close>

theorem bypass_ignores_includes:
  assumes "dialplan_ok n (pbx_cells s) (contexts s)" "con \<in> set (contexts s)" "search n env s (Some con) q v = Some (Some a, st)"
  shows "con_hit (pbx_cells s) q con a"
proof -
  let ?h = "pbx_cells s" and ?cs = "contexts s"
  have inc: "con_hit ?h q con a" if "\<And>v st a st'. pbx_find_extension k n env ?h ?cs (Some con) q v st = Some (Some a, st') \<Longrightarrow> con_hit ?h q con a"
      "find_in_includes k n env ?h ?cs (Some con) q is st = Some (Some a, st')" for k "is" st a st'
    using that(2) by (induction "is" arbitrary: st) (auto split: if_splits option.splits prod.splits dest: that(1))
  have b: "byp_ok ?cs (Some con)" using assms(2) by (simp add: byp_ok_def)
  have "con_hit ?h q con a" if "pbx_find_extension k n env ?h ?cs (Some con) q v st = Some (Some a, st')" for k v st a st'
    using that
  proof (induction k arbitrary: v st a st')
    case (Suc k)
    from assms(1) b show ?case
    proof (cases rule: find_cases [where k = k and env = env and q = q and v = v and st = st])
      case (hit c b st2)
      with Suc.prems show ?thesis by (simp add: this_context_def)
    next
      case (descend c st2)
      with Suc.prems have "find_in_includes k n env ?h ?cs (Some con) q (con_includes c) st2 = Some (Some a, st')" by simp
      then show ?thesis by (rule inc [rotated]) (rule Suc.IH)
    qed (use Suc.prems in auto)
  qed simp
  with assms(3) show ?thesis unfolding search_def by blast
qed

section \<open>The properties on the example\<close>

lemma demo_rows [simp]:
  "find_in_rows 2 2 (pbx_cells demo_dialplan) demo_query (Suc 0) False st = Some (Some 1, False, STATUS_SUCCESS)"
  "find_in_rows 2 2 (pbx_cells demo_dialplan) demo_query null False st = Some (None, False, st)"
  by (simp_all add: demo_dialplan_def demo_query_def eval_nat_numeral row_verdict_def
      cw_extension_pattern_match_def new_exten_def ext_strncpy_def initial_pbx_def)

lemma demo_find:
  "\<exists>st. pbx_find_extension (Suc (Suc k)) 2 demo_env (pbx_cells demo_dialplan) (contexts demo_dialplan) None demo_query
     (Some ''a'') initial_find = Some (Some 1, st)"
  "\<exists>st. pbx_find_extension (Suc (Suc k)) 2 demo_env (pbx_cells demo_dialplan) (contexts demo_dialplan) (Some demo_b)
     demo_query None initial_find = Some (Some 1, st)"
  by (simp_all add: initial_find_def on_stack_def Let_def strcasecmp_def tolower_def enter_search_def
      CW_PBX_MAX_STACK_def this_context_def [of _ "Some c" for c])

lemma demo_fuel: "CW_PBX_MAX_STACK + 1 = Suc (Suc 127)"
  by (simp add: CW_PBX_MAX_STACK_def)

lemma demo_search:
  "\<exists>st. search 2 demo_env demo_dialplan None demo_query (Some ''a'') = Some (Some 1, st)"
  "\<exists>st. search 2 demo_env demo_dialplan (Some demo_b) demo_query None = Some (Some 1, st)"
  unfolding search_def demo_fuel by (rule demo_find)+

theorem search_sound_witness:
  "\<exists>a st. search 2 demo_env demo_dialplan None demo_query (Some ''a'') = Some (Some a, st) \<and>
     (\<exists>c. this_context (contexts demo_dialplan) None (foundcontext st) = Some c \<and>
       con_hit (pbx_cells demo_dialplan) demo_query c a)"
  using search_sound [OF demo_dialplan_ok] demo_search(1) by meson


theorem bypass_ignores_includes_witness:
  "\<exists>a st. search 2 demo_env demo_dialplan (Some demo_b) demo_query None = Some (Some a, st) \<and>
     con_hit (pbx_cells demo_dialplan) demo_query demo_b a"
  using bypass_ignores_includes [OF demo_dialplan_ok, of demo_b demo_env demo_query None] demo_search(2) by auto

section \<open>An added extension is found\<close>

lemma con_index_at:
  "con_index h cs = Some i \<Longrightarrow> i < length cs \<and> con_hash (cs ! i) = h \<and> (\<forall>j<i. con_hash (cs ! j) \<noteq> h)"
proof (induction cs arbitrary: i)
  case (Cons c cs)
  then show ?case by (auto simp: less_Suc_eq_0_disj split: if_splits) blast
qed simp

lemma find_at: "i < length cs \<Longrightarrow> P (cs ! i) \<Longrightarrow> (\<And>j. j < i \<Longrightarrow> \<not> P (cs ! j)) \<Longrightarrow> find P cs = Some (cs ! i)"
proof (induction cs arbitrary: i)
  case (Cons c cs)
  show ?case
  proof (cases i)
    case 0
    with Cons.prems(2) show ?thesis by simp
  next
    case (Suc m)
    have "\<not> P c" using Cons.prems(3) [of 0] Suc by simp
    moreover have "\<not> P (cs ! j)" if "j < m" for j using Cons.prems(3) [of "Suc j"] that Suc by simp
    ultimately show ?thesis using Cons.IH [of m] Cons.prems(1,2) Suc by simp
  qed
qed simp

text \<open>Looking up the name after an operation on the context of that name.\<close>

lemma this_context_written:
  assumes "con_index (cw_hash_string name) (contexts s) = Some i"
  shows "this_context (contexts (ext_write i e s)) None (Some name) = Some ((contexts s ! i)\<lparr>con_root := root e\<rparr>)"
proof -
  note c = con_index_at [OF assms]
  let ?cs = "(contexts s)[i := (contexts s ! i)\<lparr>con_root := root e\<rparr>]"
  have "find (\<lambda>c. cw_hash_string name = con_hash c) ?cs = Some (?cs ! i)"
    by (rule find_at) (use c in \<open>auto simp: nth_list_update\<close>)
  then show ?thesis using c by (simp add: this_context_def ext_write_def cw_hash_string_null_def)
qed

text \<open>Rows that hold an entry hold it in a row of its own name and caller id.\<close>

lemma rows_ok_row:
  assumes "rows_ok rs" "t \<in> set (concat rs)"
  shows "\<exists>r\<in>set rs. t \<in> set r \<and> (\<forall>x\<in>set r. row_key x = row_key t)"
proof -
  from assms(1) obtain ks where ks: "list_all2 row_ok ks rs" by (auto simp: rows_ok_def)
  from assms(2) obtain r where r: "r \<in> set rs" "t \<in> set r" by auto
  then obtain i where "i < length rs" "r = rs ! i" by (auto simp: in_set_conv_nth)
  with ks have "row_ok (ks ! i) r" by (auto simp: list_all2_conv_all_nth)
  with r show ?thesis by (auto simp: row_ok_def intro!: bexI [of _ r])
qed

lemma row_key_eq: "row_key x = row_key y \<Longrightarrow> exten x = exten y \<and> match_cid x = match_cid y"
  by (auto simp: row_key_def)

lemma content_fields [simp]:
  "row_key (content x) = row_key x" "priority (content x) = priority x" "label (content x) = label x"
  by (simp_all add: content_def row_key_def)

lemma first_hit_holds:
  assumes "rep h r ass" "rows_ok (rows h ass)" "t \<in> set (concat (rows h ass))" "\<not> match_cid t"
    and "cw_extension_pattern_match (q_exten q) (exten t) \<in> wanted (q_action q)" "answers q t"
  shows "first_hit h q ass \<noteq> None"
proof -
  obtain as where as: "as \<in> set ass" "t \<in> set (map (\<lambda>a. content (cell h a)) as)"
      "\<forall>a\<in>set as. row_key (cell h a) = row_key t"
    using rows_ok_row [OF assms(2,3)] by (auto simp: rows_def)
  then obtain a where a: "a \<in> set as" "t = content (cell h a)" by auto
  have "as \<noteq> []" using a by auto
  then have "row_key (cell h (head as)) = row_key t" using as(3) by (cases as) auto
  then have "enters q (cell h (head as))" using row_key_eq assms(4,5) unfolding enters_def cid_ok_def by metis
  moreover have "answers q (cell h a)" using assms(6) a(2) by (simp add: answers_def split: if_splits)
  ultimately show ?thesis using as(1) a(1) by (auto simp: first_hit_None)
qed

lemma search_first_context:
  assumes "this_context (contexts s) None (Some v) = Some c" "rep (pbx_cells s) (con_root c) ass" "length (concat ass) < n"
    and "first_hit (pbx_cells s) q ass \<noteq> None"
  shows "\<exists>a st. search n env s None q (Some v) = Some (Some a, st)"
proof -
  from assms(4) obtain a where a: "first_hit (pbx_cells s) q ass = Some a" by auto
  obtain early st' where f: "find_in_rows n n (pbx_cells s) q (con_root c) False
      (raise_status (fstatus (enter_search initial_find)) STATUS_NO_EXTENSION) = Some (Some a, early, st')"
    using find_in_rows_rep [OF assms(2,3)] a by metis
  have "incstack initial_find = []" "CW_PBX_MAX_STACK \<noteq> 0" by (simp_all add: initial_find_def CW_PBX_MAX_STACK_def)
  with f assms(1) show ?thesis unfolding search_def by (simp add: Let_def on_stack_def)
qed

text \<open>
  C17. Adding and looking up fit together: an extension without caller id that was added to a
  context by name is found there afterwards, for every number its pattern matches and every
  caller id.
\<close>

theorem added_extension_exists:
  fixes s :: "('d, 'c, 'x) pbx"
  assumes "con_index (cw_hash_string name) (contexts s) = Some i" "holds_rows (ext_view s (contexts s ! i)) rs" "rows_ok rs"
    and "length (concat rs) < n" "pbx_cells s t = None" "t \<noteq> null" "no_space ext"
    and "replace \<or> (\<forall>x\<in>set (concat rs). \<not> same_entry (new_exten (con_name (contexts s ! i)) ext prio lab None application d reg) x)"
    and "cw_extension_pattern_match num ext \<in> {EXTENSION_MATCH_POSSIBLE, EXTENSION_MATCH_EXACT, EXTENSION_MATCH_STRETCHABLE}"
  shows "\<exists>s'. cw_add_extension n dev True True (Some t) hmem name replace ext prio lab None application d reg s = Some (None, s') \<and>
    cw_exists_extension True (n + 1) env s' name num prio callerid = Some (- 1)"
proof -
  let ?con = "contexts s ! i"
  let ?v = "ext_view (cw_lock_contexts s) ?con" and ?tmp = "new_exten (con_name ?con) ext prio lab None application d reg"
  have v: "?v = ext_view s ?con" by (simp add: ext_view_def cw_lock_contexts_def)
  have t: "cells ?v t = None" using assms(5) by (simp add: ext_view_def cw_lock_contexts_def)
  note ins = ins_rows_ok [OF assms(3), of replace ?tmp]
  have "ins_rows replace ?tmp rs \<noteq> None" using ins assms(8) by (cases "ins_rows replace ?tmp rs") auto
  then obtain rs' where rs': "ins_rows replace ?tmp rs = Some rs'" by auto
  with ins have rs'2: "rows_ok rs'" "?tmp \<in> set (concat rs')" by simp_all
  obtain e where e: "cw_add_extension2 n dev True (Some t) hmem (con_name ?con) replace ext prio lab None application d reg ?v
      = Some (None, e)" "holds_rows e rs'"
    using cw_add_extension2_rows [OF assms(2) [folded v] t assms(6,7,4) refl, where replace = replace and dev = dev and
        hmem = hmem and con = "con_name ?con" and prio = prio and lab = lab and callerid = None and
        application = application and d = d and reg = reg] rs' by auto
  let ?s' = "cw_unlock_contexts (ext_write i e (cw_lock_contexts s))"
  have s': "cw_add_extension n dev True True (Some t) hmem name replace ext prio lab None application d reg s = Some (None, ?s')"
    using e(1) assms(1) by (simp add: cw_add_extension_def Let_def)
  obtain ass where ass: "rep (cells e) (root e) ass" "rows (cells e) ass = rs'" using e(2) by (auto simp: holds_rows_def)
  have l: "length (concat ass) < n + 1"
  proof -
    have "length (concat ass) = length (concat rs')" using ass(2) by (auto simp: rows_def length_concat o_def)
    also have "\<dots> \<le> length (concat rs) + 1" by (rule ins_rows_length [OF rs'])
    finally show ?thesis using assms(4) by simp
  qed
  let ?q = "\<lparr>q_exten = num, q_prio = prio, q_label = None, q_callerid = callerid, q_action = HELPER_EXISTS\<rparr>"
  have tmp: "\<not> match_cid ?tmp" "exten ?tmp = ext" "answers ?q ?tmp"
    using assms(7) by (simp add: new_exten_def, simp, simp add: answers_def)
  have "first_hit (cells e) ?q ass \<noteq> None"
    by (rule first_hit_holds [where t = ?tmp]) (use ass rs'2 tmp assms(9) in \<open>simp_all add: wanted_def del: set_concat\<close>)
  moreover have "this_context (contexts ?s') None (Some name) = Some (?con\<lparr>con_root := root e\<rparr>)"
    using this_context_written [of name "cw_lock_contexts s" i e] assms(1) by simp
  moreover have "pbx_cells ?s' = cells e" by (simp add: cw_unlock_contexts_def ext_write_def)
  ultimately obtain a st where "search (n + 1) env ?s' None ?q (Some name) = Some (Some a, st)"
    using search_first_context [of ?s' name "?con\<lparr>con_root := root e\<rparr>" ass "n + 1" ?q env] ass(1) l by auto
  then have "cw_exists_extension True (n + 1) env ?s' name num prio callerid = Some (- 1)"
    by (simp add: cw_exists_extension_def pbx_extension_helper_def ret_of_def)
  with s' show ?thesis by blast
qed

theorem added_extension_exists_witness:
  "\<exists>s'. cw_add_extension 1 (\<lambda>d. 0) True True (Some 5) True ''default'' False ''_9X.'' 1 None None ''Dial'' 7 ''demo'' demo_pbx
      = Some (None, s') \<and>
    cw_exists_extension True 2 demo_env s' ''default'' ''95551234'' 1 None = Some (- 1)"
proof -
  have r: "rows_ok ([] :: nat cw_exten list list)" by (auto simp: rows_ok_def)
  have h: "holds_rows (ext_view demo_pbx (contexts demo_pbx ! 0)) []"
    by (auto simp: holds_rows_def rep_def ext_view_def demo_pbx_contexts new_context_def intro!: exI [of _ "[]"])
  have i: "con_index (cw_hash_string ''default'') (contexts demo_pbx) = Some 0" by (simp add: demo_pbx_contexts new_context_def)
  have c: "pbx_cells demo_pbx 5 = None" by (simp add: demo_pbx_def cw_context_create_def initial_pbx_def Let_def cw_lock_contexts_def cw_unlock_contexts_def)
  have m: "cw_extension_pattern_match ''95551234'' ''_9X.'' = EXTENSION_MATCH_STRETCHABLE" by code_simp
  show ?thesis
    using added_extension_exists [OF i h r, of 1 5 "''_9X.''" False 1 None "''Dial''" 7 "''demo''" "''95551234''" "\<lambda>d. 0" True demo_env None]
      c m by (simp add: no_space_def numeral_2_eq_2)
qed

end
