(* ===== verification/Pbx_Extens_Remove.thy ===== *)
theory Pbx_Extens_Remove
  imports Pbx_Extens_Add
begin

text \<open>
  \<open>cw_context_remove_extension2\<close>: the branches that unlink a priority or an extension
  correctly, and those that do not.
\<close>

section \<open>Removal on rows\<close>

lemma rep_unlink_peer:
  assumes r: "rep h r (pre @ (rpre @ p # rpost) # post)" "rpre \<noteq> []"
  shows "rep (set_peer (last rpre) (head rpost) h) r (pre @ (rpre @ rpost) # post)"
proof -
  let ?h = "set_peer (last rpre) (head rpost) h"
  obtain rp l where rp: "rpre = rp @ [l]" using r(2) by (cases rpre rule: rev_cases) auto
  have ok: "peers_ok h pre" "peers_ok h post" "seg peer h (head rpre) (rpre @ p # rpost) null"
    and d: "distinct (concat (pre @ (rpre @ p # rpost) # post))"
    and n: "seg enext h r (map head (pre @ (rpre @ p # rpost) # post)) null"
    using r by (cases rpre; auto simp: rep_def')+
  have l: "l \<notin> set (concat pre)" "l \<notin> set (concat post)" "l \<notin> set rp" "l \<notin> set rpost"
    using d by (auto simp: rp)
  have heads: "head (rpre @ rpost) = head rpre" "head (rpre @ p # rpost) = head rpre" using r(2) by (cases rpre; simp)+
  from ok(3) obtain q q' where q: "seg peer h (head rpre) (rp @ [l]) q" "seg peer h q' rpost null"
    unfolding rp [symmetric] by (auto simp: heap_simps split: option.splits)
  have "q' = head rpost" using q(2) by (rule seg_head)
  with q(2) l(4) have "seg peer ?h (head rpost) rpost null" by (simp add: rp seg_set_peer)
  moreover have "seg peer ?h (head rpre) rpre (head rpost)"
    using seg_relink_peer [OF q(1) l(3), of "head rpost"] by (simp only: rp last_snoc)
  ultimately have "seg peer ?h (head rpre) (rpre @ rpost) null" unfolding seg_append by blast
  moreover have "peers_ok ?h pre" "peers_ok ?h post" using ok(1,2) l by (simp_all add: rp peers_ok_set_peer)
  moreover have "seg enext ?h r (map head (pre @ (rpre @ rpost) # post)) null"
    using n heads by (simp add: seg_next_set_peer del: seg.simps)
  ultimately show ?thesis using d r(2) heads by (auto simp: rep_def')
qed

lemma rep_unlink_head:
  assumes r: "rep h r (pre @ (e # p # as) # post)" "pre \<noteq> []" and x: "h e = Some x"
  shows "rep (set_next p (enext x) (set_next (last_head null pre) p h)) r (pre @ (p # as) # post)"
proof -
  let ?el = "last_head null pre" and ?hp = "map head post"
  obtain n: "seg enext h r (map head pre) e" "enext x = head ?hp" "seg enext h (head ?hp) ?hp null"
      and po: "peers_ok h pre" "peers_ok h post" "seg peer h (peer x) (p # as) null"
      and d: "distinct (concat (pre @ (e # p # as) # post))"
    using rep_row [OF r(1)] x by (metis option.inject)
  obtain y where y: "h p = Some y" "p \<noteq> null" "seg peer h (peer y) as null"
    using po(3) by (auto split: option.splits)
  have el: "?el \<in> set (concat pre)" "?el \<noteq> null" using last_head_in [OF r(2) po(1)] peers_allocated [OF po(1)] by metis+
  have pn: "p \<notin> set (map head pre)" "p \<notin> set ?hp" "?el \<noteq> p"
    using d heads_in [OF po(1)] heads_in [OF po(2)] el(1) by auto
  have eln: "?el \<notin> set ?hp" using d el(1) heads_in [OF po(2)] by fastforce
  have "seg enext (set_next ?el p h) r (map head pre) p"
    using hlink_seg [OF n(1) heads_distinct [OF po(1)], of p] d el(2) by (simp add: hlink_def)
  then have 1: "seg enext (set_next p (enext x) (set_next ?el p h)) r (map head pre) p"
    using pn(1) by (simp add: seg_set_next del: set_map)
  show ?thesis
  proof (rule rep_build [OF 1])
    show "set_next p (enext x) (set_next ?el p h) p = Some (y\<lparr>enext := enext x\<rparr>)"
      using y(1) pn(3) by (simp add: set_next_same)
    show "seg enext (set_next p (enext x) (set_next ?el p h)) (head ?hp) ?hp null"
      using n(3) pn(2) eln by (simp add: seg_set_next del: set_map)
    show "seg peer (set_next p (enext x) (set_next ?el p h)) (peer (y\<lparr>enext := enext x\<rparr>)) as null"
      using y(3) by (simp add: seg_peer_set_next)
  qed (use y(2) n(2) po d in simp_all)
qed

lemma rep_unlink_row:
  assumes r: "rep h r (pre @ (e # as) # post)" and x: "h e = Some x"
  defines "hr \<equiv> hlink (last_head null pre) (enext x) (h, r)"
  shows "rep (fst hr) (snd hr) (pre @ post)"
proof -
  let ?el = "last_head null pre" and ?hp = "map head post"
  obtain n: "seg enext h r (map head pre) e" "enext x = head ?hp" "seg enext h (head ?hp) ?hp null"
      and po: "peers_ok h pre" "peers_ok h post" and d: "distinct (concat (pre @ (e # as) # post))"
    using rep_row [OF r] x by (metis option.inject)
  have dd: "distinct (concat (pre @ post))" using d by auto
  then have "?el \<notin> set (concat post)" using po by (intro last_head_notin [of h]) simp_all
  then have "?el \<notin> set ?hp" using heads_in [OF po(2)] by blast
  then have "seg enext (fst hr) (head ?hp) ?hp null" using n(3) by (simp add: hr_def hlink_seg_other)
  moreover have "seg enext (fst hr) (snd hr) (map head pre) (head ?hp)"
    using hlink_seg [OF n(1) heads_distinct [OF po(1)], of "enext x"] d n(2) by (simp add: hr_def)
  ultimately have "seg enext (fst hr) (snd hr) (map head pre @ ?hp) null" by (auto simp: seg_append)
  then show ?thesis using po dd by (simp add: rep_def' hr_def)
qed

definition named :: "string \<Rightarrow> string option \<Rightarrow> 'd cw_exten \<Rightarrow> bool" where
  "named nm reg x \<longleftrightarrow> exten x = nm \<and> reg_ok reg x"

lemma find_name_at:
  assumes "seg enext h e (map head (pre @ as # post)) null" "length pre < n"
    and "\<And>bs. bs \<in> set pre \<Longrightarrow> \<not> named nm reg (cell h (head bs))" "named nm reg (cell h (head as))"
  shows "find_name n h nm reg prev e = Some (Some (last_head prev pre, head as))"
  using assms
proof (induction pre arbitrary: n prev e)
  case Nil
  then show ?case by (cases n) (auto simp: named_def cell_def split: option.splits)
next
  case (Cons bs pre)
  then obtain m where n: "n = Suc m" "length pre < m" by (cases n) auto
  from Cons.prems(1) obtain x where x: "e = head bs" "e \<noteq> null" "h e = Some x"
      "seg enext h (enext x) (map head (pre @ as # post)) null"
    by (auto split: option.splits)
  have "\<not> named nm reg x" using Cons.prems(3) [of bs] x by (simp add: cell_def)
  with Cons.IH [OF x(4) n(2), of e] Cons.prems(3,4) x show ?case by (auto simp: n(1) named_def)
qed

lemma find_prio_at:
  assumes "seg peer h e (rpre @ p # rpost) null" "length rpre < n"
    and "\<And>a. a \<in> set rpre \<Longrightarrow> \<not> (priority (cell h a) = prio \<and> reg_ok reg (cell h a))"
    and "priority (cell h p) = prio" "reg_ok reg (cell h p)"
  shows "find_prio n h prio reg prev e = Some (Some (last0 prev rpre, p))"
  using assms
proof (induction rpre arbitrary: n prev e)
  case Nil
  then show ?case by (cases n) (auto simp: cell_def split: option.splits)
next
  case (Cons a rpre)
  then obtain m where n: "n = Suc m" "length rpre < m" by (cases n) auto
  from Cons.prems(1) obtain x where x: "e = a" "a \<noteq> null" "h a = Some x" "seg peer h (peer x) (rpre @ p # rpost) null"
    by (auto split: option.splits)
  have "\<not> (priority x = prio \<and> reg_ok reg x)" using Cons.prems(3) [of a] x by (simp add: cell_def)
  with Cons.IH [OF x(4) n(2), of a] Cons.prems(3,4,5) x show ?case by (auto simp: n(1))
qed

text \<open>The state after the pointers are redirected and the cell is freed.\<close>

lemma remove_peer_frame:
  "rows (cells (remove_peer prev e pp p s)) ass = rows (cells s) ass"
  by (simp add: remove_peer_def)

definition hint_removed :: "addr \<Rightarrow> ('d, 'c, 'x) ext_state \<Rightarrow> ('d, 'c, 'x) ext_state" where
  "hint_removed p s =
     (if (case cells s p of Some x \<Rightarrow> priority x = PRIORITY_HINT | None \<Rightarrow> False)
      then s\<lparr>hint_st := snd (cw_remove_hint (cells s) p (hint_st s))\<rparr> else s)"

lemma hint_removed_frame [simp]: "cells (hint_removed p s) = cells s" "root (hint_removed p s) = root s"
  by (simp_all add: hint_removed_def)

lemma remove_extension2_found:
  assumes r: "rep (cells s) (root s) (pre @ (rpre @ p # rpost) # post)"
    and n: "length (concat (pre @ (rpre @ p # rpost) # post)) < n" and prio: "prio \<noteq> 0"
    and nm: "\<And>bs. bs \<in> set pre \<Longrightarrow> \<not> named nm reg (cell (cells s) (head bs))"
      "named nm reg (cell (cells s) (head (rpre @ p # rpost)))"
    and pr: "\<And>a. a \<in> set rpre \<Longrightarrow> \<not> (priority (cell (cells s) a) = prio \<and> reg_ok reg (cell (cells s) a))"
      "priority (cell (cells s) p) = prio" "reg_ok reg (cell (cells s) p)"
  shows "cw_context_remove_extension2 n True nm prio reg s =
    Some (True, destroy_cell p (hint_removed p
      (remove_peer (last_head null pre) (head (rpre @ p # rpost)) (last0 null rpre) p s)))"
proof -
  have ne: "\<And>as. as \<in> set pre \<Longrightarrow> as \<noteq> []" and seg: "seg enext (cells s) (root s) (map head (pre @ (rpre @ p # rpost) # post)) null"
      "seg peer (cells s) (head (rpre @ p # rpost)) (rpre @ p # rpost) null"
    using r by (auto simp: rep_def)
  have "length pre < n" "length rpre < n" using length_rows [of pre, OF ne] n by simp_all
  from find_name_at [OF seg(1) this(1) nm] find_prio_at [OF seg(2) this(2) pr] prio
  show ?thesis by (simp add: cw_context_remove_extension2_def hint_removed_def Let_def)
qed

lemma get_simps:
  assumes "cells s a = Some x"
  shows "get_next a s = enext x" "get_peer a s = peer x"
  using assms by (simp_all add: get_next_def get_peer_def)

lemma remove_peer_rows:
  assumes r: "rep (cells s) (root s) (pre @ (rpre @ p # rpost) # post)"
    and c: "pre \<noteq> [] \<or> rpre \<noteq> [] \<or> rpost = []"
  defines "s' \<equiv> remove_peer (last_head null pre) (head (rpre @ p # rpost)) (last0 null rpre) p s"
    and "rest \<equiv> (if rpre @ rpost = [] then [] else [rpre @ rpost])"
  shows "rep (cells s') (root s') (pre @ rest @ post)"
proof (cases "rpre = []")
  case False
  have s: "seg peer (cells s) (head (rpre @ p # rpost)) (rpre @ p # rpost) null" using r by (auto simp: rep_def)
  then have "last rpre \<noteq> null" "get_peer p s = head rpost"
    using seg_dom [OF s, of "last rpre"] seg_second [OF s] False
    by (auto simp: get_peer_def cell_def split: option.splits)
  then have "cells s' = set_peer (last rpre) (head rpost) (cells s)" "root s' = root s"
    using False by (simp_all add: s'_def remove_peer_def last0_def)
  then show ?thesis using rep_unlink_peer [OF r False] False by (simp add: rest_def)
next
  case True
  have r0: "rep (cells s) (root s) (pre @ (p # rpost) # post)" using r True by simp
  obtain x where x: "cells s p = Some x" "p \<noteq> null" "seg peer (cells s) (peer x) rpost null"
      "peers_ok (cells s) pre"
    using rep_row [OF r0] by metis
  then have px: "peer x = head rpost" using seg_head by blast
  show ?thesis
  proof (cases rpost)
    case Nil
    have "cells s' = fst (hlink (last_head null pre) (enext x) (cells s, root s))"
      "root s' = snd (hlink (last_head null pre) (enext x) (cells s, root s))"
      using px by (simp_all add: s'_def remove_peer_def True Nil hlink_def get_simps [OF x(1)])
    then show ?thesis using rep_unlink_row [of "cells s" "root s" pre p "[]" post x] r x(1) by (simp add: True Nil rest_def)
  next
    case (Cons q qs)
    then have pre: "pre \<noteq> []" using c True by simp
    have "last_head null pre \<noteq> null" using last_head_in [OF pre x(4)] peers_allocated [OF x(4)] by metis
    moreover have "q \<noteq> null" using x(3) px Cons by auto
    ultimately have "cells s' = set_next q (enext x) (set_next (last_head null pre) q (cells s))" "root s' = root s"
      using px by (simp_all add: s'_def remove_peer_def True Cons get_simps [OF x(1)])
    then show ?thesis using rep_unlink_head [of "cells s" "root s" pre p q qs post x] r pre x(1) by (simp add: True Cons rest_def)
  qed
qed

section \<open>Whole extensions\<close>

lemma free_peers_cells:
  assumes "seg peer (cells s) p as null" "distinct as" "length as < n"
  shows "\<exists>s'. free_peers n p s = Some s' \<and> cells s' = (\<lambda>a. if a \<in> set as then None else cells s a) \<and>
    root s' = root s \<and> hint_st s' = hint_st s"
  using assms
proof (induction as arbitrary: n p s)
  case Nil
  then show ?case by (cases n) auto
next
  case (Cons a as)
  then obtain m where n: "n = Suc m" "length as < m" by (cases n) auto
  from Cons.prems(1) obtain x where x: "p = a" "a \<noteq> null" "cells s a = Some x" "seg peer (cells s) (peer x) as null"
    by (auto split: option.splits)
  have "seg peer (cells (destroy_cell a s)) (peer x) as null"
    using x(4) Cons.prems(2) by (simp add: seg_update)
  from Cons.IH [OF this _ n(2)] Cons.prems(2) obtain s' where
    s': "free_peers m (peer x) (destroy_cell a s) = Some s'"
      "cells s' = (\<lambda>b. if b \<in> set as then None else cells (destroy_cell a s) b)"
      "root s' = root s" "hint_st s' = hint_st s"
    by (auto simp: destroy_cell_def x(3))
  have "free_peers n p s = Some s'"
    using s'(1) by (simp add: n(1) x(1-3) PRIORITY_HINT_def)
  with s' x(3) show ?case by (auto simp: fun_eq_iff)
qed

lemma rep_free_all:
  "rep h r ass \<Longrightarrow> set as \<inter> set (concat ass) = {} \<Longrightarrow>
     rep (\<lambda>a. if a \<in> set as then None else h a) r ass \<and>
     rows (\<lambda>a. if a \<in> set as then None else h a) ass = rows h ass"
proof (induction as arbitrary: h)
  case (Cons b as)
  have b: "b \<notin> set (concat ass)" "set as \<inter> set (concat ass) = {}" using Cons.prems(2) by auto
  have eq: "(\<lambda>a. if a \<in> set (b # as) then None else h a) = (\<lambda>a. if a \<in> set as then None else (h(b := None)) a)"
    by (auto simp: fun_eq_iff)
  note rf = rep_free [OF Cons.prems(1) b(1)]
  from Cons.IH [OF rf(1) b(2)] show ?case by (simp only: eq rf(2))
qed simp

lemma remove_extension2_all:
  assumes r: "rep (cells s) (root s) (pre @ (e # as) # post)" and n: "length (concat (pre @ (e # as) # post)) < n"
    and nm: "\<And>bs. bs \<in> set pre \<Longrightarrow> \<not> named nm reg (cell (cells s) (head bs))" "named nm reg (cell (cells s) e)"
  shows "\<exists>s'. cw_context_remove_extension2 n True nm 0 reg s = Some (True, s') \<and>
    holds_rows s' (rows (cells s) pre @ rows (cells s) post) \<and> hint_st s' = hint_st s \<and>
    (\<forall>a\<in>set (e # as). cells s' a = None)"
proof -
  obtain x where x: "cells s e = Some x" using rep_row [OF r] by metis
  have ne: "\<And>as. as \<in> set pre \<Longrightarrow> as \<noteq> []" and seg: "seg enext (cells s) (root s) (map head (pre @ (e # as) # post)) null"
      "seg peer (cells s) e (e # as) null" and d: "distinct (concat (pre @ (e # as) # post))"
    using r by (auto simp: rep_def)
  have len: "length pre < n" "length (e # as) < n" using length_rows [of pre, OF ne] n by simp_all
  let ?s1 = "link_next (last_head null pre) (get_next e s) s"
  have s1: "cells ?s1 = fst (hlink (last_head null pre) (enext x) (cells s, root s))"
    "root ?s1 = snd (hlink (last_head null pre) (enext x) (cells s, root s))" "hint_st ?s1 = hint_st s"
    by (simp_all add: get_simps [OF x] link_next_def hlink_def)
  have "seg peer (cells ?s1) e (e # as) null" using seg(2) unfolding s1 hlink_frame .
  from free_peers_cells [OF this _ len(2)] d obtain s' where
    s': "free_peers n e ?s1 = Some s'" "cells s' = (\<lambda>a. if a \<in> set (e # as) then None else cells ?s1 a)"
      "root s' = root ?s1" "hint_st s' = hint_st s"
    by (auto simp: s1(3))
  have "rep (cells ?s1) (root ?s1) (pre @ post)" using rep_unlink_row [OF r x] by (simp add: s1)
  moreover have "set (e # as) \<inter> set (concat (pre @ post)) = {}" using d by auto
  ultimately have "rep (cells s') (root s') (pre @ post) \<and> rows (cells s') (pre @ post) = rows (cells ?s1) (pre @ post)"
    unfolding s'(2,3) by (rule rep_free_all)
  then have "holds_rows s' (rows (cells s) pre @ rows (cells s) post)"
    by (auto simp: holds_rows_def s1)
  moreover have "find_name n (cells s) nm reg null (root s) = Some (Some (last_head null pre, e))"
    using find_name_at [OF seg(1) len(1) nm(1)] nm(2) by simp
  then have "cw_context_remove_extension2 n True nm 0 reg s = Some (True, s')"
    by (simp add: cw_context_remove_extension2_def s'(1))
  ultimately show ?thesis using s'(2,4) by auto
qed

section \<open>Properties\<close>

text \<open>A context with the extension 100, priorities 1 and 2, and a hint for the extension 200,
  laid out as successive additions leave it.\<close>

definition demo_exten :: "string \<Rightarrow> int \<Rightarrow> nat \<Rightarrow> nat cw_exten" where
  "demo_exten nm prio d = new_exten ''default'' nm prio None None ''SIP/a'' d ''demo''"

definition demo_context :: "(nat, nat, nat) ext_state" where
  "demo_context = empty_context
     \<lparr>cells := [1 \<mapsto> (demo_exten ''100'' 1 11)\<lparr>peer := 2, enext := 3\<rparr>, 2 \<mapsto> demo_exten ''100'' 2 12,
                3 \<mapsto> demo_exten ''200'' PRIORITY_HINT 13],
      root := 1,
      hint_st := \<lparr>hints = [\<lparr>hint_exten = 3, laststate = 0, callbacks = []\<rparr>], statecbs = [], stateid = 1,
                  hintlock = 0, notified = []\<rparr>\<rparr>"

lemma demo_context_rep: "rep (cells demo_context) (root demo_context) [[1, 2], [3]]"
  by (simp add: rep_def demo_context_def demo_exten_def)

lemma demo_exten_simps:
  "exten (demo_exten ''100'' p d) = ''100''" "exten (demo_exten ''200'' p d) = ''200''"
  "priority (demo_exten nm p d) = p" "enext (demo_exten nm p d) = null" "peer (demo_exten nm p d) = null"
  by (simp_all add: demo_exten_def no_space_def)

text \<open>
  C11. Removing one priority of an extension keeps everything else, unless it is the first
  priority of the first extension of the context and further priorities follow: the named
  extension is found, the cell with the priority is unlinked and freed, and the other
  priorities and extensions remain in order.
\<close>

theorem remove_priority_rows:
  assumes "rep (cells s) (root s) (pre @ (rpre @ p # rpost) # post)"
    and "length (concat (pre @ (rpre @ p # rpost) # post)) < n" "prio \<noteq> 0"
    and "\<And>bs. bs \<in> set pre \<Longrightarrow> \<not> named nm reg (cell (cells s) (head bs))"
    and "named nm reg (cell (cells s) (head (rpre @ p # rpost)))"
    and "\<And>a. a \<in> set rpre \<Longrightarrow> \<not> (priority (cell (cells s) a) = prio \<and> reg_ok reg (cell (cells s) a))"
    and "priority (cell (cells s) p) = prio" "reg_ok reg (cell (cells s) p)"
    and "pre \<noteq> [] \<or> rpre \<noteq> [] \<or> rpost = []"
  shows "\<exists>s'. cw_context_remove_extension2 n True nm prio reg s = Some (True, s') \<and> cells s' p = None \<and>
    holds_rows s' (rows (cells s) (pre @ (if rpre @ rpost = [] then [] else [rpre @ rpost]) @ post))"
proof -
  let ?s1 = "remove_peer (last_head null pre) (head (rpre @ p # rpost)) (last0 null rpre) p s"
  let ?s' = "destroy_cell p (hint_removed p ?s1)" and ?ass = "pre @ (if rpre @ rpost = [] then [] else [rpre @ rpost]) @ post"
  have "rep (cells ?s1) (root ?s1) ?ass" by (rule remove_peer_rows [OF assms(1,9)])
  moreover have "p \<notin> set (concat ?ass)" using assms(1) by (auto simp: rep_def)
  ultimately have "rep (cells ?s') (root ?s') ?ass" "rows (cells ?s') ?ass = rows (cells s) ?ass"
    using rep_free [of "cells ?s1" "root ?s1" ?ass p] remove_peer_frame [of _ _ _ p s ?ass] by auto
  then have "holds_rows ?s' (rows (cells s) ?ass)" unfolding holds_rows_def by blast
  with remove_extension2_found [OF assms(1-8)] show ?thesis by (intro exI [of _ ?s']) simp
qed

theorem remove_priority_rows_witness:
  "\<exists>s'. cw_context_remove_extension2 9 True ''100'' 2 None demo_context = Some (True, s') \<and> cells s' 2 = None \<and>
     holds_rows s' (rows (cells demo_context) [[1], [3]])"
  using remove_priority_rows [of demo_context "[]" "[1]" 2 "[]" "[[3]]" 9 2 "''100''" None] demo_context_rep
  by (simp add: demo_context_def demo_exten_simps named_def cell_def reg_ok_def)

text \<open>
  C12. Removing the first priority of the first extension of a context, when further priorities
  follow whose cells do not point to another extension, drops all other extensions: the
  routine makes the second priority the root without passing on the \<open>next\<close> pointer.
\<close>

theorem remove_first_priority_loses_rest:
  assumes "rep (cells s) (root s) ((e # p # as) # post)" "length (concat ((e # p # as) # post)) < n" "prio \<noteq> 0"
    and "named nm reg (cell (cells s) e)" "priority (cell (cells s) e) = prio" "enext (cell (cells s) p) = null"
  shows "\<exists>s'. cw_context_remove_extension2 n True nm prio reg s = Some (True, s') \<and>
    holds_rows s' (rows (cells s) [p # as])"
proof -
  have r: "rep (cells s) (root s) ([] @ (e # p # as) # post)" using assms(1) by simp
  obtain x where x: "cells s e = Some x" "seg peer (cells s) (peer x) (p # as) null"
      "distinct (concat ([] @ (e # p # as) # post))"
    using rep_row [OF r] by metis
  let ?s1 = "remove_peer null e null e s"
  let ?s' = "destroy_cell e (hint_removed e ?s1)"
  from x(2) obtain y where y: "peer x = p" "cells s p = Some y" "p \<noteq> null" by (auto split: option.splits)
  have "rep (cells s) p [p # as]" using x(2,3) y assms(6) by (auto simp: rep_def cell_def)
  moreover have "e \<notin> set (concat [p # as])" using x(3) by auto
  ultimately have "rep ((cells s)(e := None)) p [p # as]" "rows ((cells s)(e := None)) [p # as] = rows (cells s) [p # as]"
    by (rule rep_free)+
  moreover have "cells ?s' = (cells s)(e := None)" "root ?s' = p"
    using y by (simp_all add: remove_peer_def get_simps [OF x(1)])
  ultimately have "holds_rows ?s' (rows (cells s) [p # as])" unfolding holds_rows_def by auto
  moreover have "cw_context_remove_extension2 n True nm prio reg s = Some (True, ?s')"
    using remove_extension2_found [of s "[]" "[]" e "p # as" post n prio nm reg] assms
    by (auto simp: named_def)
  ultimately show ?thesis by blast
qed

theorem remove_first_priority_loses_rest_witness:
  "\<exists>s'. cw_context_remove_extension2 9 True ''100'' 1 None demo_context = Some (True, s') \<and>
     holds_rows s' [[demo_exten ''100'' 2 12]]"
proof -
  have "content (demo_exten ''100'' 2 12) = demo_exten ''100'' 2 12" by (simp add: demo_exten_def)
  then have "rows (cells demo_context) [[2]] = [[demo_exten ''100'' 2 12]]"
    by (simp add: rows_def cell_def demo_context_def)
  with remove_first_priority_loses_rest [of demo_context 1 2 "[]" "[[3]]" 9 1 "''100''" None] demo_context_rep
  show ?thesis by (simp add: demo_context_def demo_exten_simps named_def cell_def reg_ok_def)
qed

text \<open>
  Removing a whole extension unlinks its row and frees all its priorities, but its hint
  survives: the test that should remove it compares the wrong value, so the hint list
  still points to the freed cell and the next change of any device reads freed memory.
\<close>

theorem remove_all_leaves_dangling_hint:
  assumes "rep (cells s) (root s) (pre @ (e # as) # post)" "length (concat (pre @ (e # as) # post)) < n"
    and "\<And>bs. bs \<in> set pre \<Longrightarrow> \<not> named nm reg (cell (cells s) (head bs))" "named nm reg (cell (cells s) e)"
    and "l \<in> set (hints (hint_st s))" "hint_exten l \<in> set (e # as)"
  shows "\<exists>s'. cw_context_remove_extension2 n True nm 0 reg s = Some (True, s') \<and>
    holds_rows s' (rows (cells s) (pre @ post)) \<and> hints (hint_st s') = hints (hint_st s) \<and>
    cw_hint_state_changed dev (cells s') device (hint_st s') = None"
proof -
  obtain s' where s': "cw_context_remove_extension2 n True nm 0 reg s = Some (True, s')"
      "holds_rows s' (rows (cells s) pre @ rows (cells s) post)" "hint_st s' = hint_st s"
      "\<forall>a\<in>set (e # as). cells s' a = None"
    using remove_extension2_all [OF assms(1-4)] by blast
  have "cells s' (hint_exten l) = None" using s'(4) assms(6) by blast
  then have "cw_hint_state_changed dev (cells s') device (hint_st s') = None"
    using hint_loop_dangling [of l "hints (hint_st s)" "cells s'"] assms(5) s'(3)
    by (simp add: cw_hint_state_changed_def lock_hints_def)
  with s' show ?thesis by auto
qed

theorem remove_all_leaves_dangling_hint_witness:
  "\<exists>s'. cw_context_remove_extension2 9 True ''200'' 0 None demo_context = Some (True, s') \<and>
     cw_hint_state_changed (\<lambda>d. 1) (cells s') ''SIP/a'' (hint_st s') = None"
  using remove_all_leaves_dangling_hint [of demo_context "[[1, 2]]" 3 "[]" "[]" 9 "''200''" None
      "\<lparr>hint_exten = 3, laststate = 0, callbacks = []\<rparr>" "\<lambda>d. 1" "''SIP/a''"] demo_context_rep
  by (auto simp: demo_context_def demo_exten_simps named_def cell_def reg_ok_def)

end
