(* ===== verification/Pbx_Destroy.thy ===== *)
theory Pbx_Destroy
  imports Pbx_Search Pbx_Extens_Remove
begin

text \<open>
  Destroying contexts and replacing the contexts of a registrar, \<open>corelib/pbx.c\<close>:
  \<open>__cw_context_destroy\<close> and \<open>cw_merge_contexts_and_delete\<close>.

  The loop over the contexts restarts at the head of the list after every removal; its two
  list arguments are the contexts passed since the last restart and those still ahead.  The
  walk over the cells of a context needs fuel \<open>n\<close> above the number of its cells.  Which of the
  context locks can be taken is the predicate \<open>lock_ok\<close>.
\<close>

section \<open>The routines of the source\<close>

definition destroy_exten :: "addr \<Rightarrow> ('d, 'c, 'x) pbx \<Rightarrow> ('d, 'c, 'x) pbx" where
  "destroy_exten e s =
     (case pbx_cells s e of
        None \<Rightarrow> s
      | Some x \<Rightarrow>
          (let s = (if priority x = PRIORITY_HINT
                    then s\<lparr>pbx_hints := snd (cw_remove_hint (pbx_cells s) e (pbx_hints s))\<rparr> else s) in
           s\<lparr>pbx_cells := (pbx_cells s)(e := None), pbx_destroyed := pbx_destroyed s @ [app_data x]\<rparr>))"

fun destroy_peers :: "nat \<Rightarrow> addr \<Rightarrow> ('d, 'c, 'x) pbx \<Rightarrow> ('d, 'c, 'x) pbx option" where
  "destroy_peers 0 en s = None"
| "destroy_peers (Suc n) en s =
     (if en = null then Some s
      else case pbx_cells s en of
        None \<Rightarrow> None
      | Some x \<Rightarrow> destroy_peers n (peer x) (destroy_exten en s))"

fun destroy_rows :: "nat \<Rightarrow> nat \<Rightarrow> addr \<Rightarrow> ('d, 'c, 'x) pbx \<Rightarrow> ('d, 'c, 'x) pbx option" where
  "destroy_rows 0 n e s = None"
| "destroy_rows (Suc m) n e s =
     (if e = null then Some s
      else case pbx_cells s e of
        None \<Rightarrow> None
      | Some x \<Rightarrow>
          (case destroy_peers n (peer x) s of
             None \<Rightarrow> None
           | Some s \<Rightarrow> destroy_rows m n (enext x) (destroy_exten e s)))"

text \<open>The test of \<open>__cw_context_destroy\<close>; of the context argument only the hash code is read.\<close>

definition selected :: "u32 option \<Rightarrow> string option \<Rightarrow> cw_context \<Rightarrow> bool" where
  "selected con reg tmp \<longleftrightarrow>
     (case con of Some h \<Rightarrow> con_hash tmp = h | None \<Rightarrow> True) \<and>
     (case reg of None \<Rightarrow> True | Some r \<Rightarrow> strcasecmp r (con_registrar tmp) = 0)"

function destroy_loop ::
    "nat \<Rightarrow> (cw_context \<Rightarrow> bool) \<Rightarrow> u32 option \<Rightarrow> string option \<Rightarrow> cw_context list \<Rightarrow> cw_context list \<Rightarrow>
     ('d, 'c, 'x) pbx \<Rightarrow> ('d, 'c, 'x) pbx option" where
  "destroy_loop n lock_ok con reg passed [] s = Some (cw_unlock_contexts (s\<lparr>contexts := passed\<rparr>))"
| "destroy_loop n lock_ok con reg passed (tmp # rest) s =
     (if selected con reg tmp
      then if \<not> lock_ok tmp then Some (s\<lparr>contexts := passed @ tmp # rest\<rparr>)
           else case destroy_rows n n (con_root tmp) s of
             None \<Rightarrow> None
           | Some s \<Rightarrow>
               if con = None then destroy_loop n lock_ok con reg [] (passed @ rest) s
               else Some (cw_unlock_contexts (s\<lparr>contexts := passed @ rest\<rparr>))
      else destroy_loop n lock_ok con reg (passed @ [tmp]) rest s)"
  by pat_completeness auto
termination
  by (relation "measures [\<lambda>(n, lock_ok, con, reg, passed, rest, s). length passed + length rest,
      \<lambda>(n, lock_ok, con, reg, passed, rest, s). length rest]") auto

definition cw_context_destroy ::
    "nat \<Rightarrow> (cw_context \<Rightarrow> bool) \<Rightarrow> u32 option \<Rightarrow> string option \<Rightarrow> ('d, 'c, 'x) pbx \<Rightarrow> ('d, 'c, 'x) pbx option" where
  "cw_context_destroy n lock_ok con reg s = destroy_loop n lock_ok con reg [] (contexts s) (cw_lock_contexts s)"

subsection \<open>Replacing the contexts of a registrar\<close>

definition CW_EXTENSION_REMOVED :: int where "CW_EXTENSION_REMOVED = - 2"

record ('c, 'x) store_hint =
  sh_context :: string
  sh_exten :: string
  sh_callbacks :: "('c, 'x) cw_state_cb list"
  sh_laststate :: int

text \<open>\<open>hint->exten->parent->registrar\<close>: the parent is known by its name.\<close>

definition parent_registrar :: "cw_context list \<Rightarrow> 'd cw_exten \<Rightarrow> string option" where
  "parent_registrar cons x = map_option con_registrar (find (\<lambda>c. con_name c = parent x) cons)"

text \<open>The watchers of the hints of the registrar are set aside, the last hint first.  \<open>mem\<close> says for
  which hints \<open>calloc\<close> succeeds.  \<open>None\<close> stands for a read through a dangling pointer.\<close>

fun store_loop :: "(addr \<Rightarrow> bool) \<Rightarrow> 'd heap \<Rightarrow> cw_context list \<Rightarrow> string option \<Rightarrow> ('c, 'x) store_hint list \<Rightarrow>
    ('c, 'x) cw_hint list \<Rightarrow> (('c, 'x) cw_hint list \<times> ('c, 'x) store_hint list) option" where
  "store_loop mem h cons reg store [] = Some ([], store)"
| "store_loop mem h cons reg store (hint # rest) =
     (if callbacks hint = [] then map_option (apfst ((#) hint)) (store_loop mem h cons reg store rest)
      else case (reg, h (hint_exten hint)) of
        (Some r, Some x) \<Rightarrow>
          (case parent_registrar cons x of
             None \<Rightarrow> None
           | Some pr \<Rightarrow>
               if strcmp r pr = 0 \<and> mem (hint_exten hint)
               then map_option (apfst ((#) (hint\<lparr>callbacks := []\<rparr>)))
                      (store_loop mem h cons reg
                        (\<lparr>sh_context = parent x, sh_exten = exten x, sh_callbacks = callbacks hint,
                          sh_laststate = laststate hint\<rparr> # store) rest)
               else map_option (apfst ((#) hint)) (store_loop mem h cons reg store rest))
      | _ \<Rightarrow> None)"

text \<open>Every context of the new list is first removed from the old one under its own registrar.\<close>

fun destroy_each :: "nat \<Rightarrow> (cw_context \<Rightarrow> bool) \<Rightarrow> cw_context list \<Rightarrow> ('d, 'c, 'x) pbx \<Rightarrow> ('d, 'c, 'x) pbx option" where
  "destroy_each n lock_ok [] s = Some s"
| "destroy_each n lock_ok (tmp # rest) s =
     (case cw_context_destroy n lock_ok (Some (con_hash tmp)) (Some (con_registrar tmp)) s of
        None \<Rightarrow> None
      | Some s \<Rightarrow> destroy_each n lock_ok rest s)"

text \<open>The watchers that were set aside go to the hint found under the same context and
  extension, in front of its own, or are told that the hint is gone.\<close>

definition restore_one :: "addr option \<Rightarrow> ('c, 'x) store_hint \<Rightarrow> ('c, 'x) hint_state \<Rightarrow> ('c, 'x) hint_state" where
  "restore_one ex this s =
     (let s = lock_hints s in
      unlock_hints
        (case (ex, find (\<lambda>l. Some (hint_exten l) = ex) (hints s)) of
           (Some e, Some _) \<Rightarrow>
             s\<lparr>hints := (case List.extract (\<lambda>l. hint_exten l = e) (hints s) of
                 Some (before, l, rest) \<Rightarrow>
                   before @ l\<lparr>callbacks := sh_callbacks this @ callbacks l, laststate := sh_laststate this\<rparr> # rest
               | None \<Rightarrow> hints s)\<rparr>
         | _ \<Rightarrow>
             s\<lparr>notified := notified s @
                 map (\<lambda>cb. (cb_callback cb, sh_context this, sh_exten this, CW_EXTENSION_REMOVED, cb_data cb))
                   (sh_callbacks this)\<rparr>))"

fun restore_loop :: "bool \<Rightarrow> nat \<Rightarrow> find_env \<Rightarrow> ('c, 'x) store_hint list \<Rightarrow> ('d, 'c, 'x) pbx \<Rightarrow> ('d, 'c, 'x) pbx option" where
  "restore_loop conlock_ok n env [] s = Some s"
| "restore_loop conlock_ok n env (this # store) s =
     (case cw_hint_extension conlock_ok n env s (sh_context this) (sh_exten this) of
        None \<Rightarrow> None
      | Some ex \<Rightarrow> restore_loop conlock_ok n env store (s\<lparr>pbx_hints := restore_one ex this (pbx_hints s)\<rparr>))"

definition cw_merge_contexts_and_delete ::
    "nat \<Rightarrow> find_env \<Rightarrow> bool \<Rightarrow> (cw_context \<Rightarrow> bool) \<Rightarrow> (addr \<Rightarrow> bool) \<Rightarrow> cw_context list \<Rightarrow> string option \<Rightarrow>
     ('d, 'c, 'x) pbx \<Rightarrow> (cw_context list \<times> ('d, 'c, 'x) pbx) option" where
  "cw_merge_contexts_and_delete n env conlock_ok lock_ok mem extcontexts reg s =
     (let s = s\<lparr>pbx_hints := lock_hints (pbx_hints s)\<rparr> in
      case store_loop mem (pbx_cells s) (contexts s @ extcontexts) reg [] (hints (pbx_hints s)) of
        None \<Rightarrow> None
      | Some (hs, store) \<Rightarrow>
          (let s = s\<lparr>pbx_hints := unlock_hints ((pbx_hints s)\<lparr>hints := hs\<rparr>)\<rparr>;
               s = cw_lock_contexts s in
           case (if reg \<noteq> None then cw_context_destroy n lock_ok None reg s
                 else destroy_each n lock_ok extcontexts s) of
             None \<Rightarrow> None
           | Some s \<Rightarrow>
               (let (ext, s) = (if extcontexts \<noteq> [] then ([], s\<lparr>contexts := extcontexts @ contexts s\<rparr>)
                                else (extcontexts, s));
                    s = cw_unlock_contexts s in
                map_option (Pair ext) (restore_loop conlock_ok n env store s))))"

section \<open>Live hints\<close>

text \<open>Every hint points to an allocated hint cell, and no two to the same one.\<close>

definition hints_live :: "'d heap \<Rightarrow> ('c, 'x) hint_state \<Rightarrow> bool" where
  "hints_live h s \<longleftrightarrow> distinct (map hint_exten (hints s)) \<and>
     (\<forall>l\<in>set (hints s). \<exists>x. h (hint_exten l) = Some x \<and> priority x = PRIORITY_HINT)"

lemma remove_hint_hints:
  assumes "distinct (map hint_exten (hints s))" "e \<noteq> null"
  shows "hints (snd (cw_remove_hint h e s)) = filter (\<lambda>l. hint_exten l \<noteq> e) (hints s)"
proof (cases "List.extract (\<lambda>l. hint_exten l = e) (hints s)")
  case None
  then have "filter (\<lambda>l. hint_exten l \<noteq> e) (hints s) = hints s" by (simp add: extract_None_iff filter_id_conv)
  with None assms(2) show ?thesis by (simp add: cw_remove_hint_def lock_hints_def unlock_hints_def Let_def)
next
  case (Some r)
  obtain before l rest where r: "r = (before, l, rest)" by (cases r)
  then have l: "hints s = before @ l # rest" "hint_exten l = e" using Some by (auto simp: extract_Some_iff)
  then have "\<forall>k\<in>set (before @ rest). hint_exten k \<noteq> e" using assms(1) by (auto simp: image_iff)
  then have "filter (\<lambda>l. hint_exten l \<noteq> e) (hints s) = before @ rest" using l by (simp add: filter_id_conv)
  then show ?thesis using Some assms(2)
    by (simp add: r cw_remove_hint_def lock_hints_def unlock_hints_def Let_def)
qed

lemma destroy_exten_simps [simp]:
  "contexts (destroy_exten e s) = contexts s" "conlock (destroy_exten e s) = conlock s"
  "pbx_cells (destroy_exten e s) = (pbx_cells s)(e := None)"
  by (auto simp: destroy_exten_def Let_def split: option.splits)

lemma destroy_exten_live:
  assumes "hints_live (pbx_cells s) (pbx_hints s)" "e \<noteq> null"
  shows "hints_live (pbx_cells (destroy_exten e s)) (pbx_hints (destroy_exten e s))"
proof (cases "pbx_cells s e")
  case None
  then have "(pbx_cells s)(e := None) = pbx_cells s" by auto
  moreover have "destroy_exten e s = s" using None by (simp add: destroy_exten_def)
  ultimately show ?thesis using assms by simp
next
  case (Some x)
  have d: "distinct (map hint_exten (hints (pbx_hints s)))" using assms(1) by (simp add: hints_live_def)
  show ?thesis
  proof (cases "priority x = PRIORITY_HINT")
    case True
    then have "hints (pbx_hints (destroy_exten e s)) = filter (\<lambda>l. hint_exten l \<noteq> e) (hints (pbx_hints s))"
      using Some remove_hint_hints [OF d assms(2)] by (simp add: destroy_exten_def Let_def)
    then show ?thesis using assms(1) by (auto simp: hints_live_def distinct_map_filter)
  next
    case False
    then have h: "hints (pbx_hints (destroy_exten e s)) = hints (pbx_hints s)" using Some by (simp add: destroy_exten_def Let_def)
    have "hint_exten l \<noteq> e" if "l \<in> set (hints (pbx_hints s))" for l
      using assms(1) that Some False by (auto simp: hints_live_def)
    then show ?thesis using assms(1) h by (auto simp: hints_live_def)
  qed
qed

section \<open>The cells of a context\<close>

definition freed :: "addr set \<Rightarrow> 'd heap \<Rightarrow> 'd heap" where
  "freed A h = (\<lambda>a. if a \<in> A then None else h a)"

lemma freed_simps [simp]: "freed {} h = h" "freed A (h(e := None)) = freed (insert e A) h" "freed A (freed B h) = freed (A \<union> B) h"
  by (auto simp: freed_def fun_eq_iff)

lemma seg_freed: "set as \<inter> A = {} \<Longrightarrow> seg f (freed A h) p as q = seg f h p as q"
  by (rule seg_cong) (auto simp: freed_def)

lemma head_in_concat: "as \<in> set ass \<Longrightarrow> as \<noteq> [] \<Longrightarrow> head as \<in> set (concat ass)"
  by (cases as) (auto intro: bexI [of _ as])

lemma heads_disjoint:
  assumes "\<forall>as\<in>set ass. as \<noteq> []" "A \<inter> set (concat ass) = {}"
  shows "set (map head ass) \<inter> A = {}"
proof -
  have "head as \<notin> A" if "as \<in> set ass" for as using head_in_concat [OF that] assms that by blast
  then show ?thesis by auto
qed

lemma destroy_peers_seg:
  assumes "seg peer (pbx_cells s) p as null" "distinct as" "length as < n" "hints_live (pbx_cells s) (pbx_hints s)"
  shows "\<exists>s'. destroy_peers n p s = Some s' \<and> pbx_cells s' = freed (set as) (pbx_cells s) \<and>
    contexts s' = contexts s \<and> conlock s' = conlock s \<and> hints_live (pbx_cells s') (pbx_hints s')"
  using assms
proof (induction as arbitrary: p n s)
  case Nil
  then show ?case by (cases n) auto
next
  case (Cons a as)
  then obtain m where m: "n = Suc m" "length as < m" by (cases n) auto
  from Cons.prems(1) obtain x where x: "p = a" "a \<noteq> null" "pbx_cells s a = Some x" "seg peer (pbx_cells s) (peer x) as null"
    by (auto split: option.splits)
  have "seg peer (pbx_cells (destroy_exten a s)) (peer x) as null"
    using x(4) Cons.prems(2) by (simp add: seg_update)
  from Cons.IH [OF this _ m(2) destroy_exten_live [OF Cons.prems(4) x(2)]] Cons.prems(2) obtain s' where
    s': "destroy_peers m (peer x) (destroy_exten a s) = Some s'" "pbx_cells s' = freed (set as) (pbx_cells (destroy_exten a s))"
      "contexts s' = contexts (destroy_exten a s)" "conlock s' = conlock (destroy_exten a s)"
      "hints_live (pbx_cells s') (pbx_hints s')" by (metis distinct.simps(2))
  then have "pbx_cells s' = freed (set (a # as)) (pbx_cells s)" by (auto simp: freed_def fun_eq_iff)
  with s' m x show ?case by simp
qed

lemma destroy_rows_seg:
  assumes "seg enext (pbx_cells s) p (map head ass) null" "\<forall>as\<in>set ass. as \<noteq> [] \<and> seg peer (pbx_cells s) (head as) as null"
    and "distinct (concat ass)" "length ass < m" "length (concat ass) < n" "hints_live (pbx_cells s) (pbx_hints s)"
  shows "\<exists>s'. destroy_rows m n p s = Some s' \<and> pbx_cells s' = freed (set (concat ass)) (pbx_cells s) \<and>
    contexts s' = contexts s \<and> conlock s' = conlock s \<and> hints_live (pbx_cells s') (pbx_hints s')"
  using assms
proof (induction ass arbitrary: p m s)
  case Nil
  then show ?case by (cases m) auto
next
  case (Cons as ass)
  then obtain k where k: "m = Suc k" "length ass < k" by (cases m) auto
  obtain e bs where as: "as = e # bs" using Cons.prems(2) by (cases as) auto
  from Cons.prems(1) obtain x where x: "p = e" "e \<noteq> null" "pbx_cells s e = Some x"
      "seg enext (pbx_cells s) (enext x) (map head ass) null" by (auto simp: as split: option.splits)
  have bs: "seg peer (pbx_cells s) (peer x) bs null" using Cons.prems(2) x(3) by (auto simp: as)
  have d: "distinct (e # bs)" "set as \<inter> set (concat ass) = {}" "distinct (concat ass)" using Cons.prems(3) as by auto
  obtain s1 where s1: "destroy_peers n (peer x) s = Some s1" "pbx_cells s1 = freed (set bs) (pbx_cells s)"
      "contexts s1 = contexts s" "conlock s1 = conlock s" "hints_live (pbx_cells s1) (pbx_hints s1)"
    using destroy_peers_seg [OF bs _ _ Cons.prems(6), of n] d(1) Cons.prems(5) as by auto
  define s2 where "s2 = destroy_exten e s1"
  have c2: "pbx_cells s2 = freed (set as) (pbx_cells s)" using s1(2) by (auto simp: s2_def as freed_def fun_eq_iff)
  have s2: "contexts s2 = contexts s" "conlock s2 = conlock s" "hints_live (pbx_cells s2) (pbx_hints s2)"
    unfolding s2_def using s1(3,4) destroy_exten_live [OF s1(5) x(2)] by simp_all
  have heads: "set (map head ass) \<inter> set as = {}"
    by (rule heads_disjoint) (use d(2) Cons.prems(2) in auto)
  have "seg enext (pbx_cells s2) (enext x) (map head ass) null" unfolding c2 seg_freed [OF heads] by (rule x(4))
  moreover have "\<forall>cs\<in>set ass. cs \<noteq> [] \<and> seg peer (pbx_cells s2) (head cs) cs null"
  proof
    fix cs assume cs: "cs \<in> set ass"
    then have dis: "set cs \<inter> set as = {}" using d(2) by auto
    show "cs \<noteq> [] \<and> seg peer (pbx_cells s2) (head cs) cs null"
      unfolding c2 seg_freed [OF dis] using Cons.prems(2) cs by auto
  qed
  ultimately obtain s' where "destroy_rows k n (enext x) s2 = Some s'"
      "pbx_cells s' = freed (set (concat ass)) (pbx_cells s2)" "contexts s' = contexts s" "conlock s' = conlock s"
      "hints_live (pbx_cells s') (pbx_hints s')"
    using Cons.IH [of s2 "enext x" k] d(3) k(2) Cons.prems(5) s2 as by auto
  then show ?case using s1(1) k(1) x(1-3) c2 by (auto simp: s2_def [symmetric] Un_commute)
qed

lemma destroy_rows_rep:
  assumes "rep (pbx_cells s) p ass" "length (concat ass) < n" "hints_live (pbx_cells s) (pbx_hints s)"
  shows "\<exists>s'. destroy_rows n n p s = Some s' \<and> pbx_cells s' = freed (set (concat ass)) (pbx_cells s) \<and>
    contexts s' = contexts s \<and> conlock s' = conlock s \<and> hints_live (pbx_cells s') (pbx_hints s')"
proof -
  have "length ass < n" using concat_length_le [of ass] assms(1,2) by (auto simp: rep_def)
  then show ?thesis using destroy_rows_seg [of s p ass n n] assms by (simp add: rep_def)
qed

lemma rep_freed: "rep h r ass \<Longrightarrow> A \<inter> set (concat ass) = {} \<Longrightarrow> rep (freed A h) r ass"
proof -
  assume r: "rep h r ass" and d: "A \<inter> set (concat ass) = {}"
  have "set as \<inter> A = {}" if "as \<in> set ass" for as using that d by auto
  moreover have "set (map head ass) \<inter> A = {}"
    by (rule heads_disjoint [OF _ d]) (use r in \<open>auto simp: rep_def\<close>)
  ultimately show ?thesis using r seg_freed [of _ A _ h] by (auto simp: rep_def)
qed

section \<open>Destroying contexts\<close>

definition con_cells :: "'d heap \<Rightarrow> cw_context \<Rightarrow> addr set" where
  "con_cells h c = {a. \<exists>ass. rep h (con_root c) ass \<and> a \<in> set (concat ass)}"

definition separate :: "'d heap \<Rightarrow> cw_context list \<Rightarrow> bool" where
  "separate h cs \<longleftrightarrow> distinct cs \<and> (\<forall>c\<in>set cs. \<forall>d\<in>set cs. c \<noteq> d \<longrightarrow> con_cells h c \<inter> con_cells h d = {})"

lemma con_cells_rep: "rep h (con_root c) ass \<Longrightarrow> con_cells h c = set (concat ass)"
  using rep_unique unfolding con_cells_def by blast

lemma con_cells_freed:
  assumes "rep h (con_root c) ass" "A \<inter> con_cells h c = {}"
  shows "rep (freed A h) (con_root c) ass" "con_cells (freed A h) c = con_cells h c"
proof -
  show "rep (freed A h) (con_root c) ass" using rep_freed [OF assms(1)] assms con_cells_rep by metis
  then show "con_cells (freed A h) c = con_cells h c" using con_cells_rep assms(1) by metis
qed

lemma separate_freed:
  assumes "separate h (as @ c # bs)" "dialplan_ok n h (as @ c # bs)"
  shows "separate (freed (con_cells h c) h) (as @ bs)" "dialplan_ok n (freed (con_cells h c) h) (as @ bs)"
    "\<And>d. d \<in> set (as @ bs) \<Longrightarrow> con_cells (freed (con_cells h c) h) d = con_cells h d"
proof -
  have d: "con_cells h c \<inter> con_cells h d = {}" if "d \<in> set (as @ bs)" for d
    using assms(1) that unfolding separate_def by fastforce
  have r: "\<exists>ass. rep h (con_root d) ass \<and> length (concat ass) < n" if "d \<in> set (as @ bs)" for d
    using assms(2) that by (auto simp: dialplan_ok_def)
  have keep: "\<exists>ass. rep (freed (con_cells h c) h) (con_root d) ass \<and> length (concat ass) < n"
    "con_cells (freed (con_cells h c) h) d = con_cells h d" if "d \<in> set (as @ bs)" for d
    using r [OF that] con_cells_freed [OF _ d [OF that]] by blast+
  from keep(1) show "dialplan_ok n (freed (con_cells h c) h) (as @ bs)" unfolding dialplan_ok_def by blast
  show "con_cells (freed (con_cells h c) h) e = con_cells h e" if "e \<in> set (as @ bs)" for e using keep(2) [OF that] .
  have "con_cells h e \<inter> con_cells h f = {}" if "e \<in> set (as @ bs)" "f \<in> set (as @ bs)" "e \<noteq> f" for e f
    using assms(1) that unfolding separate_def by (metis in_set_conv_decomp in_set_conv_decomp_first list.set_intros(2) UnE UnI1 UnI2 set_append)
  with keep(2) assms(1) show "separate (freed (con_cells h c) h) (as @ bs)" by (auto simp: separate_def)
qed

definition gone :: "'d heap \<Rightarrow> (cw_context \<Rightarrow> bool) \<Rightarrow> cw_context list \<Rightarrow> addr set" where
  "gone h P cs = (\<Union>c\<in>{c \<in> set cs. P c}. con_cells h c)"

lemma destroy_loop_all:
  assumes "dialplan_ok n (pbx_cells s) (passed @ rest)" "separate (pbx_cells s) (passed @ rest)"
    and "hints_live (pbx_cells s) (pbx_hints s)" "\<And>c. lock_ok c" "\<forall>c\<in>set passed. \<not> selected None reg c"
  shows "\<exists>s'. destroy_loop n lock_ok None reg passed rest s = Some s' \<and>
    contexts s' = filter (\<lambda>c. \<not> selected None reg c) (passed @ rest) \<and> conlock s' = conlock s - 1 \<and>
    pbx_cells s' = freed (gone (pbx_cells s) (selected None reg) (passed @ rest)) (pbx_cells s) \<and>
    hints_live (pbx_cells s') (pbx_hints s')"
  using assms
proof (induction n lock_ok "None :: u32 option" reg passed rest s rule: destroy_loop.induct)
  case (1 n lock_ok reg passed s)
  then have "filter (\<lambda>c. \<not> selected None reg c) passed = passed" "gone (pbx_cells s) (selected None reg) passed = {}"
    by (auto simp: filter_id_conv gone_def)
  with 1 show ?case by (simp add: cw_unlock_contexts_def)
next
  case (2 n lock_ok reg passed tmp rest s)
  show ?case
  proof (cases "selected None reg tmp")
    case True
    obtain ass where ass: "rep (pbx_cells s) (con_root tmp) ass" "length (concat ass) < n"
      using "2.prems"(1) by (auto simp: dialplan_ok_def)
    obtain s1 where s1: "destroy_rows n n (con_root tmp) s = Some s1" "pbx_cells s1 = freed (con_cells (pbx_cells s) tmp) (pbx_cells s)"
        "conlock s1 = conlock s" "hints_live (pbx_cells s1) (pbx_hints s1)"
      using destroy_rows_rep [OF ass "2.prems"(3)] con_cells_rep [OF ass(1)] by auto
    note sep = separate_freed [OF "2.prems"(2,1)]
    have "\<exists>s'. destroy_loop n lock_ok None reg [] (passed @ rest) s1 = Some s' \<and>
      contexts s' = filter (\<lambda>c. \<not> selected None reg c) ([] @ passed @ rest) \<and> conlock s' = conlock s1 - 1 \<and>
      pbx_cells s' = freed (gone (pbx_cells s1) (selected None reg) ([] @ passed @ rest)) (pbx_cells s1) \<and>
      hints_live (pbx_cells s') (pbx_hints s')"
      by (rule "2.hyps"(1)) (use True s1 sep(1,2) "2.prems"(4) in auto)
    then obtain s' where s': "destroy_loop n lock_ok None reg [] (passed @ rest) s1 = Some s'"
        "contexts s' = filter (\<lambda>c. \<not> selected None reg c) (passed @ rest)" "conlock s' = conlock s - 1"
        "pbx_cells s' = freed (gone (pbx_cells s1) (selected None reg) (passed @ rest)) (pbx_cells s1)"
        "hints_live (pbx_cells s') (pbx_hints s')" using s1(3) by auto
    have "gone (pbx_cells s1) (selected None reg) (passed @ rest) = gone (pbx_cells s) (selected None reg) (passed @ rest)"
      using sep(3) by (auto simp: gone_def s1(2))
    then have "pbx_cells s' = freed (gone (pbx_cells s) (selected None reg) (passed @ tmp # rest)) (pbx_cells s)"
      using True by (auto simp: s'(4) s1(2) gone_def freed_def fun_eq_iff)
    then show ?thesis using s' s1(1) True "2.prems"(4) by simp
  next
    case False
    have "\<exists>s'. destroy_loop n lock_ok None reg (passed @ [tmp]) rest s = Some s' \<and>
      contexts s' = filter (\<lambda>c. \<not> selected None reg c) ((passed @ [tmp]) @ rest) \<and> conlock s' = conlock s - 1 \<and>
      pbx_cells s' = freed (gone (pbx_cells s) (selected None reg) ((passed @ [tmp]) @ rest)) (pbx_cells s) \<and>
      hints_live (pbx_cells s') (pbx_hints s')"
      by (rule "2.hyps"(2)) (use False "2.prems" in auto)
    with False show ?thesis by simp
  qed
qed

section \<open>No watcher is lost\<close>

definition cb_key :: "('c, 'x) cw_state_cb \<Rightarrow> 'c \<times> 'x" where
  "cb_key c = (cb_callback c, cb_data c)"

definition watchers :: "('c, 'x) cw_hint list \<Rightarrow> ('c \<times> 'x) set" where
  "watchers hs = (\<Union>l\<in>set hs. cb_key ` set (callbacks l))"

definition set_aside :: "('c, 'x) store_hint list \<Rightarrow> ('c \<times> 'x) set" where
  "set_aside st = (\<Union>t\<in>set st. cb_key ` set (sh_callbacks t))"

definition tell :: "'c \<times> string \<times> string \<times> int \<times> 'x \<Rightarrow> 'c \<times> 'x" where
  "tell call = (fst call, snd (snd (snd (snd call))))"

definition told :: "('c, 'x) hint_state \<Rightarrow> ('c \<times> 'x) set" where
  "told s = tell ` set (notified s)"

definition known :: "('c, 'x) hint_state \<Rightarrow> ('c \<times> 'x) set" where
  "known s = watchers (hints s) \<union> told s"

lemma watchers_simps [simp]:
  "watchers [] = {}" "watchers (l # hs) = cb_key ` set (callbacks l) \<union> watchers hs" "watchers (hs @ hs') = watchers hs \<union> watchers hs'"
  by (auto simp: watchers_def)

lemma told_notify:
  "tell ` set (notify x st cbs) = cb_key ` set cbs"
  "tell ` (\<lambda>cb. (cb_callback cb, con, ex, st, cb_data cb)) ` A = cb_key ` A"
  by (auto simp: notify_def cb_key_def tell_def image_image)

lemma lock_known [simp]: "known (lock_hints s) = known s" "known (unlock_hints s) = known s"
  by (simp_all add: known_def told_def lock_hints_def unlock_hints_def)

lemma remove_hint_known:
  assumes "h e = Some x"
  shows "known s \<subseteq> known (snd (cw_remove_hint h e s))"
proof (cases "e = null \<or> List.extract (\<lambda>l. hint_exten l = e) (hints s) = None")
  case True
  then have "snd (cw_remove_hint h e s) = s \<or> snd (cw_remove_hint h e s) = unlock_hints (lock_hints s)"
    by (auto simp: cw_remove_hint_def lock_hints_def Let_def)
  then show ?thesis by auto
next
  case False
  then obtain before l rest where l: "List.extract (\<lambda>l. hint_exten l = e) (hints s) = Some (before, l, rest)" by auto
  then have "hints s = before @ l # rest" by (auto simp: extract_Some_iff)
  moreover have "snd (cw_remove_hint h e s) = unlock_hints ((lock_hints s)\<lparr>hints := before @ rest,
      notified := notified s @ notify x CW_EXTENSION_DEACTIVATED (callbacks l)\<rparr>)"
    using False l assms by (simp add: cw_remove_hint_def lock_hints_def Let_def)
  ultimately show ?thesis by (auto simp: known_def told_def image_Un told_notify lock_hints_def unlock_hints_def)
qed

lemma destroy_exten_known: "known (pbx_hints s) \<subseteq> known (pbx_hints (destroy_exten e s))"
  using remove_hint_known [of "pbx_cells s" e _ "pbx_hints s"]
  by (auto simp: destroy_exten_def Let_def split: option.splits)

lemma destroy_peers_known: "destroy_peers n p s = Some s' \<Longrightarrow> known (pbx_hints s) \<subseteq> known (pbx_hints s')"
proof (induction n p s rule: destroy_peers.induct)
  case (2 n en s)
  then show ?case using destroy_exten_known [of s en] by (auto split: if_splits option.splits)
qed simp

lemma destroy_rows_known: "destroy_rows m n p s = Some s' \<Longrightarrow> known (pbx_hints s) \<subseteq> known (pbx_hints s')"
proof (induction m n p s rule: destroy_rows.induct)
  case (2 m n e s)
  then show ?case
    using destroy_peers_known [of n _ s] destroy_exten_known [of _ e] by (fastforce split: if_splits option.splits)
qed simp

lemma store_loop_watchers:
  "store_loop mem h cons reg st hs = Some (hs', st') \<Longrightarrow> watchers hs \<union> set_aside st \<subseteq> watchers hs' \<union> set_aside st'"
proof (induction mem h cons reg st hs arbitrary: hs' st' rule: store_loop.induct)
  case (2 mem h cons reg st hint rest)
  show ?case
  proof (cases "callbacks hint = []")
    case True
    with 2 show ?thesis by (auto simp: apfst_def map_prod_def)
  next
    case False
    with 2 obtain r x pr where r: "reg = Some r" "h (hint_exten hint) = Some x" "parent_registrar cons x = Some pr"
      by (auto split: option.splits)
    show ?thesis
    proof (cases "strcmp r pr = 0 \<and> mem (hint_exten hint)")
      case True
      let ?t = "\<lparr>sh_context = parent x, sh_exten = exten x, sh_callbacks = callbacks hint, sh_laststate = laststate hint\<rparr>"
      from "2.prems" False r True obtain hs2 where h2: "store_loop mem h cons reg (?t # st) rest = Some (hs2, st')"
          "hs' = hint\<lparr>callbacks := []\<rparr> # hs2" by (auto simp: apfst_def map_prod_def)
      from "2.IH"(2) [OF False refl r(1) r(2) r(3) True h2(1)] h2(2) show ?thesis by (auto simp: set_aside_def)
    next
      case nt: False
      from "2.prems" False r nt obtain hs2 where h2: "store_loop mem h cons reg st rest = Some (hs2, st')"
          "hs' = hint # hs2" by (auto simp: apfst_def map_prod_def)
      from "2.IH"(3) [OF False refl r(1) r(2) r(3) nt h2(1)] h2(2) show ?thesis by auto
    qed
  qed
qed simp

lemma restore_one_known:
  "known s \<union> cb_key ` set (sh_callbacks this) \<subseteq> known (restore_one ex this s)"
proof (cases "ex = None \<or> find (\<lambda>l. Some (hint_exten l) = ex) (hints s) = None")
  case True
  then show ?thesis
    by (auto simp: restore_one_def Let_def known_def told_def lock_hints_def unlock_hints_def image_Un told_notify
        split: option.splits)
next
  case False
  then obtain e l0 where e: "ex = Some e" "find (\<lambda>l. Some (hint_exten l) = ex) (hints s) = Some l0" by auto
  then have "l0 \<in> set (hints s)" "hint_exten l0 = e" by (auto dest: find_SomeD)
  then obtain before l rest where l: "List.extract (\<lambda>l. hint_exten l = e) (hints s) = Some (before, l, rest)"
    by (cases "List.extract (\<lambda>l. hint_exten l = e) (hints s)") (auto simp: extract_None_iff)
  then have "hints s = before @ l # rest" by (auto simp: extract_Some_iff)
  with e l show ?thesis
    by (auto simp: restore_one_def Let_def known_def told_def lock_hints_def unlock_hints_def)
qed

lemma restore_loop_known:
  "restore_loop k n env st s = Some s' \<Longrightarrow> known (pbx_hints s) \<union> set_aside st \<subseteq> known (pbx_hints s')"
proof (induction st arbitrary: s)
  case (Cons t st)
  then obtain ex where "restore_loop k n env st (s\<lparr>pbx_hints := restore_one ex t (pbx_hints s)\<rparr>) = Some s'"
    by (auto split: option.splits)
  from Cons.IH [OF this] restore_one_known [of "pbx_hints s" t ex] show ?case by (auto simp: set_aside_def)
qed (simp add: set_aside_def)

lemma destroy_loop_known:
  "destroy_loop n lock_ok con reg passed rest s = Some s' \<Longrightarrow> known (pbx_hints s) \<subseteq> known (pbx_hints s')"
proof (induction n lock_ok con reg passed rest s rule: destroy_loop.induct)
  case (1 n lock_ok con reg passed s)
  then show ?case by (auto simp: cw_unlock_contexts_def)
next
  case (2 n lock_ok con reg passed tmp rest s)
  then show ?case using destroy_rows_known [of n n "con_root tmp" s]
    by (fastforce simp: cw_unlock_contexts_def split: if_splits option.splits)
qed

lemma destroy_known: "cw_context_destroy n lock_ok con reg s = Some s' \<Longrightarrow> known (pbx_hints s) \<subseteq> known (pbx_hints s')"
  using destroy_loop_known [of n lock_ok con reg "[]" "contexts s" "cw_lock_contexts s"]
  by (simp add: cw_context_destroy_def cw_lock_contexts_def)

section \<open>Replacing contexts returns\<close>

lemma store_loop_returns:
  "(\<forall>l\<in>set hs. \<exists>x. h (hint_exten l) = Some x \<and> parent_registrar cons x \<noteq> None) \<Longrightarrow>
     \<exists>hs' st'. store_loop mem h cons (Some r) st hs = Some (hs', st') \<and> map hint_exten hs' = map hint_exten hs"
proof (induction hs arbitrary: st)
  case (Cons l hs)
  then obtain x pr where x: "h (hint_exten l) = Some x" "parent_registrar cons x = Some pr" by auto
  from Cons have IH: "\<exists>hs' st'. store_loop mem h cons (Some r) st hs = Some (hs', st') \<and> map hint_exten hs' = map hint_exten hs" for st
    by auto
  show ?case
  proof (cases "callbacks l = [] \<or> \<not> (strcmp r pr = 0 \<and> mem (hint_exten l))")
    case True
    with IH [of st] x show ?thesis by auto
  next
    case False
    with IH [of "\<lparr>sh_context = parent x, sh_exten = exten x, sh_callbacks = callbacks l, sh_laststate = laststate l\<rparr> # st"] x
    show ?thesis by auto
  qed
qed simp

lemma hints_live_cong:
  fixes s t :: "('c, 'x) hint_state"
  assumes "map hint_exten (hints s) = map hint_exten (hints t)"
  shows "hints_live h s \<longleftrightarrow> hints_live h t"
proof -
  have "hints_live h u \<longleftrightarrow> distinct (map hint_exten (hints u)) \<and>
      (\<forall>e\<in>set (map hint_exten (hints u)). \<exists>x. h e = Some x \<and> priority x = PRIORITY_HINT)" for u :: "('c, 'x) hint_state"
    by (auto simp: hints_live_def)
  with assms show ?thesis by metis
qed

lemma hint_extension_returns:
  assumes "dialplan_ok n (pbx_cells s) (contexts s)"
  shows "\<exists>ex. cw_hint_extension k n env s context ext = Some ex"
proof -
  have "byp_ok (contexts s) None" by (simp add: byp_ok_def)
  from search_total [OF assms this] show ?thesis unfolding cw_hint_extension_def by (metis option.simps(9))
qed

lemma restore_one_extens: "map hint_exten (hints (restore_one ex t s)) = map hint_exten (hints s)"
  by (auto simp: restore_one_def Let_def lock_hints_def unlock_hints_def extract_Some_iff split: option.splits)

lemma restore_loop_returns:
  assumes "dialplan_ok n (pbx_cells s) (contexts s)"
  shows "\<exists>s'. restore_loop k n env st s = Some s' \<and> contexts s' = contexts s \<and> pbx_cells s' = pbx_cells s \<and>
    conlock s' = conlock s \<and> map hint_exten (hints (pbx_hints s')) = map hint_exten (hints (pbx_hints s))"
  using assms
proof (induction st arbitrary: s)
  case (Cons t st)
  obtain ex where ex: "cw_hint_extension k n env s (sh_context t) (sh_exten t) = Some ex"
    using hint_extension_returns [OF Cons.prems] by blast
  let ?s = "s\<lparr>pbx_hints := restore_one ex t (pbx_hints s)\<rparr>"
  from Cons.IH [of ?s] Cons.prems obtain s' where "restore_loop k n env st ?s = Some s' \<and> contexts s' = contexts s \<and>
      pbx_cells s' = pbx_cells s \<and> conlock s' = conlock s \<and>
      map hint_exten (hints (pbx_hints s')) = map hint_exten (hints (pbx_hints ?s))" by auto
  with ex restore_one_extens [of ex t "pbx_hints s"] show ?case by auto
qed simp

lemma gone_disjoint:
  assumes "separate h cs" "set ds \<subseteq> set cs" "c \<in> set cs" "c \<in> set ds \<Longrightarrow> \<not> P c"
  shows "gone h P ds \<inter> con_cells h c = {}"
proof -
  have "con_cells h d \<inter> con_cells h c = {}" if "d \<in> set ds" "P d" for d
  proof -
    have "d \<noteq> c" using assms(4) that by auto
    with assms(1-3) that(1) show ?thesis unfolding separate_def by (meson subsetD)
  qed
  then show ?thesis by (auto simp: gone_def)
qed

lemma dialplan_freed:
  assumes "dialplan_ok n h cs" "c \<in> set cs" "A \<inter> con_cells h c = {}"
  shows "\<exists>ass. rep (freed A h) (con_root c) ass \<and> length (concat ass) < n" "con_cells (freed A h) c = con_cells h c"
proof -
  obtain ass where "rep h (con_root c) ass" "length (concat ass) < n" using assms(1,2) by (auto simp: dialplan_ok_def)
  with con_cells_freed [OF this(1) assms(3)]
  show "\<exists>ass. rep (freed A h) (con_root c) ass \<and> length (concat ass) < n" "con_cells (freed A h) c = con_cells h c" by blast+
qed

lemma live_no_crash:
  assumes "hints_live h s"
  shows "cw_hint_state_changed dev h device s \<noteq> None"
proof -
  have "\<forall>l\<in>set (hints s). h (hint_exten l) \<noteq> None" using assms by (auto simp: hints_live_def)
  from hint_loop_refresh [OF this, of dev device "statecbs s"] show ?thesis
    by (simp add: cw_hint_state_changed_def lock_hints_def Let_def)
qed

section \<open>Properties\<close>

text \<open>
  C18. Destroying the contexts of a registrar removes exactly these contexts, whatever the order
  of the list, frees all their cells and no others, leaves the extensions of the remaining
  contexts as they were and releases the lock.  Hints of freed cells go with them, so that
  a later change of a device reads no freed cell.
\<close>

theorem destroy_registrar:
  assumes "dialplan_ok n (pbx_cells s) (contexts s)" "separate (pbx_cells s) (contexts s)"
    and "hints_live (pbx_cells s) (pbx_hints s)" "\<And>c. lock_ok c"
  shows "\<exists>s'. cw_context_destroy n lock_ok None (Some r) s = Some s' \<and> conlock s' = conlock s \<and>
    contexts s' = filter (\<lambda>c. strcasecmp r (con_registrar c) \<noteq> 0) (contexts s) \<and>
    (\<forall>a. pbx_cells s' a = (if \<exists>c\<in>set (contexts s). strcasecmp r (con_registrar c) = 0 \<and> a \<in> con_cells (pbx_cells s) c
                            then None else pbx_cells s a)) \<and>
    (\<forall>c\<in>set (contexts s'). con_cells (pbx_cells s') c = con_cells (pbx_cells s) c) \<and>
    cw_hint_state_changed dev (pbx_cells s') device (pbx_hints s') \<noteq> None"
proof -
  let ?l = "cw_lock_contexts s" and ?P = "selected None (Some r)"
  have sel: "?P = (\<lambda>c. strcasecmp r (con_registrar c) = 0)" by (auto simp: selected_def fun_eq_iff)
  have l: "pbx_cells ?l = pbx_cells s" "pbx_hints ?l = pbx_hints s" by (simp_all add: cw_lock_contexts_def)
  have "\<exists>s'. destroy_loop n lock_ok None (Some r) [] (contexts s) ?l = Some s' \<and>
    contexts s' = filter (\<lambda>c. \<not> ?P c) ([] @ contexts s) \<and> conlock s' = conlock ?l - 1 \<and>
    pbx_cells s' = freed (gone (pbx_cells ?l) ?P ([] @ contexts s)) (pbx_cells ?l) \<and>
    hints_live (pbx_cells s') (pbx_hints s')"
    by (rule destroy_loop_all) (use assms l in simp_all)
  then obtain s' where s': "cw_context_destroy n lock_ok None (Some r) s = Some s'" "conlock s' = conlock s"
      "contexts s' = filter (\<lambda>c. \<not> ?P c) (contexts s)" "pbx_cells s' = freed (gone (pbx_cells s) ?P (contexts s)) (pbx_cells s)"
      "hints_live (pbx_cells s') (pbx_hints s')" by (auto simp: cw_context_destroy_def l)
  have "con_cells (pbx_cells s') c = con_cells (pbx_cells s) c" if c: "c \<in> set (contexts s')" for c
  proof -
    from c have c': "c \<in> set (contexts s)" "\<not> ?P c" by (simp_all add: s'(3))
    have "gone (pbx_cells s) ?P (contexts s) \<inter> con_cells (pbx_cells s) c = {}"
      by (rule gone_disjoint [OF assms(2)]) (use c' in auto)
    then show ?thesis unfolding s'(4) by (rule dialplan_freed(2) [OF assms(1) c'(1)])
  qed
  moreover have "cw_hint_state_changed dev (pbx_cells s') device (pbx_hints s') \<noteq> None"
    by (rule live_no_crash [OF s'(5)])
  ultimately show ?thesis using s'(1-4) by (intro exI [of _ s']) (auto simp: sel freed_def gone_def)
qed


section \<open>The properties on an example\<close>

text \<open>An old and a new context \<open>a\<close>, each with a hint for extension 200; someone watches the old one.\<close>

definition demo_old :: cw_context where
  "demo_old = (new_context ''a'' ''demo'')\<lparr>con_root := 1\<rparr>"

definition demo_new :: cw_context where
  "demo_new = (new_context ''a'' ''demo'')\<lparr>con_root := 2\<rparr>"

definition demo_watched :: "(nat, nat, nat) pbx" where
  "demo_watched = initial_pbx
     \<lparr>pbx_cells := [1 \<mapsto> new_exten ''a'' ''200'' PRIORITY_HINT None None ''SIP/a'' 7 ''demo'',
                    2 \<mapsto> new_exten ''a'' ''200'' PRIORITY_HINT None None ''SIP/b'' 8 ''demo''],
      pbx_hints := \<lparr>hints = [\<lparr>hint_exten = 2, laststate = 0, callbacks = []\<rparr>,
                              \<lparr>hint_exten = 1, laststate = 0, callbacks = [\<lparr>cb_id = 1, cb_data = 10, cb_callback = 11\<rparr>]\<rparr>],
                    statecbs = [], stateid = 2, hintlock = 0, notified = []\<rparr>,
      contexts := [demo_old]\<rparr>"

lemma demo_watched_rep:
  "rep (pbx_cells demo_watched) (con_root demo_old) [[1]]" "rep (pbx_cells demo_watched) (con_root demo_new) [[2]]"
  by (simp_all add: rep_def demo_watched_def demo_old_def demo_new_def)

lemma demo_watched_ok:
  "dialplan_ok 2 (pbx_cells demo_watched) [demo_old, demo_new]" "separate (pbx_cells demo_watched) [demo_old, demo_new]"
  "hints_live (pbx_cells demo_watched) (pbx_hints demo_watched)" "contexts demo_watched = [demo_old]"
proof -
  show "dialplan_ok 2 (pbx_cells demo_watched) [demo_old, demo_new]"
    using demo_watched_rep by (auto simp: dialplan_ok_def intro: exI [of _ "[[1]]"] exI [of _ "[[2]]"])
  have "con_root demo_old \<noteq> con_root demo_new" by (simp add: demo_old_def demo_new_def)
  then show "separate (pbx_cells demo_watched) [demo_old, demo_new]"
    using con_cells_rep [OF demo_watched_rep(1)] con_cells_rep [OF demo_watched_rep(2)] by (auto simp: separate_def)
qed (simp_all add: hints_live_def demo_watched_def)

theorem destroy_registrar_witness:
  "\<exists>s'. cw_context_destroy 2 (\<lambda>c. True) None (Some ''DEMO'') demo_watched = Some s' \<and> contexts s' = [] \<and>
     cw_hint_state_changed (\<lambda>d. 1) (pbx_cells s') ''SIP/a'' (pbx_hints s') \<noteq> None"
proof -
  have "dialplan_ok 2 (pbx_cells demo_watched) (contexts demo_watched)" "separate (pbx_cells demo_watched) (contexts demo_watched)"
    using demo_watched_ok by (auto simp: dialplan_ok_def separate_def)
  moreover have "strcasecmp ''DEMO'' (con_registrar demo_old) = 0"
    by code_simp
  ultimately show ?thesis
    using destroy_registrar [of 2 demo_watched "\<lambda>c. True" "''DEMO''" "\<lambda>d. 1" "''SIP/a''"] demo_watched_ok(3,4) by auto
qed


end
