(* ===== verification/CW_Args.thy ===== *)
theory CW_Args
  imports CW_Prelude
begin

text \<open>
  The arguments of applications and dialplan functions: \<open>cw_separate_app_args\<close> of
  \<open>corelib/app.c\<close>, which splits a string at the commas outside of quotes and parentheses.

  The routine overwrites its buffer; since the write position never passes the read position,
  the model returns the arguments as strings.  \<open>scan_arg\<close> is the loop over one argument: the
  characters kept and the text after the delimiter, \<open>None\<close> at the end of the buffer.
\<close>

section \<open>The routine of the source\<close>

fun scan_arg :: "char \<Rightarrow> string \<Rightarrow> bool \<Rightarrow> int \<Rightarrow> string \<times> string option" where
  "scan_arg delim [] inquote parens = ([], None)"
| "scan_arg delim (c # s) inquote parens =
     (if c = CHR 0x5C
      then (case s of [] \<Rightarrow> ([], None) | d # s' \<Rightarrow> apfst ((#) d) (scan_arg delim s' inquote parens))
      else if c = CHR 0x22 then scan_arg delim s (\<not> inquote) parens
      else if c = CHR ''('' then apfst ((#) c) (scan_arg delim s inquote (parens + 1))
      else if c = CHR '')'' then apfst ((#) c) (scan_arg delim s inquote (parens - 1))
      else if c = delim \<and> parens = 0 \<and> \<not> inquote then ([], Some s)
      else apfst ((#) c) (scan_arg delim s inquote parens))"

definition rtrim :: "string \<Rightarrow> string" where
  "rtrim s = rev (dropWhile isspace (rev s))"

lemma scan_arg_shorter: "snd (scan_arg delim s q p) = Some r \<Longrightarrow> length r < length s"
proof (induction delim s q p rule: scan_arg.induct)
  case (2 delim c s q p)
  have "length r < length u" if "c = CHR 0x5C" "s = d # u" "snd (scan_arg delim u q p) = Some r" for d u
    using "2.IH"(1) that by blast
  moreover have "length r < length s" if "c \<noteq> CHR 0x5C" "snd (scan_arg delim s q' p') = Some r"
      "q' = (if c = CHR 0x22 then \<not> q else q)"
      "p' = (if c = CHR 0x22 then p else if c = CHR ''('' then p + 1 else if c = CHR '')'' then p - 1 else p)"
      "\<not> (c = delim \<and> p = 0 \<and> \<not> q) \<or> c \<in> {CHR 0x22, CHR ''('', CHR '')''}" for q' p'
    using "2.IH"(2-5) that by (auto split: if_splits)
  ultimately show ?case using "2.prems" by (auto intro!: less_SucI split: if_splits list.splits)
qed simp

lemma next_arg_shorter: "scan_arg delim (dropWhile isspace s) False 0 = (a, Some r) \<Longrightarrow> length r < length s"
  using scan_arg_shorter [of delim "dropWhile isspace s" False 0 r] length_dropWhile_le [of isspace s] by simp

function separate_loop :: "char \<Rightarrow> nat \<Rightarrow> nat \<Rightarrow> string \<Rightarrow> string list" where
  "separate_loop delim max_args argc start =
     (case scan_arg delim (dropWhile isspace start) False 0 of
        (a, None) \<Rightarrow> [rtrim a]
      | (a, Some next) \<Rightarrow>
          if argc + 1 < max_args then rtrim a # separate_loop delim max_args (argc + 1) next else [rtrim a])"
  by pat_completeness auto
termination
  by (relation "measure (\<lambda>(delim, max_args, argc, start). length start)") (auto dest: next_arg_shorter [OF sym])

declare separate_loop.simps [simp del]

definition cw_separate_app_args :: "string option \<Rightarrow> char \<Rightarrow> nat \<Rightarrow> string list" where
  "cw_separate_app_args buf delim max_args =
     (case buf of
        None \<Rightarrow> []
      | Some start \<Rightarrow>
          (let argv = separate_loop delim (max_args - 1) 0 start in
           if argv = [[]] then [] else argv))"

section \<open>The length of the result\<close>

lemma separate_loop_length:
  "argc < max_args \<Longrightarrow> 0 < length (separate_loop delim max_args argc s) \<and>
     argc + length (separate_loop delim max_args argc s) \<le> max_args"
proof (induction delim max_args argc s rule: separate_loop.induct)
  case (1 delim max_args argc s)
  obtain a r where ar: "scan_arg delim (dropWhile isspace s) False 0 = (a, r)" by (cases "scan_arg delim (dropWhile isspace s) False 0")
  then show ?case using 1
    by (cases r) (auto simp: separate_loop.simps [of delim max_args argc s])
qed

section \<open>Quoting\<close>

definition special :: "char \<Rightarrow> char \<Rightarrow> bool" where
  "special delim c \<longleftrightarrow> c = CHR 0x5C \<or> c = CHR 0x22 \<or> c = CHR ''('' \<or> c = CHR '')'' \<or> c = delim"

fun escape :: "char \<Rightarrow> string \<Rightarrow> string" where
  "escape delim [] = []"
| "escape delim (c # s) = (if special delim c then CHR 0x5C # c # escape delim s else c # escape delim s)"

fun join :: "char \<Rightarrow> string list \<Rightarrow> string" where
  "join delim [] = []"
| "join delim [a] = a"
| "join delim (a # as) = a @ delim # join delim as"

definition plain_ends :: "string \<Rightarrow> bool" where
  "plain_ends a \<longleftrightarrow> (a \<noteq> [] \<longrightarrow> \<not> isspace (hd a) \<and> \<not> isspace (last a))"

lemma scan_escape:
  "scan_arg delim (escape delim a @ s) False 0 = apfst ((@) a) (scan_arg delim s False 0)"
proof (induction a)
  case Nil
  show ?case by (cases "scan_arg delim s False 0") simp
next
  case (Cons c a)
  then show ?case by (cases "scan_arg delim s False 0") (auto simp: special_def)
qed

lemma rtrim_plain: "plain_ends a \<Longrightarrow> rtrim a = a"
  by (cases a rule: rev_cases) (auto simp: rtrim_def plain_ends_def)

lemma skip_plain:
  assumes "plain_ends a" "\<not> isspace delim" "s = [] \<or> hd s = delim"
  shows "dropWhile isspace (escape delim a @ s) = escape delim a @ s"
proof (cases a)
  case Nil
  with assms(2,3) show ?thesis by (cases s) auto
next
  case (Cons c b)
  have "\<not> isspace (CHR 0x5C)" by code_simp
  with assms(1) Cons show ?thesis by (auto simp: plain_ends_def)
qed

lemma separate_step:
  "dropWhile isspace s = s \<Longrightarrow> scan_arg delim s False 0 = (a, Some n) \<Longrightarrow> argc + 1 < max_args \<Longrightarrow>
     separate_loop delim max_args argc s = rtrim a # separate_loop delim max_args (argc + 1) n"
  by (simp add: separate_loop.simps [of delim max_args argc s])

lemma separate_join:
  assumes "\<not> isspace delim" "delim \<notin> {CHR 0x5C, CHR 0x22, CHR ''('', CHR '')''}"
  shows "as \<noteq> [] \<Longrightarrow> \<forall>a\<in>set as. plain_ends a \<Longrightarrow> argc + length as \<le> max_args \<Longrightarrow>
    separate_loop delim max_args argc (join delim (map (escape delim) as)) = as"
proof (induction as arbitrary: argc)
  case (Cons a as)
  show ?case
  proof (cases as)
    case Nil
    with Cons.prems show ?thesis
      using scan_escape [of delim a "[]"] skip_plain [of a delim "[]"] assms
      by (simp add: separate_loop.simps rtrim_plain)
  next
    case as: (Cons b bs)
    let ?s = "join delim (map (escape delim) as)"
    have j: "join delim (map (escape delim) (a # as)) = escape delim a @ delim # ?s" by (simp add: as)
    have "scan_arg delim (delim # ?s) False 0 = ([], Some ?s)" using assms(2) by auto
    then have s: "scan_arg delim (escape delim a @ delim # ?s) False 0 = (a, Some ?s)"
      using scan_escape [of delim a "delim # ?s"] by simp
    have d: "dropWhile isspace (escape delim a @ delim # ?s) = escape delim a @ delim # ?s"
      using Cons.prems(2) assms(1) by (intro skip_plain) auto
    have "separate_loop delim max_args (argc + 1) ?s = as"
      using Cons.prems as by (intro Cons.IH) auto
    moreover have "argc + 1 < max_args" "rtrim a = a" using Cons.prems as by (auto simp: rtrim_plain)
    ultimately show ?thesis unfolding j separate_step [OF d s \<open>argc + 1 < max_args\<close>] by simp
  qed
qed simp

section \<open>Properties\<close>

text \<open>
  C20. Separating undoes quoting: arguments whose backslashes, quotes, parentheses and delimiters
  are escaped, joined with the delimiter, come back unchanged, as long as they fit in the
  array and neither begin nor end with white space.  The only exception is a single empty
  argument, which means no argument at all.
\<close>

theorem separate_app_args_roundtrip:
  assumes "\<not> isspace delim" "delim \<notin> {CHR 0x5C, CHR 0x22, CHR ''('', CHR '')''}"
    and "as \<noteq> []" "as \<noteq> [[]]" "\<forall>a\<in>set as. plain_ends a" "length as < max_args"
  shows "cw_separate_app_args (Some (join delim (map (escape delim) as))) delim max_args = as"
  using separate_join [OF assms(1,2,3,5), of 0 "max_args - 1"] assms(4,6)
  by (simp add: cw_separate_app_args_def)

theorem separate_app_args_roundtrip_witness:
  "cw_separate_app_args (Some (join (CHR '','') (map (escape (CHR '','')) [''SIP/100'', [], ''a,b (c'']))) (CHR '','') 100 =
     [''SIP/100'', [], ''a,b (c'']"
  by (rule separate_app_args_roundtrip) (simp_all add: plain_ends_def isspace_def)

text \<open>
  The result always fits in the array of the caller: with room for \<open>max_args\<close> pointers at
  most \<open>max_args - 1\<close> arguments are stored, so that the terminating \<open>NULL\<close> has its place.
\<close>

theorem separate_app_args_fits:
  "2 \<le> max_args \<Longrightarrow> length (cw_separate_app_args buf delim max_args) < max_args"
proof -
  assume m: "2 \<le> max_args"
  have "length (separate_loop delim (max_args - 1) 0 s) < max_args" for s
    using separate_loop_length [of 0 "max_args - 1" delim s] m by linarith
  with m show ?thesis by (auto simp: cw_separate_app_args_def Let_def split: option.splits)
qed

theorem separate_app_args_fits_witness:
  "length (cw_separate_app_args (Some ''a,b,c,d'') (CHR '','') 3) < 3"
  using separate_app_args_fits [of 3] by simp

end
