(* ===== verification/Pbx_Registry.thy ===== *)
theory Pbx_Registry
  imports CW_Args Pbx_Find "HOL-Library.Multiset"
begin

text \<open>
  The registries of \<open>corelib/pbx.c\<close>: applications, dialplan functions and switches, and the call
  of a function by its text.

  A registration is identified by its address, which is what the registering module keeps and
  gives back to unregister.  An address also stands for the result of \<open>malloc\<close> (\<open>None\<close> when it
  fails); whether a lock can be taken is a parameter.  What callbacks do is not looked at here.
\<close>

section \<open>The routines of the source\<close>

record ('r, 'w) cw_func =
  fn_id :: addr
  fn_hash :: u32
  fn_read :: "'r option"
  fn_write :: "'w option"
  fn_name :: string
  fn_help :: "string list"

record 'x cw_app =
  ap_id :: addr
  ap_hash :: u32
  ap_execute :: 'x
  ap_name :: string
  ap_help :: "string list"

definition cw_function_find :: "bool \<Rightarrow> string \<Rightarrow> ('r, 'w) cw_func list \<Rightarrow> ('r, 'w) cw_func option" where
  "cw_function_find lock_ok name funcs =
     (if lock_ok then find (\<lambda>p. fn_hash p = cw_hash_string name) funcs else None)"

definition cw_register_function ::
    "bool \<Rightarrow> addr option \<Rightarrow> string \<Rightarrow> 'r option \<Rightarrow> 'w option \<Rightarrow> string list \<Rightarrow> ('r, 'w) cw_func list \<Rightarrow>
     addr option \<times> ('r, 'w) cw_func list" where
  "cw_register_function lock_ok mem name rd wr help funcs =
     (if \<not> lock_ok then (None, funcs)
      else if \<exists>p\<in>set funcs. fn_name p = name \<or> fn_hash p = cw_hash_string name then (None, funcs)
      else case mem of
        None \<Rightarrow> (None, funcs)
      | Some a \<Rightarrow>
          (Some a, \<lparr>fn_id = a, fn_hash = cw_hash_string name, fn_read = rd, fn_write = wr, fn_name = name,
                    fn_help = help\<rparr> # funcs))"

definition cw_unregister_function :: "bool \<Rightarrow> addr option \<Rightarrow> ('r, 'w) cw_func list \<Rightarrow> int \<times> ('r, 'w) cw_func list" where
  "cw_unregister_function lock_ok func funcs =
     (case func of
        None \<Rightarrow> (0, funcs)
      | Some a \<Rightarrow>
          if \<not> lock_ok then (- 1, funcs)
          else (if \<exists>p\<in>set funcs. fn_id p = a then 0 else - 1, remove_first (\<lambda>p. fn_id p = a) funcs))"

definition pbx_findapp :: "bool \<Rightarrow> string \<Rightarrow> 'x cw_app list \<Rightarrow> 'x cw_app option" where
  "pbx_findapp lock_ok name apps =
     (if lock_ok then find (\<lambda>tmp. ap_hash tmp = cw_hash_string name) apps else None)"

fun insert_app :: "'x cw_app \<Rightarrow> 'x cw_app list \<Rightarrow> 'x cw_app list" where
  "insert_app p [] = [p]"
| "insert_app p (q # qs) = (if strcmp (ap_name p) (ap_name q) < 0 then p # q # qs else q # insert_app p qs)"

definition cw_register_application ::
    "bool \<Rightarrow> addr option \<Rightarrow> string \<Rightarrow> 'x \<Rightarrow> string list \<Rightarrow> 'x cw_app list \<Rightarrow> addr option \<times> 'x cw_app list" where
  "cw_register_application lock_ok mem name execute help apps =
     (if \<not> lock_ok then (None, apps)
      else if \<exists>p\<in>set apps. ap_name p = name \<or> ap_hash p = cw_hash_string name then (None, apps)
      else case mem of
        None \<Rightarrow> (None, apps)
      | Some a \<Rightarrow>
          (Some a, insert_app \<lparr>ap_id = a, ap_hash = cw_hash_string name, ap_execute = execute, ap_name = name,
                               ap_help = help\<rparr> apps))"

definition cw_unregister_application :: "bool \<Rightarrow> addr option \<Rightarrow> 'x cw_app list \<Rightarrow> int \<times> 'x cw_app list" where
  "cw_unregister_application lock_ok ap apps =
     (case ap of
        None \<Rightarrow> (0, apps)
      | Some a \<Rightarrow>
          if \<not> lock_ok then (- 1, apps)
          else (if \<exists>p\<in>set apps. ap_id p = a then 0 else - 1, remove_first (\<lambda>p. ap_id p = a) apps))"

text \<open>Switches are kept in the order of registration; the caller owns the structure.\<close>

definition cw_register_switch :: "bool \<Rightarrow> addr \<times> cw_switch \<Rightarrow> (addr \<times> cw_switch) list \<Rightarrow> int \<times> (addr \<times> cw_switch) list" where
  "cw_register_switch lock_ok sw sws =
     (if \<not> lock_ok then (- 1, sws)
      else if \<exists>tmp\<in>set sws. strcasecmp (asw_name (snd tmp)) (asw_name (snd sw)) = 0 then (- 1, sws)
      else (0, sws @ [sw]))"

definition cw_unregister_switch :: "bool \<Rightarrow> addr \<Rightarrow> (addr \<times> cw_switch) list \<Rightarrow> (addr \<times> cw_switch) list" where
  "cw_unregister_switch lock_ok sw sws =
     (if \<not> lock_ok then sws else remove_first (\<lambda>tmp. fst tmp = sw) sws)"

subsection \<open>Calling an application or a function by its text\<close>

text \<open>
  \<open>call_text\<close> is the common beginning of \<open>cw_func_read\<close> and \<open>cw_func_write\<close>: the name before the
  first parenthesis and the text between it and the last closing one.
\<close>

definition before_last :: "char \<Rightarrow> string \<Rightarrow> string" where
  "before_last c s = (if c \<in> set s then rev (tl (dropWhile (\<lambda>x. x \<noteq> c) (rev s))) else s)"

definition call_text :: "string \<Rightarrow> string \<times> string option" where
  "call_text f = (case split_at (CHR ''('') f of None \<Rightarrow> (f, None) | Some (name, args) \<Rightarrow> (name, Some (before_last (CHR '')'') args)))"

text \<open>What a pointer returned by a function points to: nothing, a buffer, or the literal
  \<open>"0"\<close> of \<open>cw_func_read\<close>, which must not be written to.\<close>

datatype result = Null | Buffer string | Literal string

definition cw_func_read ::
    "bool \<Rightarrow> ('c \<Rightarrow> string list \<Rightarrow> nat \<Rightarrow> string option, 'w) cw_func list \<Rightarrow> 'c \<Rightarrow> string \<Rightarrow> nat \<Rightarrow> result" where
  "cw_func_read lock_ok funcs c f len =
     (let (name, args) = call_text f in
      case cw_function_find lock_ok name funcs of
        None \<Rightarrow> Literal ''0''
      | Some acf \<Rightarrow>
          (case fn_read acf of
             None \<Rightarrow> Literal ''0''
           | Some rd \<Rightarrow>
               (case rd c (cw_separate_app_args args (CHR '','') 100) len of None \<Rightarrow> Null | Some s \<Rightarrow> Buffer s)))"

definition cw_func_write ::
    "bool \<Rightarrow> ('r, 'c \<Rightarrow> string list \<Rightarrow> string option \<Rightarrow> 's \<Rightarrow> 's) cw_func list \<Rightarrow> 'c \<Rightarrow> string \<Rightarrow> string option \<Rightarrow> 's \<Rightarrow> 's" where
  "cw_func_write lock_ok funcs c f nval s =
     (let (name, args) = call_text f in
      case cw_function_find lock_ok name funcs of
        None \<Rightarrow> s
      | Some acf \<Rightarrow>
          (case fn_write acf of
             None \<Rightarrow> s
           | Some wr \<Rightarrow> wr c (cw_separate_app_args args (CHR '','') 100) nval s))"

text \<open>An application sees the channel with its own name in \<open>appl\<close>; the old name is put back.
  The record of the call is told the application and its arguments first.\<close>

record 'c exec_chan =
  appl :: "string option"
  cdr_app :: "(string \<times> string option) option"
  has_cdr :: bool
  hung_up :: bool
  rest_of_chan :: 'c

definition pbx_exec_argv ::
    "('c exec_chan \<Rightarrow> string list \<Rightarrow> int \<times> 'c exec_chan) cw_app \<Rightarrow> string list \<Rightarrow> 'c exec_chan \<Rightarrow> int \<times> 'c exec_chan" where
  "pbx_exec_argv ap argv c =
     (let (res, c') = ap_execute ap (c\<lparr>appl := Some (ap_name ap)\<rparr>) argv in (res, c'\<lparr>appl := appl c\<rparr>))"

definition pbx_exec ::
    "('c exec_chan \<Rightarrow> string list \<Rightarrow> int \<times> 'c exec_chan) cw_app \<Rightarrow> string option \<Rightarrow> 'c exec_chan \<Rightarrow> int \<times> 'c exec_chan" where
  "pbx_exec ap data c =
     (let c = (if has_cdr c \<and> \<not> hung_up c then c\<lparr>cdr_app := Some (ap_name ap, data)\<rparr> else c);
          (res, c') = ap_execute ap (c\<lparr>appl := Some (ap_name ap)\<rparr>) (cw_separate_app_args data (CHR '','') 100)
      in (res, c'\<lparr>appl := appl c\<rparr>))"

section \<open>The contract of a registry\<close>

definition registry_ok :: "('e \<Rightarrow> 'k) \<Rightarrow> ('e \<Rightarrow> addr) \<Rightarrow> 'e list \<Rightarrow> bool" where
  "registry_ok key ident es \<longleftrightarrow> distinct (map key es) \<and> distinct (map ident es)"

lemma find_distinct:
  "distinct (map key es) \<Longrightarrow> find (\<lambda>e. key e = k) es = Some e \<longleftrightarrow> e \<in> set es \<and> key e = k"
  by (induction es) (auto simp: image_iff)

lemma find_none: "find (\<lambda>e. key e = k) es = None \<longleftrightarrow> k \<notin> key ` set es"
  by (auto simp: find_None_iff image_iff)

lemma find_eqI:
  "\<lbrakk>distinct (map key es); distinct (map key fs); \<And>e. key e = k \<Longrightarrow> e \<in> set es \<longleftrightarrow> e \<in> set fs\<rbrakk> \<Longrightarrow>
    find (\<lambda>e. key e = k) es = find (\<lambda>e. key e = k) fs"
proof (cases "find (\<lambda>e. key e = k) fs")
  case None
  assume "\<And>e. key e = k \<Longrightarrow> e \<in> set es \<longleftrightarrow> e \<in> set fs"
  with None have "find (\<lambda>e. key e = k) es = None" unfolding find_none by blast
  with None show ?thesis by simp
next
  case (Some e)
  assume d: "distinct (map key es)" "distinct (map key fs)" and m: "\<And>e. key e = k \<Longrightarrow> e \<in> set es \<longleftrightarrow> e \<in> set fs"
  from Some d(2) m have "e \<in> set es" "key e = k" by (simp_all add: find_distinct)
  then have "find (\<lambda>e. key e = k) es = Some e" using d(1) by (simp add: find_distinct)
  with Some show ?thesis by simp
qed

lemma distinct_map_mset: "mset xs = mset ys \<Longrightarrow> distinct (map f xs) \<longleftrightarrow> distinct (map f ys)"
  by (rule mset_eq_imp_distinct_iff) simp

locale registry =
  fixes key :: "'e \<Rightarrow> 'k" and ident :: "'e \<Rightarrow> addr" and ins :: "'e \<Rightarrow> 'e list \<Rightarrow> 'e list"
  assumes mset_ins: "mset (ins e es) = add_mset e (mset es)"
begin

lemma set_ins: "set (ins e es) = insert e (set es)"
  by (metis mset_ins set_mset_add_mset_insert set_mset_mset)

lemma ins_ok:
  "registry_ok key ident (ins e es) \<longleftrightarrow> registry_ok key ident es \<and> key e \<notin> key ` set es \<and> ident e \<notin> ident ` set es"
  unfolding registry_ok_def
  using distinct_map_mset [of "ins e es" "e # es" key] distinct_map_mset [of "ins e es" "e # es" ident]
  by (auto simp: mset_ins)

lemma find_ins:
  assumes "registry_ok key ident (ins e es)"
  shows "find (\<lambda>x. key x = k) (ins e es) = (if key e = k then Some e else find (\<lambda>x. key x = k) es)"
proof -
  have d: "distinct (map key (ins e es))" "distinct (map key es)" using assms ins_ok by (auto simp: registry_ok_def)
  show ?thesis
  proof (cases "key e = k")
    case True
    then show ?thesis using d(1) by (simp add: find_distinct set_ins)
  next
    case False
    then have "find (\<lambda>x. key x = k) (ins e es) = find (\<lambda>x. key x = k) es"
      by (intro find_eqI d) (auto simp: set_ins)
    with False show ?thesis by simp
  qed
qed

lemma set_remove:
  "registry_ok key ident es \<Longrightarrow> set (remove_first (\<lambda>x. ident x = a) es) = {x \<in> set es. ident x \<noteq> a}"
  unfolding registry_ok_def by (induction es) (auto simp: image_iff)

lemma remove_ok: "registry_ok key ident es \<Longrightarrow> registry_ok key ident (remove_first (\<lambda>x. ident x = a) es)"
  by (simp add: registry_ok_def distinct_map_remove_first)

text \<open>Removing an entry right after its insertion leaves every lookup as it was.\<close>

lemma find_remove_ins:
  assumes "registry_ok key ident (ins e es)"
  shows "find (\<lambda>x. key x = k) (remove_first (\<lambda>x. ident x = ident e) (ins e es)) = find (\<lambda>x. key x = k) es"
proof (rule find_eqI)
  show "distinct (map key (remove_first (\<lambda>x. ident x = ident e) (ins e es)))"
    using remove_ok [OF assms] by (simp add: registry_ok_def)
  show "distinct (map key es)" using assms ins_ok by (auto simp: registry_ok_def)
  show "x \<in> set (remove_first (\<lambda>x. ident x = ident e) (ins e es)) \<longleftrightarrow> x \<in> set es" for x
    using set_remove [OF assms, of "ident e"] assms unfolding ins_ok by (auto simp: set_ins image_iff)
qed

end

lemma mset_insert_app: "mset (insert_app p qs) = add_mset p (mset qs)"
  by (induction qs) simp_all

interpretation fns: registry fn_hash fn_id "(#)"
  by unfold_locales simp

interpretation aps: registry ap_hash ap_id insert_app
  by unfold_locales (rule mset_insert_app)

interpretation sws_reg: registry "\<lambda>e. map tolower (asw_name (snd e))" fst "\<lambda>e es. es @ [e]"
  by unfold_locales simp

section \<open>Invariants\<close>

definition funcs_ok :: "('r, 'w) cw_func list \<Rightarrow> bool" where
  "funcs_ok funcs \<longleftrightarrow> registry_ok fn_hash fn_id funcs \<and> (\<forall>p\<in>set funcs. fn_hash p = cw_hash_string (fn_name p))"

definition apps_ok :: "'x cw_app list \<Rightarrow> bool" where
  "apps_ok apps \<longleftrightarrow> registry_ok ap_hash ap_id apps \<and> (\<forall>p\<in>set apps. ap_hash p = cw_hash_string (ap_name p)) \<and>
     sorted_wrt (\<lambda>p q. strcmp (ap_name p) (ap_name q) < 0) apps"

lemma strcmp_trans: "strcmp s t < 0 \<Longrightarrow> strcmp t u < 0 \<Longrightarrow> strcmp s u < 0"
  unfolding strcmp_less by (rule less_trans)

lemma strcmp_total: "\<not> strcmp s t < 0 \<Longrightarrow> s \<noteq> t \<Longrightarrow> strcmp t s < 0"
  unfolding strcmp_less by (metis linorder_neqE map_ucval_eq)

lemma sorted_insert_app:
  assumes "sorted_wrt (\<lambda>p q. strcmp (ap_name p) (ap_name q) < 0) qs" "ap_name p \<notin> ap_name ` set qs"
  shows "sorted_wrt (\<lambda>p q. strcmp (ap_name p) (ap_name q) < 0) (insert_app p qs)"
  using assms
proof (induction qs)
  case (Cons q qs)
  show ?case
  proof (cases "strcmp (ap_name p) (ap_name q) < 0")
    case True
    then show ?thesis using Cons.prems by (auto intro: strcmp_trans)
  next
    case False
    then have "strcmp (ap_name q) (ap_name p) < 0" using Cons.prems(2) by (auto intro: strcmp_total)
    then show ?thesis using Cons False by (auto simp: aps.set_ins)
  qed
qed simp

lemma registered_application:
  assumes ok: "apps_ok apps" and fresh: "a \<notin> ap_id ` set apps"
    and new: "\<And>p. p \<in> set apps \<Longrightarrow> ap_name p \<noteq> name \<and> ap_hash p \<noteq> cw_hash_string name"
    and p: "ap_id p = a" "ap_hash p = cw_hash_string name" "ap_name p = name"
  shows "apps_ok (insert_app p apps)" "registry_ok ap_hash ap_id (insert_app p apps)"
proof -
  show r: "registry_ok ap_hash ap_id (insert_app p apps)"
    unfolding aps.ins_ok p using ok fresh new by (simp add: apps_ok_def) (metis imageE)
  have "sorted_wrt (\<lambda>p q. strcmp (ap_name p) (ap_name q) < 0) (insert_app p apps)"
    using ok new by (intro sorted_insert_app) (auto simp: apps_ok_def p)
  with r show "apps_ok (insert_app p apps)" using ok by (auto simp: apps_ok_def aps.set_ins p)
qed

lemma before_last_snoc [simp]: "before_last c (s @ [c]) = s"
  by (simp add: before_last_def)

lemma call_text_call: "CHR ''('' \<notin> set name \<Longrightarrow> call_text (name @ ''('' @ args @ '')'') = (name, Some args)"
proof -
  assume n: "CHR ''('' \<notin> set name"
  then have t: "takeWhile (\<lambda>x. x \<noteq> CHR ''('') (name @ ''('' @ args @ '')'') = name"
    and d: "dropWhile (\<lambda>x. x \<noteq> CHR ''('') (name @ ''('' @ args @ '')'') = ''('' @ args @ '')''"
    by (induction name) auto
  have "split_at (CHR ''('') (name @ ''('' @ args @ '')'') = Some (name, args @ '')'')"
    unfolding split_at_def t d by simp
  then show ?thesis by (simp add: call_text_def)
qed

section \<open>Theorems\<close>

text \<open>
  Registering an application: it is refused exactly when its name or hash code is taken, and
  then nothing changes.  Otherwise the list stays sorted and free of collisions, the new name finds
  the new application and every other name what it found before; unregistering it with the handle
  returned restores every lookup.
\<close>

theorem application_registered:
  assumes "apps_ok apps" "a \<notin> ap_id ` set apps"
  shows "case cw_register_application True (Some a) name execute help apps of
      (None, apps') \<Rightarrow> apps' = apps \<and> (\<exists>p\<in>set apps. ap_hash p = cw_hash_string name)
    | (Some b, apps') \<Rightarrow>
        b = a \<and> apps_ok apps' \<and> (\<forall>p\<in>set apps. ap_hash p \<noteq> cw_hash_string name) \<and>
        (\<forall>n. pbx_findapp True n apps' =
           (if cw_hash_string n = cw_hash_string name
            then Some \<lparr>ap_id = a, ap_hash = cw_hash_string name, ap_execute = execute, ap_name = name, ap_help = help\<rparr>
            else pbx_findapp True n apps)) \<and>
        fst (cw_unregister_application True (Some a) apps') = 0 \<and>
        (\<forall>n. pbx_findapp True n (snd (cw_unregister_application True (Some a) apps')) = pbx_findapp True n apps)"
proof (cases "\<exists>p\<in>set apps. ap_name p = name \<or> ap_hash p = cw_hash_string name")
  case True
  then have "\<exists>p\<in>set apps. ap_hash p = cw_hash_string name" using assms(1) by (auto simp: apps_ok_def)
  with True show ?thesis by (simp add: cw_register_application_def)
next
  case False
  define p where "p = \<lparr>ap_id = a, ap_hash = cw_hash_string name, ap_execute = execute, ap_name = name, ap_help = help\<rparr>"
  have reg: "cw_register_application True (Some a) name execute help apps = (Some a, insert_app p apps)"
    using False by (simp add: cw_register_application_def p_def)
  have p: "ap_id p = a" "ap_hash p = cw_hash_string name" "ap_name p = name" by (simp_all add: p_def)
  have ok: "apps_ok (insert_app p apps)" and r: "registry_ok ap_hash ap_id (insert_app p apps)"
    using registered_application [OF assms _ p] False by blast+
  have "pbx_findapp True n (insert_app p apps) = (if cw_hash_string n = cw_hash_string name then Some p else pbx_findapp True n apps)" for n
    using aps.find_ins [OF r] by (auto simp: pbx_findapp_def p)
  moreover have "pbx_findapp True n (snd (cw_unregister_application True (Some a) (insert_app p apps))) = pbx_findapp True n apps" for n
    using aps.find_remove_ins [OF r] by (simp add: pbx_findapp_def cw_unregister_application_def p)
  moreover have "fst (cw_unregister_application True (Some a) (insert_app p apps)) = 0"
    using p(1) by (auto simp: cw_unregister_application_def aps.set_ins)
  ultimately show ?thesis using False ok unfolding reg p_def [symmetric] by simp
qed

definition demo_apps :: "unit cw_app list" where
  "demo_apps = [\<lparr>ap_id = 1, ap_hash = cw_hash_string ''Answer'', ap_execute = (), ap_name = ''Answer'', ap_help = []\<rparr>]"

theorem application_registered_witness:
  "case cw_register_application True (Some 2) ''Dial'' () [] demo_apps of
      (None, apps') \<Rightarrow> apps' = demo_apps \<and> (\<exists>p\<in>set demo_apps. ap_hash p = cw_hash_string ''Dial'')
    | (Some b, apps') \<Rightarrow>
        b = 2 \<and> apps_ok apps' \<and> (\<forall>p\<in>set demo_apps. ap_hash p \<noteq> cw_hash_string ''Dial'') \<and>
        (\<forall>n. pbx_findapp True n apps' =
           (if cw_hash_string n = cw_hash_string ''Dial''
            then Some \<lparr>ap_id = 2, ap_hash = cw_hash_string ''Dial'', ap_execute = (), ap_name = ''Dial'', ap_help = []\<rparr>
            else pbx_findapp True n demo_apps)) \<and>
        fst (cw_unregister_application True (Some 2) apps') = 0 \<and>
        (\<forall>n. pbx_findapp True n (snd (cw_unregister_application True (Some 2) apps')) = pbx_findapp True n demo_apps)"
  by (rule application_registered) (simp_all add: apps_ok_def registry_ok_def demo_apps_def)

text \<open>
  A registered function is called with the arguments that were written: reading
  \<open>NAME(...)\<close>, where the arguments are quoted and joined by commas, calls the read routine
  registered under that name with these arguments.
\<close>

theorem function_called:
  assumes "\<forall>p\<in>set funcs. fn_name p \<noteq> name \<and> fn_hash p \<noteq> cw_hash_string name" "CHR ''('' \<notin> set name"
    and "as \<noteq> []" "as \<noteq> [[]]" "\<forall>a\<in>set as. plain_ends a" "length as < 100"
  shows "cw_func_read True (snd (cw_register_function True (Some h) name (Some rd) wr help funcs)) c
      (name @ ''('' @ join (CHR '','') (map (escape (CHR '','')) as) @ '')'') len =
    (case rd c as len of None \<Rightarrow> Null | Some s \<Rightarrow> Buffer s)"
proof -
  let ?args = "join (CHR '','') (map (escape (CHR '','')) as)"
  have c: "\<not> isspace (CHR '','')" "CHR '','' \<notin> {CHR 0x5C, CHR 0x22, CHR ''('', CHR '')''}" by code_simp+
  have "cw_separate_app_args (Some ?args) (CHR '','') 100 = as"
    using separate_join [OF c assms(3,5), of 0 99] assms(4,6) by (simp add: cw_separate_app_args_def)
  moreover have "\<not> (\<exists>p\<in>set funcs. fn_name p = name \<or> fn_hash p = cw_hash_string name)" using assms(1) by blast
  ultimately show ?thesis
    by (simp only: cw_func_read_def call_text_call [OF assms(2)] Let_def prod.case) (simp add: cw_register_function_def cw_function_find_def)
qed

theorem function_called_witness:
  "cw_func_read True (snd (cw_register_function True (Some 1) ''CUT'' (Some (\<lambda>c as n. Some (hd as))) (None :: unit option) [] [])) ()
      (''CUT'' @ ''('' @ join (CHR '','') (map (escape (CHR '','')) [''a(b'', ''2'']) @ '')'') 80 =
    (case (\<lambda>c as n. Some (hd as)) () [''a(b'', ''2''] (80 :: nat) of None \<Rightarrow> Null | Some s \<Rightarrow> Buffer s)"
proof (rule function_called)
  show "\<forall>a\<in>set [''a(b'', ''2'']. plain_ends a" by code_simp
qed simp_all

end
