(* ===== verification/CW_Decimal.thy ===== *)
theory CW_Decimal
  imports CW_Prelude
begin

text \<open>
  The conversion \<open>%d\<close> of \<open>printf\<close>: the decimal notation of an integer, and that the
  conversion of \<open>scanf\<close>, \<open>atoi\<close> and \<open>strtoll\<close> reads it back.
\<close>

definition digit :: "nat \<Rightarrow> char" where
  "digit n = char_of (48 + n)"

fun dec_nat :: "nat \<Rightarrow> string" where
  "dec_nat n = (if n < 10 then [digit n] else dec_nat (n div 10) @ [digit (n mod 10)])"

declare dec_nat.simps [simp del]

definition dec :: "int \<Rightarrow> string" where
  "dec i = (if i < 0 then CHR ''-'' # dec_nat (nat (- i)) else dec_nat (nat i))"

section \<open>Reading back what was printed\<close>

lemma ucval_digit: "n < 10 \<Longrightarrow> ucval (digit n) = 48 + n"
  by (simp add: digit_def of_char_of)

lemma isdigit_digit [simp]: "n < 10 \<Longrightarrow> isdigit (digit n)"
  by (simp add: isdigit_def ucval_digit)

lemma digit_val_digit [simp]: "n < 10 \<Longrightarrow> digit_val (digit n) = int n"
  by (simp add: digit_val_def ucval_digit)

lemma digits_val_append:
  "\<forall>c\<in>set s. isdigit c \<Longrightarrow> digits_val acc (s @ t) = digits_val (digits_val acc s) t"
  by (induction s arbitrary: acc) auto

lemma dec_nat_digits: "c \<in> set (dec_nat n) \<Longrightarrow> isdigit c"
proof (induction n rule: dec_nat.induct)
  case (1 n)
  then show ?case by (subst (asm) (2) dec_nat.simps) (auto split: if_splits)
qed

lemma dec_nat_not_Nil [simp]: "dec_nat n \<noteq> []"
  by (subst dec_nat.simps) simp

lemma digits_val_dec_nat: "digits_val 0 (dec_nat n) = int n"
proof (induction n rule: dec_nat.induct)
  case (1 n)
  show ?case
  proof (cases "n < 10")
    case True
    then show ?thesis by (subst dec_nat.simps) simp
  next
    case False
    then have "digits_val 0 (dec_nat n) = digits_val (digits_val 0 (dec_nat (n div 10))) [digit (n mod 10)]"
      by (subst dec_nat.simps) (simp add: digits_val_append dec_nat_digits)
    also have "\<dots> = 10 * int (n div 10) + int (n mod 10)" using 1 False by simp
    also have "\<dots> = int n" by presburger
    finally show ?thesis .
  qed
qed

lemma isdigit_not_space: "isdigit c \<Longrightarrow> \<not> isspace c \<and> c \<noteq> CHR ''-'' \<and> c \<noteq> CHR ''+''"
  by (auto simp: isdigit_def isspace_def)

lemma scan_int_dec: "scan_int (dec i) = Some (i, [])"
proof -
  obtain c s where cs: "dec_nat (nat \<bar>i\<bar>) = c # s" by (cases "dec_nat (nat \<bar>i\<bar>)") simp_all
  have d: "isdigit x" if "x \<in> set (c # s)" for x using that dec_nat_digits [of x] unfolding cs [symmetric] by blast
  have c: "isdigit c" and s: "dropWhile isdigit s = []" using d by (auto simp: dropWhile_eq_Nil_conv)
  have v: "digits_val 0 (c # s) = \<bar>i\<bar>" using digits_val_dec_nat [of "nat \<bar>i\<bar>"] unfolding cs by simp
  have m: "\<not> isspace (CHR ''-'')" by code_simp
  show ?thesis
  proof (cases "i < 0")
    case True
    then have "dec i = CHR ''-'' # c # s" using cs by (simp add: dec_def)
    then show ?thesis using True c s v m by (simp add: scan_int_def Let_def del: digits_val.simps)
  next
    case False
    then have "dec i = c # s" using cs by (simp add: dec_def)
    then show ?thesis using False c s v isdigit_not_space [OF c] by (simp add: scan_int_def Let_def del: digits_val.simps)
  qed
qed

lemma atoi_dec [simp]: "atoi (dec i) = i"
  by (simp add: atoi_def scan_int_dec)

end
