(* ===== verification/Pbx_Vars.thy ===== *)
theory Pbx_Vars
  imports Pbx_Registry CW_Decimal
begin

text \<open>
  Dialplan variables: the entries of \<open>corelib/chanvars.c\<close>, the keywords of
  \<open>include/callweaver/callweaver_keywords.h\<close>, and the routines of \<open>corelib/pbx.c\<close> that set, get
  and list variables of a channel and of the whole dialplan.

  A list of variables is kept newest first.  A null pointer in place of the channel selects the
  global variables: this is the flag \<open>on_chan\<close>.  Allocation is taken to succeed.
\<close>

section \<open>Keywords\<close>

text \<open>The names of the built-in variables are compared by these hash codes only.\<close>

definition CW_KEYWORD_ANSWERED :: u32 where "CW_KEYWORD_ANSWERED = 0x2146E99D"

definition CW_KEYWORD_CALLERID :: u32 where "CW_KEYWORD_CALLERID = 0x00E173C6"

definition CW_KEYWORD_CALLERIDNUM :: u32 where "CW_KEYWORD_CALLERIDNUM = 0x2AA80F40"

definition CW_KEYWORD_CALLERIDNAME :: u32 where "CW_KEYWORD_CALLERIDNAME = 0x04C28AF1"

definition CW_KEYWORD_CALLERANI :: u32 where "CW_KEYWORD_CALLERANI = 0x275B0471"

definition CW_KEYWORD_CALLINGPRES :: u32 where "CW_KEYWORD_CALLINGPRES = 0x53038954"

definition CW_KEYWORD_CALLINGANI2 :: u32 where "CW_KEYWORD_CALLINGANI2 = 0x172910FA"

definition CW_KEYWORD_CALLINGTON :: u32 where "CW_KEYWORD_CALLINGTON = 0x16FA640F"

definition CW_KEYWORD_CALLINGTNS :: u32 where "CW_KEYWORD_CALLINGTNS = 0x16F963D5"

definition CW_KEYWORD_DIALSTATUS :: u32 where "CW_KEYWORD_DIALSTATUS = 0x3D7F96A2"

definition CW_KEYWORD_DNID :: u32 where "CW_KEYWORD_DNID = 0x02813E45"

definition CW_KEYWORD_HINT :: u32 where "CW_KEYWORD_HINT = 0x3A2B3507"

definition CW_KEYWORD_HINTNAME :: u32 where "CW_KEYWORD_HINTNAME = 0x47AF6B32"

definition CW_KEYWORD_EXTEN :: u32 where "CW_KEYWORD_EXTEN = 0x76AF848A"

definition CW_KEYWORD_RDNIS :: u32 where "CW_KEYWORD_RDNIS = 0x4437ACA6"

definition CW_KEYWORD_CONTEXT :: u32 where "CW_KEYWORD_CONTEXT = 0x7D8222EF"

definition CW_KEYWORD_PRIORITY :: u32 where "CW_KEYWORD_PRIORITY = 0x63565B44"

definition CW_KEYWORD_CHANNEL :: u32 where "CW_KEYWORD_CHANNEL = 0x5C7D4983"

definition CW_KEYWORD_UNIQUEID :: u32 where "CW_KEYWORD_UNIQUEID = 0x4B6D096C"

definition CW_KEYWORD_HANGUPCAUSE :: u32 where "CW_KEYWORD_HANGUPCAUSE = 0x3926FB5C"

definition CW_KEYWORD_NEWDESTNUM :: u32 where "CW_KEYWORD_NEWDESTNUM = 0x275D7824"

definition CW_KEYWORD_ACCOUNTCODE :: u32 where "CW_KEYWORD_ACCOUNTCODE = 0x047D129A"

definition CW_KEYWORD_LANGUAGE :: u32 where "CW_KEYWORD_LANGUAGE = 0x75479ED8"

definition CW_KEYWORD_SYSTEMNAME :: u32 where "CW_KEYWORD_SYSTEMNAME = 0x3D58527A"

definition CW_KEYWORD_ANSWER :: u32 where "CW_KEYWORD_ANSWER = 0x141BA75E"

definition CW_KEYWORD_BARRED :: u32 where "CW_KEYWORD_BARRED = 0x064A173E"

definition CW_KEYWORD_BUSY :: u32 where "CW_KEYWORD_BUSY = 0x28F00BD9"

definition CW_KEYWORD_CANCEL :: u32 where "CW_KEYWORD_CANCEL = 0x5AF84CFA"

definition CW_KEYWORD_CHANUNAVAIL :: u32 where "CW_KEYWORD_CHANUNAVAIL = 0x61B1E464"

definition CW_KEYWORD_CONGESTION :: u32 where "CW_KEYWORD_CONGESTION = 0x0C09C847"

definition CW_KEYWORD_NOANSWER :: u32 where "CW_KEYWORD_NOANSWER = 0x5ABF695F"

definition CW_KEYWORD_NUMBERCHANGED :: u32 where "CW_KEYWORD_NUMBERCHANGED = 0x3A9A762B"

definition CW_KEYWORD_REJECTED :: u32 where "CW_KEYWORD_REJECTED = 0x03B1B8FE"

definition CW_KEYWORD_UNALLOCATED :: u32 where "CW_KEYWORD_UNALLOCATED = 0x4920440E"

definition CW_KEYWORD_EPOCH :: u32 where "CW_KEYWORD_EPOCH = 0x0000B089"

definition CW_KEYWORD_DATETIME :: u32 where "CW_KEYWORD_DATETIME = 0x2F5B471B"

definition CW_KEYWORD_TIMESTAMP :: u32 where "CW_KEYWORD_TIMESTAMP = 0x138C4996"

definition CW_KEYWORD_SKIP :: u32 where "CW_KEYWORD_SKIP = 0x3AED4AFF"

definition CW_KEYWORD_BYEXTENSION :: u32 where "CW_KEYWORD_BYEXTENSION = 0x3A9C6B28"

section \<open>Entries\<close>

record cw_var_t =
  v_hash :: u32
  v_value :: string
  v_name :: string

definition cw_var_assign :: "string \<Rightarrow> string \<Rightarrow> cw_var_t" where
  "cw_var_assign name nval =
     \<lparr>v_hash = cw_hash_string name, v_value = cw_copy_string nval (length nval + 1),
      v_name = cw_copy_string name (length name + 1)\<rparr>"

definition strip_underscores :: "string \<Rightarrow> string" where
  "strip_underscores name =
     (if at0 name = CHR ''_'' then if at0 (tl name) = CHR ''_'' then tl (tl name) else tl name else name)"

definition cw_var_name :: "cw_var_t \<Rightarrow> string" where
  "cw_var_name v = strip_underscores (v_name v)"

section \<open>Setting and getting\<close>

record 'c dialvars =
  varshead :: "cw_var_t list"
  globals :: "cw_var_t list"
  rest_of_dial :: 'c

type_synonym ('r, 'c) func_table = "('r, bool \<Rightarrow> string list \<Rightarrow> string option \<Rightarrow> 'c dialvars \<Rightarrow> 'c dialvars) cw_func list"

definition is_call :: "string \<Rightarrow> bool" where
  "is_call name \<longleftrightarrow> name \<noteq> [] \<and> last name = CHR '')''"

definition on_list :: "bool \<Rightarrow> (cw_var_t list \<Rightarrow> cw_var_t list) \<Rightarrow> 'c dialvars \<Rightarrow> 'c dialvars" where
  "on_list on_chan f s = (if on_chan then s\<lparr>varshead := f (varshead s)\<rparr> else s\<lparr>globals := f (globals s)\<rparr>)"

definition pbx_builtin_getvar_helper :: "bool \<Rightarrow> string \<Rightarrow> 'c dialvars \<Rightarrow> string option" where
  "pbx_builtin_getvar_helper on_chan name s =
     (let lookup = (\<lambda>vs. map_option v_value (find (\<lambda>v. v_hash v = cw_hash_string name) vs)) in
      if on_chan
      then case lookup (varshead s) of None \<Rightarrow> lookup (globals s) | Some v \<Rightarrow> Some v
      else lookup (globals s))"

definition pbx_builtin_pushvar_helper ::
    "bool \<Rightarrow> ('r, 'c) func_table \<Rightarrow> bool \<Rightarrow> string \<Rightarrow> string option \<Rightarrow> 'c dialvars \<Rightarrow> 'c dialvars" where
  "pbx_builtin_pushvar_helper lock_ok funcs on_chan name nval s =
     (if is_call name then cw_func_write lock_ok funcs on_chan name nval s
      else case nval of
        None \<Rightarrow> s
      | Some v \<Rightarrow> on_list on_chan (\<lambda>vs. cw_var_assign name v # vs) s)"

text \<open>At most one entry whose hash code is that of the name without underscores is removed.\<close>

definition set_in :: "string \<Rightarrow> string option \<Rightarrow> cw_var_t list \<Rightarrow> cw_var_t list" where
  "set_in name nval vs =
     (let vs = remove_first (\<lambda>v. v_hash v = cw_hash_string (strip_underscores name)) vs in
      case nval of None \<Rightarrow> vs | Some v \<Rightarrow> cw_var_assign name v # vs)"

definition pbx_builtin_setvar_helper ::
    "bool \<Rightarrow> ('r, 'c) func_table \<Rightarrow> bool \<Rightarrow> string \<Rightarrow> string option \<Rightarrow> 'c dialvars \<Rightarrow> 'c dialvars" where
  "pbx_builtin_setvar_helper lock_ok funcs on_chan name nval s =
     (if is_call name then cw_func_write lock_ok funcs on_chan name nval s
      else on_list on_chan (set_in name nval) s)"

definition set_pair :: "bool \<Rightarrow> ('r, 'c) func_table \<Rightarrow> bool \<Rightarrow> string \<Rightarrow> 'c dialvars \<Rightarrow> 'c dialvars" where
  "set_pair lock_ok funcs on_chan arg s =
     (case split_at (CHR ''='') arg of
        None \<Rightarrow> s
      | Some (name, nval) \<Rightarrow> pbx_builtin_setvar_helper lock_ok funcs on_chan name (Some nval) s)"

definition pbx_builtin_setvar :: "bool \<Rightarrow> ('r, 'c) func_table \<Rightarrow> string list \<Rightarrow> 'c dialvars \<Rightarrow> int \<times> 'c dialvars" where
  "pbx_builtin_setvar lock_ok funcs argv s =
     (if argv = [] then (0, s)
      else let flags = (length argv > 1 \<and> CHR ''='' \<notin> set (last argv));
               on_chan = \<not> (flags \<and> CHR ''g'' \<in> set (last argv))
           in (0, fold (set_pair lock_ok funcs on_chan) (if flags then butlast argv else argv) s))"

definition pbx_builtin_setglobalvar :: "bool \<Rightarrow> ('r, 'c) func_table \<Rightarrow> string list \<Rightarrow> 'c dialvars \<Rightarrow> int \<times> 'c dialvars" where
  "pbx_builtin_setglobalvar lock_ok funcs argv s = (0, fold (set_pair lock_ok funcs False) argv s)"

definition pbx_builtin_clear_globals :: "'c dialvars \<Rightarrow> 'c dialvars" where
  "pbx_builtin_clear_globals s = s\<lparr>globals := []\<rparr>"

text \<open>
  \<open>cw_build_string\<close> of \<open>corelib/utils.c\<close>: the text is cut to the space, yet the call succeeds;
  only a call with no space left fails.
\<close>

definition cw_build_string :: "nat \<Rightarrow> string \<Rightarrow> (string \<times> nat) option" where
  "cw_build_string space t = (if space = 0 then None else Some (take (space - 1) t, space - length t))"

fun serialize_loop :: "nat \<Rightarrow> cw_var_t list \<Rightarrow> string \<times> int" where
  "serialize_loop space [] = ([], 0)"
| "serialize_loop space (v # vs) =
     (case cw_build_string space (cw_var_name v @ ''='' @ v_value v @ [CHR 0x0A]) of
        None \<Rightarrow> ([], 0)
      | Some (t, space) \<Rightarrow> (let (s, total) = serialize_loop space vs in (t @ s, total + 1)))"

definition pbx_builtin_serialize_variables :: "nat \<Rightarrow> 'c dialvars \<Rightarrow> string \<times> int" where
  "pbx_builtin_serialize_variables sz s = serialize_loop sz (varshead s)"

section \<open>Variables as a map\<close>

text \<open>What a name stands for in a list; the model of a list of variables.\<close>

definition lookup :: "cw_var_t list \<Rightarrow> u32 \<rightharpoonup> string" where
  "lookup vs h = map_option v_value (find (\<lambda>v. v_hash v = h) vs)"

lemma getvar_lookup:
  "pbx_builtin_getvar_helper on_chan name s =
     ((if on_chan then lookup (globals s) ++ lookup (varshead s) else lookup (globals s)) (cw_hash_string name))"
  by (simp add: pbx_builtin_getvar_helper_def lookup_def map_add_def Let_def split: option.splits)

lemma lookup_Nil [simp]: "lookup [] = Map.empty"
  by (auto simp: lookup_def)

lemma lookup_Cons [simp]: "lookup (v # vs) = (lookup vs)(v_hash v \<mapsto> v_value v)"
  by (auto simp: lookup_def)

lemma lookup_remove:
  "distinct (map v_hash vs) \<Longrightarrow> lookup (remove_first (\<lambda>v. v_hash v = h) vs) = (lookup vs)(h := None)"
proof (induction vs)
  case (Cons v vs)
  have "lookup vs (v_hash v) = None" using Cons.prems by (auto simp: lookup_def find_None_iff image_iff)
  then show ?case using Cons by auto
qed auto

lemma var_assign_simps [simp]:
  "v_hash (cw_var_assign name nval) = cw_hash_string name" "v_value (cw_var_assign name nval) = nval"
  "v_name (cw_var_assign name nval) = name"
  by (simp_all add: cw_var_assign_def cw_copy_string_def)

text \<open>Names that are not taken for calls and carry no underscore.\<close>

definition plain_name :: "string \<Rightarrow> bool" where
  "plain_name name \<longleftrightarrow> name \<noteq> [] \<and> hd name \<noteq> CHR ''_'' \<and> \<not> is_call name"

lemma strip_plain: "plain_name name \<Longrightarrow> strip_underscores name = name"
  by (cases name) (simp_all add: plain_name_def strip_underscores_def)

lemma lookup_set:
  "plain_name name \<Longrightarrow> distinct (map v_hash vs) \<Longrightarrow> lookup (set_in name nval vs) = (lookup vs)(cw_hash_string name := nval)"
  by (cases nval) (simp_all add: set_in_def strip_plain lookup_remove)

lemma distinct_set:
  assumes "plain_name name" "distinct (map v_hash vs)"
  shows "distinct (map v_hash (set_in name nval vs))"
proof -
  have "cw_hash_string name \<notin> v_hash ` set (remove_first (\<lambda>v. v_hash v = cw_hash_string name) vs)"
    using assms(2) by (induction vs) (auto simp: image_iff)
  then show ?thesis using assms by (cases nval) (simp_all add: set_in_def strip_plain distinct_map_remove_first)
qed

section \<open>Theorems\<close>

text \<open>The keywords with the names they stand for.\<close>

definition keyword_table :: "(string \<times> u32) list" where
  "keyword_table =
    [(''ANSWERED'', CW_KEYWORD_ANSWERED),
     (''CALLERID'', CW_KEYWORD_CALLERID),
     (''CALLERIDNUM'', CW_KEYWORD_CALLERIDNUM),
     (''CALLERIDNAME'', CW_KEYWORD_CALLERIDNAME),
     (''CALLERANI'', CW_KEYWORD_CALLERANI),
     (''CALLINGPRES'', CW_KEYWORD_CALLINGPRES),
     (''CALLINGANI2'', CW_KEYWORD_CALLINGANI2),
     (''CALLINGTON'', CW_KEYWORD_CALLINGTON),
     (''CALLINGTNS'', CW_KEYWORD_CALLINGTNS),
     (''DIALSTATUS'', CW_KEYWORD_DIALSTATUS),
     (''DNID'', CW_KEYWORD_DNID),
     (''HINT'', CW_KEYWORD_HINT),
     (''HINTNAME'', CW_KEYWORD_HINTNAME),
     (''EXTEN'', CW_KEYWORD_EXTEN),
     (''RDNIS'', CW_KEYWORD_RDNIS),
     (''CONTEXT'', CW_KEYWORD_CONTEXT),
     (''PRIORITY'', CW_KEYWORD_PRIORITY),
     (''CHANNEL'', CW_KEYWORD_CHANNEL),
     (''UNIQUEID'', CW_KEYWORD_UNIQUEID),
     (''HANGUPCAUSE'', CW_KEYWORD_HANGUPCAUSE),
     (''NEWDESTNUM'', CW_KEYWORD_NEWDESTNUM),
     (''ACCOUNTCODE'', CW_KEYWORD_ACCOUNTCODE),
     (''LANGUAGE'', CW_KEYWORD_LANGUAGE),
     (''SYSTEMNAME'', CW_KEYWORD_SYSTEMNAME),
     (''ANSWER'', CW_KEYWORD_ANSWER),
     (''BARRED'', CW_KEYWORD_BARRED),
     (''BUSY'', CW_KEYWORD_BUSY),
     (''CANCEL'', CW_KEYWORD_CANCEL),
     (''CHANUNAVAIL'', CW_KEYWORD_CHANUNAVAIL),
     (''CONGESTION'', CW_KEYWORD_CONGESTION),
     (''NOANSWER'', CW_KEYWORD_NOANSWER),
     (''NUMBERCHANGED'', CW_KEYWORD_NUMBERCHANGED),
     (''REJECTED'', CW_KEYWORD_REJECTED),
     (''UNALLOCATED'', CW_KEYWORD_UNALLOCATED),
     (''EPOCH'', CW_KEYWORD_EPOCH),
     (''DATETIME'', CW_KEYWORD_DATETIME),
     (''TIMESTAMP'', CW_KEYWORD_TIMESTAMP),
     (''SKIP'', CW_KEYWORD_SKIP),
     (''BYEXTENSION'', CW_KEYWORD_BYEXTENSION)]"

lemmas keyword_defs = keyword_table_def
  CW_KEYWORD_ANSWERED_def CW_KEYWORD_CALLERID_def CW_KEYWORD_CALLERIDNUM_def CW_KEYWORD_CALLERIDNAME_def CW_KEYWORD_CALLERANI_def CW_KEYWORD_CALLINGPRES_def CW_KEYWORD_CALLINGANI2_def CW_KEYWORD_CALLINGTON_def CW_KEYWORD_CALLINGTNS_def CW_KEYWORD_DIALSTATUS_def CW_KEYWORD_DNID_def CW_KEYWORD_HINT_def CW_KEYWORD_HINTNAME_def CW_KEYWORD_EXTEN_def CW_KEYWORD_RDNIS_def CW_KEYWORD_CONTEXT_def CW_KEYWORD_PRIORITY_def CW_KEYWORD_CHANNEL_def CW_KEYWORD_UNIQUEID_def CW_KEYWORD_HANGUPCAUSE_def CW_KEYWORD_NEWDESTNUM_def CW_KEYWORD_ACCOUNTCODE_def CW_KEYWORD_LANGUAGE_def CW_KEYWORD_SYSTEMNAME_def CW_KEYWORD_ANSWER_def CW_KEYWORD_BARRED_def CW_KEYWORD_BUSY_def CW_KEYWORD_CANCEL_def CW_KEYWORD_CHANUNAVAIL_def CW_KEYWORD_CONGESTION_def CW_KEYWORD_NOANSWER_def CW_KEYWORD_NUMBERCHANGED_def CW_KEYWORD_REJECTED_def CW_KEYWORD_UNALLOCATED_def CW_KEYWORD_EPOCH_def CW_KEYWORD_DATETIME_def CW_KEYWORD_TIMESTAMP_def CW_KEYWORD_SKIP_def CW_KEYWORD_BYEXTENSION_def

lemmas hash_eval = cw_hash_string_def CWHASH_SIGNIFICANT_CHARS_def sdbm_step_poly cval_def Let_def

text \<open>
  Every keyword of the header is the hash code of its name, and no two keywords have the
  same code, so that a comparison of hash codes recognises the names of the built-in variables.
\<close>

theorem keywords_are_hashes:
  "map snd keyword_table = map (cw_hash_string \<circ> fst) keyword_table \<and> distinct (map snd keyword_table)"
  by (simp add: keyword_defs hash_eval)

text \<open>
  C23. A list of variables behaves as a map from hash codes to texts: setting a variable under a
  plain name, or removing it with a null value, updates the map of the channel or of the dialplan
  at this name and nowhere else, and keeps one entry per hash code.
\<close>

theorem setvar_updates_map:
  assumes "plain_name name" "distinct (map v_hash (varshead s))" "distinct (map v_hash (globals s))"
  shows "lookup (varshead (pbx_builtin_setvar_helper lock_ok funcs on_chan name nval s)) =
      (if on_chan then (lookup (varshead s))(cw_hash_string name := nval) else lookup (varshead s)) \<and>
    lookup (globals (pbx_builtin_setvar_helper lock_ok funcs on_chan name nval s)) =
      (if on_chan then lookup (globals s) else (lookup (globals s))(cw_hash_string name := nval)) \<and>
    distinct (map v_hash (varshead (pbx_builtin_setvar_helper lock_ok funcs on_chan name nval s))) \<and>
    distinct (map v_hash (globals (pbx_builtin_setvar_helper lock_ok funcs on_chan name nval s))) \<and>
    (nval \<noteq> None \<longrightarrow>
      pbx_builtin_getvar_helper on_chan name (pbx_builtin_setvar_helper lock_ok funcs on_chan name nval s) = nval)"
  using assms lookup_set [OF assms(1)] distinct_set [OF assms(1)]
  by (auto simp: pbx_builtin_setvar_helper_def plain_name_def on_list_def getvar_lookup map_add_def split: option.splits)

theorem setvar_updates_map_witness:
  "lookup (varshead (pbx_builtin_setvar_helper True ([] :: (unit, unit) func_table) True ''FOO'' (Some ''1'')
      \<lparr>varshead = [], globals = [], rest_of_dial = ()\<rparr>)) = (\<lambda>_. None)(cw_hash_string ''FOO'' := Some ''1'')"
  using setvar_updates_map [of "''FOO''" "\<lparr>varshead = [], globals = [], rest_of_dial = ()\<rparr>" True
      "[] :: (unit, unit) func_table" True "Some ''1''"]
  by (simp add: plain_name_def is_call_def)

text \<open>
  A variable set with an underscore in front of its name, to be inherited, is filed under the
  hash code of the whole name while the search for an earlier one strips the underscore.  Hence
  setting it adds an entry each time, and reading it by its plain name does not find it.
\<close>

theorem underscored_variables_pile_up:
  assumes "name \<noteq> []" "hd name \<noteq> CHR ''_''" "\<not> is_call name" "cw_hash_string (CHR ''_'' # name) \<noteq> cw_hash_string name"
    and "\<forall>v\<in>set (varshead s). v_hash v \<noteq> cw_hash_string name"
  shows "length (varshead (((\<lambda>s. pbx_builtin_setvar_helper lock_ok funcs True (CHR ''_'' # name) (Some v) s) ^^ k) s)) =
      length (varshead s) + k \<and>
    pbx_builtin_getvar_helper True name (((\<lambda>s. pbx_builtin_setvar_helper lock_ok funcs True (CHR ''_'' # name) (Some v) s) ^^ k) s) =
      pbx_builtin_getvar_helper True name s"
proof -
  let ?f = "\<lambda>s. pbx_builtin_setvar_helper lock_ok funcs True (CHR ''_'' # name) (Some v) s"
  have strip: "strip_underscores (CHR ''_'' # name) = name"
    using assms(1,2) by (cases name) (simp_all add: strip_underscores_def)
  have step: "varshead (?f t) = cw_var_assign (CHR ''_'' # name) v # varshead t" "globals (?f t) = globals t"
    if "\<forall>v\<in>set (varshead t). v_hash v \<noteq> cw_hash_string name" for t
    using that assms(1,3) by (simp_all add: pbx_builtin_setvar_helper_def is_call_def on_list_def set_in_def strip remove_first_id)
  have "varshead ((?f ^^ k) s) = replicate k (cw_var_assign (CHR ''_'' # name) v) @ varshead s \<and> globals ((?f ^^ k) s) = globals s" for k
  proof (induction k)
    case (Suc k)
    then have "\<forall>v\<in>set (varshead ((?f ^^ k) s)). v_hash v \<noteq> cw_hash_string name" using assms(4,5) by auto
    from step [OF this] Suc show ?case by (simp del: var_assign_simps)
  qed simp
  moreover have "lookup (replicate k (cw_var_assign (CHR ''_'' # name) v) @ vs) (cw_hash_string name) = lookup vs (cw_hash_string name)" for vs
    using assms(4) by (induction k) auto
  ultimately show ?thesis by (simp add: getvar_lookup map_add_def)
qed

theorem underscored_variables_pile_up_witness:
  "length (varshead (((\<lambda>s. pbx_builtin_setvar_helper True ([] :: (unit, unit) func_table) True (CHR ''_'' # ''FOO'') (Some ''1'') s) ^^ 5)
       \<lparr>varshead = [], globals = [], rest_of_dial = ()\<rparr>)) = length (varshead \<lparr>varshead = [], globals = [], rest_of_dial = ()\<rparr>) + 5 \<and>
   pbx_builtin_getvar_helper True ''FOO''
     (((\<lambda>s. pbx_builtin_setvar_helper True ([] :: (unit, unit) func_table) True (CHR ''_'' # ''FOO'') (Some ''1'') s) ^^ 5)
       \<lparr>varshead = [], globals = [], rest_of_dial = ()\<rparr>) =
   pbx_builtin_getvar_helper True ''FOO'' \<lparr>varshead = [], globals = [], rest_of_dial = ()\<rparr>"
proof (rule underscored_variables_pile_up)
  show "cw_hash_string (CHR ''_'' # ''FOO'') \<noteq> cw_hash_string ''FOO''" by (simp add: hash_eval)
qed (simp_all add: is_call_def)

end
