(* ===== verification/Pbx_Retrieve.thy ===== *)
theory Pbx_Retrieve
  imports Pbx_Vars "HOL-Library.Monad_Syntax"
begin

text \<open>
  Reading a variable: \<open>pbx_retrieve_variable\<close> of \<open>corelib/pbx.c\<close>.

  The five scenarios of the source in their order: built-in variables of the channel, its own
  variables, those of the list passed in when there is no channel, built-in global variables and
  global variables.  A name may carry a slice, \<open>NAME:offset:length\<close>.

  The result is a pointer into the work space of the caller: \<open>None\<close> stands for a null pointer,
  \<open>Some\<close> for the text.  The routine writes a terminator into the work space when it cuts a slice;
  where this write, or a read, leaves the buffer, the outer result is \<open>None\<close>.  The time, the name of
  the system and the hint of the channel (\<open>cw_get_hint\<close>) are the fields of \<open>retrieve_env\<close>.
\<close>

section \<open>The routine of the source\<close>

record callerid =
  cid_num :: "string option"
  cid_name :: "string option"
  cid_ani :: "string option"
  cid_dnid :: "string option"
  cid_rdnis :: "string option"
  cid_pres :: int
  cid_ani2 :: int
  cid_ton :: int
  cid_tns :: int

record chan_info =
  ch_name :: string
  ch_context :: string
  ch_exten :: string
  ch_priority :: int
  ch_cid :: callerid
  ch_uniqueid :: string
  ch_hangupcause :: int
  ch_accountcode :: string
  ch_language :: string

record retrieve_env =
  epoch :: int
  lt_year :: int
  lt_mon :: int
  lt_mday :: int
  lt_hour :: int
  lt_min :: int
  lt_sec :: int
  system_name :: string
  hint_text :: "string \<Rightarrow> string \<Rightarrow> (string \<times> string) option"

definition zeros :: "nat \<Rightarrow> int \<Rightarrow> string" where
  "zeros k i = replicate (k - length (dec i)) (CHR ''0'') @ dec i"

text \<open>Scenario 1: \<open>None\<close> when the hash code is none of the keywords.\<close>

definition builtin_channel_variable :: "retrieve_env \<Rightarrow> chan_info \<Rightarrow> u32 \<Rightarrow> nat \<Rightarrow> string option option" where
  "builtin_channel_variable env c hash n =
     (let copy = (\<lambda>s. Some (cw_copy_string s n)); copy_opt = map_option (\<lambda>s. cw_copy_string s n); cid = ch_cid c in
      if hash = CW_KEYWORD_CALLERID
      then Some (case (cid_num cid, cid_name cid) of
                   (Some num, Some name) \<Rightarrow> copy ([CHR 0x22] @ name @ [CHR 0x22] @ '' <'' @ num @ ''>'')
                 | (Some num, None) \<Rightarrow> copy num
                 | (None, name) \<Rightarrow> copy_opt name)
      else if hash = CW_KEYWORD_CALLERIDNUM then Some (copy_opt (cid_num cid))
      else if hash = CW_KEYWORD_CALLERIDNAME then Some (copy_opt (cid_name cid))
      else if hash = CW_KEYWORD_CALLERANI then Some (copy_opt (cid_ani cid))
      else if hash = CW_KEYWORD_CALLINGPRES then Some (copy (dec (cid_pres cid)))
      else if hash = CW_KEYWORD_CALLINGANI2 then Some (copy (dec (cid_ani2 cid)))
      else if hash = CW_KEYWORD_CALLINGTON then Some (copy (dec (cid_ton cid)))
      else if hash = CW_KEYWORD_CALLINGTNS then Some (copy (dec (cid_tns cid)))
      else if hash = CW_KEYWORD_DNID then Some (copy_opt (cid_dnid cid))
      else if hash = CW_KEYWORD_HINT then Some (copy_opt (map_option fst (hint_text env (ch_context c) (ch_exten c))))
      else if hash = CW_KEYWORD_HINTNAME then Some (copy_opt (map_option snd (hint_text env (ch_context c) (ch_exten c))))
      else if hash = CW_KEYWORD_EXTEN then Some (copy (ch_exten c))
      else if hash = CW_KEYWORD_RDNIS then Some (copy_opt (cid_rdnis cid))
      else if hash = CW_KEYWORD_CONTEXT then Some (copy (ch_context c))
      else if hash = CW_KEYWORD_PRIORITY then Some (copy (dec (ch_priority c)))
      else if hash = CW_KEYWORD_CHANNEL then Some (copy (ch_name c))
      else if hash = CW_KEYWORD_UNIQUEID then Some (copy (ch_uniqueid c))
      else if hash = CW_KEYWORD_HANGUPCAUSE then Some (copy (dec (ch_hangupcause c)))
      else if hash = CW_KEYWORD_ACCOUNTCODE then Some (copy (ch_accountcode c))
      else if hash = CW_KEYWORD_LANGUAGE then Some (copy (ch_language c))
      else if hash = CW_KEYWORD_SYSTEMNAME then Some (copy (system_name env))
      else None)"

text \<open>Scenarios 2 and 3: the comparison of names ignores case and leading underscores.\<close>

definition find_named :: "string \<Rightarrow> nat \<Rightarrow> cw_var_t list \<Rightarrow> string option" where
  "find_named var n vs = map_option (\<lambda>v. cw_copy_string (v_value v) n) (find (\<lambda>v. strcasecmp (cw_var_name v) var = 0) vs)"

text \<open>Scenario 4.  The fields \<open>lt_year\<close> to \<open>lt_sec\<close> are the local time, with \<open>lt_mon\<close> and \<open>lt_year\<close>
  counted as in \<open>struct tm\<close>.\<close>

definition builtin_global_variable :: "retrieve_env \<Rightarrow> u32 \<Rightarrow> nat \<Rightarrow> string option" where
  "builtin_global_variable env hash n =
     (let year = zeros 4 (lt_year env + 1900); mon = zeros 2 (lt_mon env + 1); mday = zeros 2 (lt_mday env);
          hour = zeros 2 (lt_hour env); mins = zeros 2 (lt_min env); sec = zeros 2 (lt_sec env) in
      if hash = CW_KEYWORD_EPOCH then Some (cw_copy_string (dec (epoch env mod 2 ^ 32)) n)
      else if hash = CW_KEYWORD_DATETIME
      then Some (cw_copy_string (mday @ mon @ year @ ''-'' @ hour @ '':'' @ mins @ '':'' @ sec) n)
      else if hash = CW_KEYWORD_TIMESTAMP
      then Some (cw_copy_string (year @ mon @ mday @ ''-'' @ hour @ mins @ sec) n)
      else None)"

text \<open>Scenario 5: the loop does not stop at the first entry, the last one with the code wins.\<close>

definition find_global :: "u32 \<Rightarrow> nat \<Rightarrow> cw_var_t list \<Rightarrow> string option" where
  "find_global hash n vs = map_option (\<lambda>v. cw_copy_string (v_value v) n) (find (\<lambda>v. v_hash v = hash) (rev vs))"

definition retrieve_plain ::
    "retrieve_env \<Rightarrow> cw_var_t list \<Rightarrow> chan_info option \<Rightarrow> cw_var_t list \<Rightarrow> string \<Rightarrow> nat \<Rightarrow> string option" where
  "retrieve_plain env gs c headp var n =
     (let hash = cw_hash_string var;
          global = (case builtin_global_variable env hash n of Some t \<Rightarrow> Some t | None \<Rightarrow> find_global hash n gs);
          listed = (case find_named var n headp of Some t \<Rightarrow> Some t | None \<Rightarrow> global) in
      case c of
        None \<Rightarrow> listed
      | Some ci \<Rightarrow> (case builtin_channel_variable env ci hash n of Some r \<Rightarrow> r | None \<Rightarrow> listed))"

text \<open>
  The slice: \<open>r\<close> is the text in a buffer of \<open>sz\<close> bytes.  Comparisons of an \<open>int\<close> with \<open>strlen\<close> are
  unsigned, so that a negative sum counts as large.
\<close>

definition slice :: "nat \<Rightarrow> string \<Rightarrow> int \<Rightarrow> int option \<Rightarrow> string option" where
  "slice sz r offset second =
     (let len = int (length r);
          offset2 = (case second of
                       Some l \<Rightarrow> l
                     | None \<Rightarrow> if offset \<ge> 0 then len - offset else \<bar>offset\<bar>);
          offset = (if \<bar>offset\<bar> > len then if offset \<ge> 0 then len else - len else offset);
          offset2 = (if offset < 0 \<and> offset2 > - offset \<or> offset \<ge> 0 \<and> (offset + offset2 < 0 \<or> offset + offset2 > len)
                     then if offset \<ge> 0 then len - offset else len + offset
                     else offset2);
          from = (if offset \<ge> 0 then offset else len + offset);
          at = from + offset2
      in if at < 0 \<or> int sz \<le> at then None
         else Some (let t = drop (nat from) r in if offset2 < 0 then t else take (nat offset2) t))"

definition pbx_retrieve_variable ::
    "retrieve_env \<Rightarrow> cw_var_t list \<Rightarrow> chan_info option \<Rightarrow> cw_var_t list \<Rightarrow> string \<Rightarrow> nat \<Rightarrow> string option option" where
  "pbx_retrieve_variable env gs c headp var n =
     (if CHR '':'' \<in> set var
      then case split_at (CHR '':'') (cw_copy_string var 80) of
        None \<Rightarrow> (case retrieve_plain env gs c headp (cw_copy_string var 80) (n - 1) of None \<Rightarrow> Some None | Some _ \<Rightarrow> None)
      | Some (name, first) \<Rightarrow>
          (case retrieve_plain env gs c headp name (n - 1) of
             None \<Rightarrow> Some None
           | Some r \<Rightarrow>
               (case split_at (CHR '':'') first of
                  None \<Rightarrow> map_option Some (slice n r (atoi first) None)
                | Some (f, second) \<Rightarrow> map_option Some (slice n r (atoi f) (Some (atoi second)))))
      else Some (retrieve_plain env gs c headp var n))"

lemmas dec_eval = dec_def dec_nat.simps digit_def char_of_def bit_Suc_0_iff

section \<open>Texts fit in the work space\<close>

lemma builtin_channel_fits:
  "0 < n \<Longrightarrow> builtin_channel_variable env c hash n = Some (Some r) \<Longrightarrow> length r < n"
  unfolding builtin_channel_variable_def Let_def
  by (auto simp: length_cw_copy_string split: if_splits option.splits)

lemma retrieve_plain_fits: "0 < n \<Longrightarrow> retrieve_plain env gs c headp var n = Some r \<Longrightarrow> length r < n"
  using builtin_channel_fits [of n env _ "cw_hash_string var" r]
  by (auto simp: retrieve_plain_def Let_def find_named_def find_global_def builtin_global_variable_def length_cw_copy_string
      split: option.splits if_splits)

section \<open>Slices\<close>

lemma slice_forward:
  assumes "0 \<le> offset" "length r < sz"
  shows "slice sz r offset second =
    Some (case second of
            None \<Rightarrow> drop (nat offset) r
          | Some l \<Rightarrow> if l < 0 then drop (nat offset) r else take (nat l) (drop (nat offset) r))"
proof (cases "second")
  case None
  then show ?thesis using assms by (auto simp: slice_def Let_def)
next
  case (Some l)
  then show ?thesis using assms by (auto simp: slice_def Let_def nat_diff_distrib)
qed

lemma slice_backward:
  assumes "offset < 0" "- offset \<le> int (length r)" "length r < sz"
  shows "slice sz r offset second =
    (let k = nat (- offset); t = drop (length r - k) r in
     case second of
       None \<Rightarrow> Some t
     | Some l \<Rightarrow>
         if 0 \<le> l \<and> l \<le> - offset then Some (take (nat l) t)
         else if l < 0 then if int (length r) + offset + l < 0 then None else Some t
         else if sz \<le> 2 * (length r - k) then None else Some (take (length r - k) t))"
proof -
  define k a t where "k = nat (- offset)" and "a = take (length r - k) r" and "t = drop (length r - k) r"
  have r: "r = a @ t" "length t = k" "offset = - int k" "0 < k" "length r - k = length a"
    using assms(1,2) by (auto simp: a_def t_def k_def)
  have at: "slice sz (a @ t) (- int k) second =
      (let l = (case second of None \<Rightarrow> int k | Some l \<Rightarrow> l); l = (if int k < l then int (length a) else l) in
       if int (length a) + l < 0 \<or> int sz \<le> int (length a) + l then None
       else Some (if l < 0 then t else take (nat l) t))"
    using r(2,4) by (cases second) (simp_all add: slice_def Let_def)
  have "length a + k < sz" using assms(3) r(1,2) by simp
  then show ?thesis using r(2,4) unfolding r(3) r(5) [unfolded r(1)] r(1)
    unfolding at by (cases second) (simp_all add: Let_def, linarith?)
qed

lemma split_slice:
  assumes "CHR '':'' \<notin> set name"
  shows "split_at (CHR '':'') (name @ CHR '':'' # rest) = Some (name, rest)"
  using assms by (induction name) (auto simp: split_at_def)

lemma digit_not_colon: "CHR '':'' \<notin> set (dec i)"
proof
  assume "CHR '':'' \<in> set (dec i)"
  then have "isdigit (CHR '':'')" using dec_nat_digits [of "CHR '':''"] by (auto simp: dec_def split: if_splits)
  then show False by code_simp
qed

text \<open>Reading a name with a slice is reading the name and cutting.\<close>

lemma retrieve_slice:
  assumes "CHR '':'' \<notin> set name" "length (name @ '':'' @ dec i @ '':'' @ dec l) < 80"
  shows "pbx_retrieve_variable env gs c headp (name @ '':'' @ dec i @ '':'' @ dec l) n =
    (case retrieve_plain env gs c headp name (n - 1) of None \<Rightarrow> Some None | Some r \<Rightarrow> map_option Some (slice n r i (Some l)))"
proof -
  have "cw_copy_string (name @ '':'' @ dec i @ '':'' @ dec l) 80 = name @ CHR '':'' # dec i @ CHR '':'' # dec l"
    using assms(2) by (simp add: cw_copy_string_def)
  then show ?thesis
    unfolding pbx_retrieve_variable_def using split_slice [OF assms(1)] split_slice [OF digit_not_colon]
    by (simp split: option.splits)
qed

section \<open>Theorems\<close>

text \<open>
  A slice counted from the front cuts as documented and stays inside the work space: with a
  non-negative offset, reading \<open>NAME:offset:length\<close> yields the text of the variable without its
  first characters, limited to \<open>length\<close> characters when this is not negative.
\<close>

theorem slice_from_front:
  assumes "CHR '':'' \<notin> set name" "length (name @ '':'' @ dec i @ '':'' @ dec l) < 80" "0 \<le> i" "1 < n"
  shows "pbx_retrieve_variable env gs c headp (name @ '':'' @ dec i @ '':'' @ dec l) n =
    Some (map_option (\<lambda>r. if l < 0 then drop (nat i) r else take (nat l) (drop (nat i) r))
      (retrieve_plain env gs c headp name (n - 1)))"
proof (cases "retrieve_plain env gs c headp name (n - 1)")
  case (Some r)
  then have "length r < n - 1" using retrieve_plain_fits [of "n - 1"] assms(4) by simp
  then have "length r < n" by simp
  then show ?thesis unfolding retrieve_slice [OF assms(1,2)] Some using slice_forward [OF assms(3)] by simp
qed (simp only: retrieve_slice [OF assms(1,2)] option.case option.map)

definition demo_retrieve :: retrieve_env where
  "demo_retrieve = \<lparr>epoch = 0, lt_year = 70, lt_mon = 0, lt_mday = 1, lt_hour = 0, lt_min = 0, lt_sec = 0,
     system_name = [], hint_text = (\<lambda>_ _. None)\<rparr>"

theorem slice_from_front_witness:
  "pbx_retrieve_variable demo_retrieve [] None [cw_var_assign ''FOO'' ''hello''] (''FOO'' @ '':'' @ dec 1 @ '':'' @ dec 3) 4096 =
    Some (map_option (\<lambda>r. if (3 :: int) < 0 then drop (nat 1) r else take (nat 3) (drop (nat 1) r))
      (retrieve_plain demo_retrieve [] None [cw_var_assign ''FOO'' ''hello''] ''FOO'' (4096 - 1)))"
proof (rule slice_from_front)
  have "dec 1 = ''1''" "dec 3 = ''3''" by (simp_all add: dec_eval)
  then show "length (''FOO'' @ '':'' @ dec 1 @ '':'' @ dec 3) < 80" by simp
qed simp_all

text \<open>
  A slice counted from the end is not checked as carefully.  With a length above the number of
  characters kept, the text is cut at a position computed from the wrong end, so that
  \<open>NAME:-1:2\<close> of a text that fills more than half of the work space writes behind it; with a
  negative length reaching over the start, \<open>NAME:-1:-k\<close> writes in front of it.
\<close>

theorem slice_from_end_overruns:
  assumes "CHR '':'' \<notin> set name" "length name < 60" "1 < n" "2 \<le> length r"
    and "retrieve_plain env gs c headp name (n - 1) = Some r"
  shows "(n \<le> 2 * (length r - 1) \<longrightarrow> pbx_retrieve_variable env gs c headp (name @ '':'' @ dec (- 1) @ '':'' @ dec 2) n = None) \<and>
    pbx_retrieve_variable env gs c headp (name @ '':'' @ dec (- 1) @ '':'' @ dec (- 9999)) n =
      (if length r < 10000 then None else Some (Some [last r]))"
proof -
  have d: "dec (- 1) = ''-1''" "dec 2 = ''2''" "dec (- 9999) = ''-9999''" by (simp_all add: dec_eval)
  have l: "length r < n" using retrieve_plain_fits [OF _ assms(5)] assms(3) by simp
  have "pbx_retrieve_variable env gs c headp (name @ '':'' @ dec (- 1) @ '':'' @ dec 2) n = map_option Some (slice n r (- 1) (Some 2))"
    using retrieve_slice [OF assms(1), of "- 1" 2] assms(2,5) d by simp
  moreover have "pbx_retrieve_variable env gs c headp (name @ '':'' @ dec (- 1) @ '':'' @ dec (- 9999)) n =
      map_option Some (slice n r (- 1) (Some (- 9999)))"
    using retrieve_slice [OF assms(1), of "- 1" "- 9999"] assms(2,5) d by simp
  moreover have "slice n r (- 1) (Some 2) = None" if "n \<le> 2 * (length r - 1)"
    using slice_backward [of "- 1" r n "Some 2"] l that assms(4) by (simp add: Let_def)
  moreover have "drop (length r - 1) r = [last r]" using assms(4) by (cases r rule: rev_cases) auto
  then have "slice n r (- 1) (Some (- 9999)) = (if length r < 10000 then None else Some [last r])"
    using slice_backward [of "- 1" r n "Some (- 9999)"] l assms(4) by (simp add: Let_def)
  ultimately show ?thesis by simp
qed

theorem slice_from_end_overruns_witness:
  "(8 \<le> 2 * (length ''hello'' - 1) \<longrightarrow>
     pbx_retrieve_variable demo_retrieve [] None [cw_var_assign ''FOO'' ''hello''] (''FOO'' @ '':'' @ dec (- 1) @ '':'' @ dec 2) 8 = None) \<and>
   pbx_retrieve_variable demo_retrieve [] None [cw_var_assign ''FOO'' ''hello''] (''FOO'' @ '':'' @ dec (- 1) @ '':'' @ dec (- 9999)) 8 =
     (if length ''hello'' < 10000 then None else Some (Some [last ''hello'']))"
proof (rule slice_from_end_overruns)
  show "retrieve_plain demo_retrieve [] None [cw_var_assign ''FOO'' ''hello''] ''FOO'' (8 - 1) = Some ''hello''"
    by (simp add: retrieve_plain_def Let_def find_named_def cw_var_name_def strip_underscores_def cw_copy_string_def)
qed simp_all

end
