(* ===== verification/CW_Expr.thy ===== *)
theory CW_Expr
  imports CW_Decimal "HOL-Library.Signed_Division" "HOL-Library.Monad_Syntax"
begin

text \<open>
  Expressions of the dialplan: the values and operators of \<open>corelib/callweaver_expr2.y\<close>, the
  actions of its grammar and the entry point \<open>cw_expr\<close> of \<open>corelib/callweaver_expr2.l\<close>.

  A \<open>quad_t\<close> is a \<open>64 word\<close>; its sums, differences and products wrap around.  The union of
  \<open>struct val\<close> is a datatype with one constructor per tag.  A number whose conversion overflows
  keeps the tag \<open>CW_EXPR_numeric_string\<close> with a null pointer: \<open>ENum None\<close>.  \<open>None\<close> as a result
  means that the process is killed, by a null pointer or by a division that traps.

  The scanner and the automaton that bison makes of the grammar are a parameter which yields a
  tree; the evaluation of trees follows the actions of the grammar.  Regular expressions of the
  C library are a parameter as well.  No locale is set, so \<open>strcoll\<close> is \<open>strcmp\<close>.  Allocation
  is taken to succeed.
\<close>

type_synonym quad = "64 word"

definition QUAD_MIN :: int where "QUAD_MIN = - (2 ^ 63)"

definition QUAD_MAX :: int where "QUAD_MAX = 2 ^ 63 - 1"

definition INT_MAX :: quad where "INT_MAX = 2147483647"

datatype val = EInt quad | ENum "string option" | EStr string

section \<open>Conversions\<close>

definition make_str :: "string \<Rightarrow> val" where
  "make_str s =
     (if s \<noteq> [] \<and> (isdigit (hd s) \<or> hd s = CHR ''-'') \<and> (\<forall>c\<in>set (tl s). isdigit c)
      then ENum (Some s) else EStr s)"

definition to_integer :: "val \<Rightarrow> (bool \<times> val) option" where
  "to_integer vp =
     (case vp of
        EInt i \<Rightarrow> Some (True, vp)
      | EStr s \<Rightarrow> Some (False, vp)
      | ENum None \<Rightarrow> None
      | ENum (Some s) \<Rightarrow>
          (let i = atoi s in
           if i < QUAD_MIN \<or> QUAD_MAX < i then Some (False, ENum None) else Some (True, EInt (word_of_int i))))"

definition strip_quotes :: "val \<Rightarrow> val option" where
  "strip_quotes vp =
     (let strip = (\<lambda>s. if s \<noteq> [] \<and> hd s = CHR 0x22 \<and> last s = CHR 0x22 then filter (\<lambda>c. c \<noteq> CHR 0x22) s else s) in
      case vp of
        EInt i \<Rightarrow> Some vp
      | EStr s \<Rightarrow> Some (EStr (strip s))
      | ENum None \<Rightarrow> None
      | ENum (Some s) \<Rightarrow> Some (ENum (Some (strip s))))"

definition to_string :: "val \<Rightarrow> val" where
  "to_string vp = (case vp of EInt i \<Rightarrow> EStr (dec (sint i)) | _ \<Rightarrow> vp)"

definition isstring :: "val \<Rightarrow> bool" where
  "isstring vp = (case vp of EStr s \<Rightarrow> True | _ \<Rightarrow> False)"

text \<open>The two views of the union: the null pointer read as an integer is zero, and no other
  pointer is ever read as one.\<close>

definition u_s :: "val \<Rightarrow> string option" where
  "u_s vp = (case vp of EStr s \<Rightarrow> Some s | ENum p \<Rightarrow> p | EInt i \<Rightarrow> None)"

definition u_i :: "val \<Rightarrow> quad option" where
  "u_i vp = (case vp of EInt i \<Rightarrow> Some i | ENum None \<Rightarrow> Some 0 | _ \<Rightarrow> None)"

definition is_zero_or_null :: "val \<Rightarrow> (bool \<times> val) option" where
  "is_zero_or_null vp =
     (case vp of
        EInt i \<Rightarrow> Some (i = 0, vp)
      | _ \<Rightarrow> do {
          s \<leftarrow> u_s vp;
          if s = [] then Some (True, vp)
          else do {
            (num, vp) \<leftarrow> to_integer vp;
            if num then do { i \<leftarrow> u_i vp; Some (i = 0, vp) } else Some (False, vp)
          }
        })"

section \<open>Logic and comparison\<close>

definition op_or :: "val \<Rightarrow> val \<Rightarrow> val option" where
  "op_or a b = do { (z, a) \<leftarrow> is_zero_or_null a; Some (if z then b else a) }"

definition op_and :: "val \<Rightarrow> val \<Rightarrow> val option" where
  "op_and a b = do {
     (z, a) \<leftarrow> is_zero_or_null a;
     if z then Some (EInt 0)
     else do { (z, b) \<leftarrow> is_zero_or_null b; Some (if z then EInt 0 else a) }
   }"

text \<open>The common text of the six comparisons, with the test on the result of \<open>strcoll\<close> and the
  test on integers.\<close>

definition op_rel :: "(int \<Rightarrow> bool) \<Rightarrow> (quad \<Rightarrow> quad \<Rightarrow> bool) \<Rightarrow> val \<Rightarrow> val \<Rightarrow> val option" where
  "op_rel p q a b =
     (if isstring a \<or> isstring b
      then do { s \<leftarrow> u_s (to_string a); t \<leftarrow> u_s (to_string b); Some (EInt (of_bool (p (strcmp s t)))) }
      else do {
        (_, a) \<leftarrow> to_integer a;
        (_, b) \<leftarrow> to_integer b;
        i \<leftarrow> u_i a;
        j \<leftarrow> u_i b;
        Some (EInt (of_bool (q i j)))
      })"

definition op_eq :: "val \<Rightarrow> val \<Rightarrow> val option" where "op_eq = op_rel (\<lambda>c. c = 0) (\<lambda>i j. i = j)"

definition op_gt :: "val \<Rightarrow> val \<Rightarrow> val option" where "op_gt = op_rel (\<lambda>c. c > 0) (\<lambda>i j. j <s i)"

definition op_lt :: "val \<Rightarrow> val \<Rightarrow> val option" where "op_lt = op_rel (\<lambda>c. c < 0) (\<lambda>i j. i <s j)"

definition op_ge :: "val \<Rightarrow> val \<Rightarrow> val option" where "op_ge = op_rel (\<lambda>c. c \<ge> 0) (\<lambda>i j. j \<le>s i)"

definition op_le :: "val \<Rightarrow> val \<Rightarrow> val option" where "op_le = op_rel (\<lambda>c. c \<le> 0) (\<lambda>i j. i \<le>s j)"

definition op_ne :: "val \<Rightarrow> val \<Rightarrow> val option" where "op_ne = op_rel (\<lambda>c. c \<noteq> 0) (\<lambda>i j. i \<noteq> j)"

definition op_cond :: "val \<Rightarrow> val \<Rightarrow> val \<Rightarrow> val option" where
  "op_cond a b c =
     (case a of
        EStr s \<Rightarrow> Some (if s \<noteq> [] \<and> s \<noteq> [CHR 0x22, CHR 0x22] \<and> s \<noteq> ''0'' then b else c)
      | _ \<Rightarrow> do { (_, a) \<leftarrow> to_integer a; i \<leftarrow> u_i a; Some (if i \<noteq> 0 then b else c) })"

definition op_compl :: "val \<Rightarrow> val" where
  "op_compl a =
     (case a of
        EInt i \<Rightarrow> EInt (of_bool (i = 0))
      | _ \<Rightarrow> EInt (of_bool (case u_s a of None \<Rightarrow> True | Some s \<Rightarrow> s = [] \<or> s = ''0'')))"

section \<open>Arithmetic\<close>

text \<open>What an operator writes to the log; \<open>quiet\<close> is \<open>extra_error_message_supplied\<close>.\<close>

datatype warning = Overflow | Non_numeric | Div_by_zero

definition non_numeric :: "bool \<Rightarrow> warning list" where
  "non_numeric quiet = (if quiet then [] else [Non_numeric])"

definition overflow :: "bool \<Rightarrow> warning list" where
  "overflow chk = (if chk then [Overflow] else [])"

definition chk_plus :: "quad \<Rightarrow> quad \<Rightarrow> quad \<Rightarrow> bool" where
  "chk_plus a b r \<longleftrightarrow> 0 <s a \<and> 0 <s b \<and> r \<le>s 0 \<or> a <s 0 \<and> b <s 0 \<and> 0 \<le>s r"

definition op_plus :: "bool \<Rightarrow> val \<Rightarrow> val \<Rightarrow> (val \<times> warning list) option" where
  "op_plus quiet a b = do {
     (na, a) \<leftarrow> to_integer a;
     (nb, b) \<leftarrow> to_integer b;
     if \<not> na then Some (if \<not> nb then EInt 0 else b, non_numeric quiet)
     else if \<not> nb then Some (a, [])
     else do {
       i \<leftarrow> u_i a;
       j \<leftarrow> u_i b;
       let r = i + j in Some (EInt r, overflow (chk_plus i j r))
     }
   }"

definition chk_minus :: "quad \<Rightarrow> quad \<Rightarrow> quad \<Rightarrow> bool" where
  "chk_minus a b r \<longleftrightarrow> (if sint b = QUAD_MIN then 0 \<le>s a else chk_plus a (- b) r)"

definition op_minus :: "bool \<Rightarrow> val \<Rightarrow> val \<Rightarrow> (val \<times> warning list) option" where
  "op_minus quiet a b = do {
     (na, a) \<leftarrow> to_integer a;
     (nb, b) \<leftarrow> to_integer b;
     if \<not> na
     then if \<not> nb then Some (EInt 0, non_numeric quiet)
          else do { j \<leftarrow> u_i b; Some (EInt (0 - j), non_numeric quiet) }
     else if \<not> nb then Some (a, non_numeric quiet)
     else do {
       i \<leftarrow> u_i a;
       j \<leftarrow> u_i b;
       let r = i - j in Some (EInt r, overflow (chk_minus i j r))
     }
   }"

definition op_negate :: "bool \<Rightarrow> val \<Rightarrow> (val \<times> warning list) option" where
  "op_negate quiet a = do {
     (na, a) \<leftarrow> to_integer a;
     if \<not> na then Some (EInt 0, non_numeric quiet)
     else do { i \<leftarrow> u_i a; let r = - i in Some (EInt r, overflow (chk_minus 0 i r)) }
   }"

text \<open>Division of \<open>quad_t\<close> truncates; by zero, and of the least number by \<open>-1\<close>, it traps.\<close>

definition quad_div :: "quad \<Rightarrow> quad \<Rightarrow> quad option" where
  "quad_div a b =
     (if b = 0 \<or> sint a = QUAD_MIN \<and> sint b = - 1 then None else Some (word_of_int (sint a sdiv sint b)))"

definition quad_rem :: "quad \<Rightarrow> quad \<Rightarrow> quad option" where
  "quad_rem a b =
     (if b = 0 \<or> sint a = QUAD_MIN \<and> sint b = - 1 then None else Some (word_of_int (sint a smod sint b)))"

definition chk_times :: "quad \<Rightarrow> quad \<Rightarrow> quad \<Rightarrow> bool option" where
  "chk_times a b r = (if a = 0 then Some False else do { q \<leftarrow> quad_div r a; Some (q \<noteq> b) })"

definition op_times :: "bool \<Rightarrow> val \<Rightarrow> val \<Rightarrow> (val \<times> warning list) option" where
  "op_times quiet a b = do {
     (na, a) \<leftarrow> to_integer a;
     if \<not> na then Some (EInt 0, non_numeric quiet)
     else do {
       (nb, b) \<leftarrow> to_integer b;
       if \<not> nb then Some (EInt 0, non_numeric quiet)
       else do {
         i \<leftarrow> u_i a;
         j \<leftarrow> u_i b;
         let r = i * j in do { c \<leftarrow> chk_times i j r; Some (EInt r, overflow c) }
       }
     }
   }"

definition chk_div :: "quad \<Rightarrow> quad \<Rightarrow> bool" where
  "chk_div a b \<longleftrightarrow> sint a = QUAD_MIN \<and> sint b = - 1"

definition op_div :: "bool \<Rightarrow> val \<Rightarrow> val \<Rightarrow> (val \<times> warning list) option" where
  "op_div quiet a b = do {
     (na, a) \<leftarrow> to_integer a;
     if \<not> na then Some (EInt 0, non_numeric quiet)
     else do {
       (nb, b) \<leftarrow> to_integer b;
       if \<not> nb then Some (EInt INT_MAX, non_numeric quiet)
       else do {
         i \<leftarrow> u_i a;
         j \<leftarrow> u_i b;
         if j = 0 then Some (EInt INT_MAX, [Div_by_zero])
         else do { r \<leftarrow> quad_div i j; Some (EInt r, overflow (chk_div i j)) }
       }
     }
   }"

definition op_rem :: "bool \<Rightarrow> val \<Rightarrow> val \<Rightarrow> (val \<times> warning list) option" where
  "op_rem quiet a b = do {
     (na, a) \<leftarrow> to_integer a;
     if \<not> na then Some (EInt 0, non_numeric quiet)
     else do {
       (nb, b) \<leftarrow> to_integer b;
       if \<not> nb then Some (EInt 0, non_numeric quiet)
       else do {
         i \<leftarrow> u_i a;
         j \<leftarrow> u_i b;
         if j = 0 then Some (b, [Div_by_zero])
         else do { r \<leftarrow> quad_rem i j; Some (EInt r, []) }
       }
     }
   }"

section \<open>Regular expressions\<close>

text \<open>A compiled expression: the number of its groups, and for a text the position of the match
  and of the first group.\<close>

type_synonym regex = "nat \<times> (string \<Rightarrow> ((nat \<times> nat) \<times> (nat \<times> nat) option) option)"

definition op_match :: "(string \<Rightarrow> regex option) \<Rightarrow> bool \<Rightarrow> val \<Rightarrow> val \<Rightarrow> val option" where
  "op_match regcomp anchored a b = do {
     a \<leftarrow> strip_quotes (to_string a);
     b \<leftarrow> strip_quotes (to_string b);
     s \<leftarrow> u_s a;
     p \<leftarrow> u_s b;
     Some (case regcomp p of
        None \<Rightarrow> make_str []
      | Some (nsub, regexec) \<Rightarrow>
          (let no_match = (if nsub = 0 then EInt 0 else make_str []) in
           case regexec s of
             None \<Rightarrow> no_match
           | Some ((so, eo), grp) \<Rightarrow>
               if anchored \<and> so \<noteq> 0 then no_match
               else (case grp of
                       Some (so1, eo1) \<Rightarrow> make_str (drop so1 (take eo1 s))
                     | None \<Rightarrow> EInt (word_of_int (int eo - int so)))))
   }"

definition op_colon :: "(string \<Rightarrow> regex option) \<Rightarrow> val \<Rightarrow> val \<Rightarrow> val option" where
  "op_colon regcomp = op_match regcomp True"

definition op_eqtilde :: "(string \<Rightarrow> regex option) \<Rightarrow> val \<Rightarrow> val \<Rightarrow> val option" where
  "op_eqtilde regcomp = op_match regcomp False"

section \<open>The actions of the grammar\<close>

datatype binop =
  TOK_OR | TOK_AND | TOK_EQ | TOK_GT | TOK_LT | TOK_GE | TOK_LE | TOK_NE |
  TOK_PLUS | TOK_MINUS | TOK_MULT | TOK_DIV | TOK_MOD | TOK_COLON | TOK_EQTILDE

datatype expr =
    TOKEN val
  | Paren expr
  | Bin expr binop expr
  | Negate expr
  | Compl expr
  | Cond expr expr expr

definition silent :: "val option \<Rightarrow> (val \<times> warning list) option" where
  "silent r = map_option (\<lambda>v. (v, [])) r"

definition apply_op ::
    "(string \<Rightarrow> regex option) \<Rightarrow> bool \<Rightarrow> binop \<Rightarrow> val \<Rightarrow> val \<Rightarrow> (val \<times> warning list) option" where
  "apply_op regcomp quiet x a b =
     (case x of
        TOK_OR \<Rightarrow> silent (op_or a b) | TOK_AND \<Rightarrow> silent (op_and a b)
      | TOK_EQ \<Rightarrow> silent (op_eq a b) | TOK_GT \<Rightarrow> silent (op_gt a b) | TOK_LT \<Rightarrow> silent (op_lt a b)
      | TOK_GE \<Rightarrow> silent (op_ge a b) | TOK_LE \<Rightarrow> silent (op_le a b) | TOK_NE \<Rightarrow> silent (op_ne a b)
      | TOK_PLUS \<Rightarrow> op_plus quiet a b | TOK_MINUS \<Rightarrow> op_minus quiet a b
      | TOK_MULT \<Rightarrow> op_times quiet a b | TOK_DIV \<Rightarrow> op_div quiet a b | TOK_MOD \<Rightarrow> op_rem quiet a b
      | TOK_COLON \<Rightarrow> silent (op_colon regcomp a b) | TOK_EQTILDE \<Rightarrow> silent (op_eqtilde regcomp a b))"

primrec eval :: "(string \<Rightarrow> regex option) \<Rightarrow> bool \<Rightarrow> expr \<Rightarrow> (val \<times> warning list) option" where
  "eval regcomp quiet (TOKEN v) = Some (v, [])"
| "eval regcomp quiet (Paren e) = eval regcomp quiet e"
| "eval regcomp quiet (Bin e x f) = do {
     (a, w1) \<leftarrow> eval regcomp quiet e;
     (b, w2) \<leftarrow> eval regcomp quiet f;
     (r, w) \<leftarrow> apply_op regcomp quiet x a b;
     Some (r, w1 @ w2 @ w)
   }"
| "eval regcomp quiet (Negate e) = do {
     (a, w1) \<leftarrow> eval regcomp quiet e;
     (r, w) \<leftarrow> op_negate quiet a;
     Some (r, w1 @ w)
   }"
| "eval regcomp quiet (Compl e) = do { (a, w) \<leftarrow> eval regcomp quiet e; Some (op_compl a, w) }"
| "eval regcomp quiet (Cond e f g) = do {
     (a, w1) \<leftarrow> eval regcomp quiet e;
     (b, w2) \<leftarrow> eval regcomp quiet f;
     (c, w3) \<leftarrow> eval regcomp quiet g;
     r \<leftarrow> op_cond a b c;
     Some (r, w1 @ w2 @ w3)
   }"

text \<open>What the parser finds: a syntax error, no expression at all, or a tree.\<close>

datatype parsed = Syntax_error | Nothing | Tree expr

definition start :: "(string \<Rightarrow> regex option) \<Rightarrow> bool \<Rightarrow> parsed \<Rightarrow> val option option" where
  "start regcomp quiet p =
     (case p of
        Syntax_error \<Rightarrow> Some None
      | Nothing \<Rightarrow> Some (Some (EStr []))
      | Tree e \<Rightarrow> map_option (\<lambda>(v, _). Some v) (eval regcomp quiet e))"

text \<open>The result: the text in the buffer of \<open>len\<close> bytes and the length reported.\<close>

definition cw_expr ::
    "(string \<Rightarrow> parsed) \<Rightarrow> (string \<Rightarrow> regex option) \<Rightarrow> bool \<Rightarrow> string \<Rightarrow> nat \<Rightarrow> (string \<times> nat) option" where
  "cw_expr parse regcomp quiet ex len = do {
     v \<leftarrow> start regcomp quiet (parse ex);
     case v of
       None \<Rightarrow> Some (if len > 1 then (''0'', 1) else ([], 0))
     | Some (EInt i) \<Rightarrow>
         (let t = dec (sint i) in
          Some (take (len - 1) t, if length t \<le> len then length t else len))
     | Some v \<Rightarrow>
         do { s \<leftarrow> u_s v; if len = 0 then None else Some (cw_copy_string s len, length (cw_copy_string s len)) }
   }"

section \<open>Words and the integers they stand for\<close>

definition fits :: "int \<Rightarrow> bool" where
  "fits x \<longleftrightarrow> QUAD_MIN \<le> x \<and> x \<le> QUAD_MAX"

lemma quad_range: "- 9223372036854775808 \<le> sint (q :: quad)" "sint (q :: quad) \<le> 9223372036854775807"
  using sint_ge [of q] sint_lt [of q] by simp_all

lemma fits_range: "fits x \<longleftrightarrow> - 9223372036854775808 \<le> x \<and> x \<le> 9223372036854775807"
  by (simp add: fits_def QUAD_MIN_def QUAD_MAX_def)

lemma fits_sint [simp]: "fits (sint (q :: quad))"
  using quad_range [of q] by (simp add: fits_range)

lemma sint_quad: "sint (word_of_int x :: quad) = (x + 9223372036854775808) mod 18446744073709551616 - 9223372036854775808"
  by (simp add: int_word_sint)

lemma sint_zero_iff [simp]: "sint (q :: quad) = 0 \<longleftrightarrow> q = 0"
  by (auto intro: signed_word_eqI)

lemma sint_wrap: "\<exists>k. sint (word_of_int x :: quad) = x + k * 18446744073709551616"
  by (rule exI [of _ "- ((x + 9223372036854775808) div 18446744073709551616)"])
    (simp add: sint_quad minus_div_mult_eq_mod [symmetric])

lemma sint_fits: "fits x \<Longrightarrow> sint (word_of_int x :: quad) = x"
  by (simp add: fits_range sint_quad)

lemma sint_fits_iff: "sint (word_of_int x :: quad) = x \<longleftrightarrow> fits x"
  using sint_fits fits_sint by metis

lemma quad_arith:
  "(i :: quad) + j = word_of_int (sint i + sint j)" "i - j = word_of_int (sint i - sint j)"
  "i * j = word_of_int (sint i * sint j)" "- i = word_of_int (- sint i)"
  by simp_all

lemmas quad_less = word_sless_alt word_sle_eq

lemma chk_plus_overflow: "chk_plus i j (i + j) \<longleftrightarrow> \<not> fits (sint i + sint j)"
proof -
  define a b r where "a = sint i" and "b = sint j" and "r = sint (i + j)"
  obtain k where k: "r = a + b + k * 18446744073709551616"
    unfolding r_def a_def b_def quad_arith(1) using sint_wrap by blast
  have "- 9223372036854775808 \<le> r" "r \<le> 9223372036854775807" "- 9223372036854775808 \<le> a" "a \<le> 9223372036854775807"
      "- 9223372036854775808 \<le> b" "b \<le> 9223372036854775807"
    unfolding a_def b_def r_def by (rule quad_range)+
  moreover have "chk_plus i j (i + j) \<longleftrightarrow> 0 < a \<and> 0 < b \<and> r \<le> 0 \<or> a < 0 \<and> b < 0 \<and> 0 \<le> r"
    by (simp add: chk_plus_def quad_less a_def b_def r_def)
  moreover have "k \<le> - 1 \<or> k = 0 \<or> 1 \<le> k" by linarith
  ultimately show ?thesis using k unfolding fits_range a_def [symmetric] b_def [symmetric]
    by (elim disjE) auto
qed

lemma chk_minus_overflow: "chk_minus i j (i - j) \<longleftrightarrow> \<not> fits (sint i - sint j)"
proof (cases "sint j = QUAD_MIN")
  case True
  then show ?thesis using quad_range [of i] by (auto simp: chk_minus_def fits_range QUAD_MIN_def quad_less)
next
  case False
  have "fits (- sint j)" using False quad_range [of j] by (auto simp: fits_range QUAD_MIN_def)
  then have "sint (- j) = - sint j" by (simp only: quad_arith(4) sint_fits)
  then show ?thesis using False chk_plus_overflow [of i "- j"] by (simp add: chk_minus_def)
qed

lemma sdiv_remainder: "b \<noteq> 0 \<Longrightarrow> \<bar>a - b * (a sdiv b)\<bar> < \<bar>b :: int\<bar>"
  by (simp add: minus_mult_sdiv_eq_smod signed_modulo_int_def abs_mult abs_sgn_eq)

lemma sdiv_times: "a \<noteq> 0 \<Longrightarrow> (a * b) sdiv a = (b :: int)"
  by (simp add: signed_divide_int_def sgn_if abs_mult mult_less_0_iff zero_less_mult_iff)

lemma abs_sdiv: "\<bar>a sdiv b\<bar> \<le> \<bar>a :: int\<bar> div \<bar>b\<bar>"
  by (simp add: signed_divide_int_def abs_mult abs_sgn_eq pos_imp_zdiv_nonneg_iff)

lemma sdiv_fits: "fits a \<Longrightarrow> b \<noteq> 0 \<Longrightarrow> \<not> (a = QUAD_MIN \<and> b = - 1) \<Longrightarrow> fits (a sdiv b)"
proof (cases "\<bar>b\<bar> = 1")
  case True
  assume "fits a" "b \<noteq> 0" "\<not> (a = QUAD_MIN \<and> b = - 1)"
  then show ?thesis using True by (cases "b = 1") (auto simp: fits_range QUAD_MIN_def abs_if split: if_splits)
next
  case False
  assume a: "fits a" and b: "b \<noteq> 0"
  have "\<bar>a\<bar> div \<bar>b\<bar> \<le> \<bar>a\<bar> div 2" using False b by (intro zdiv_mono2) auto
  with a abs_sdiv [of a b] show ?thesis unfolding fits_range by linarith
qed

lemma chk_times_overflow:
  assumes "\<not> (sint i = - 1 \<and> sint j = QUAD_MIN)"
  shows "chk_times i j (i * j) = Some (\<not> fits (sint i * sint j))"
proof (cases "i = 0")
  case False
  define a b r where "a = sint i" and "b = sint j" and "r = sint (i * j)"
  have a0: "a \<noteq> 0" using False by (simp add: a_def)
  have r: "r = sint (word_of_int (a * b) :: quad)" unfolding r_def a_def b_def by (simp only: quad_arith(3))
  obtain k where k: "r = a * b + k * 18446744073709551616" unfolding r using sint_wrap by blast
  have trap: "\<not> (r = QUAD_MIN \<and> a = - 1)"
  proof
    assume t: "r = QUAD_MIN \<and> a = - 1"
    then have b: "b \<noteq> QUAD_MIN" using assms by (simp add: a_def b_def)
    have "fits (- b)" using b quad_range [of j] by (simp add: fits_range QUAD_MIN_def b_def)
    then have "r = - b" using t unfolding r by (simp only: sint_fits mult_minus1)
    then show False using t quad_range [of j] by (simp add: QUAD_MIN_def b_def)
  qed
  have q: "sint (word_of_int (r sdiv a) :: quad) = r sdiv a"
    by (rule sint_fits, rule sdiv_fits [OF _ a0 trap]) (simp add: r_def)
  have "word_of_int (r sdiv a) = j \<longleftrightarrow> r sdiv a = b"
    using q signed_word_eqI [of "word_of_int (r sdiv a)" j] unfolding b_def by auto
  moreover have "r sdiv a = b \<longleftrightarrow> k = 0"
  proof
    assume "r sdiv a = b"
    then have "\<bar>k * 18446744073709551616\<bar> < \<bar>a\<bar>" using sdiv_remainder [OF a0, of r] k by simp
    moreover have "\<bar>a\<bar> \<le> 9223372036854775808" using quad_range [of i] by (simp add: a_def abs_if)
    ultimately show "k = 0" by linarith
  qed (use k sdiv_times [OF a0] in simp)
  moreover have "k = 0 \<longleftrightarrow> fits (a * b)"
    using k sint_fits_iff [of "a * b"] unfolding r [symmetric] by simp
  ultimately show ?thesis using False trap
    by (simp add: chk_times_def quad_div_def a_def [symmetric] b_def [symmetric] r_def [symmetric])
qed (simp add: chk_times_def fits_range)

lemma chk_times_trap: "sint i = - 1 \<Longrightarrow> sint j = QUAD_MIN \<Longrightarrow> chk_times i j (i * j) = None"
proof -
  assume a: "sint i = - 1" "sint j = QUAD_MIN"
  then have "sint (i * j) = QUAD_MIN" unfolding quad_arith(3) by (simp add: sint_quad QUAD_MIN_def)
  moreover have "i \<noteq> 0" using a(1) by auto
  ultimately show ?thesis using a by (simp add: chk_times_def quad_div_def)
qed

lemma op_plus_int: "op_plus quiet (EInt i) (EInt j) =
    Some (EInt (word_of_int (sint i + sint j)), overflow (\<not> fits (sint i + sint j)))"
  using chk_plus_overflow [of i j] by (simp add: op_plus_def to_integer_def u_i_def)

lemma op_minus_int: "op_minus quiet (EInt i) (EInt j) =
    Some (EInt (word_of_int (sint i - sint j)), overflow (\<not> fits (sint i - sint j)))"
  using chk_minus_overflow [of i j] by (simp add: op_minus_def to_integer_def u_i_def)

lemma op_negate_int: "op_negate quiet (EInt i) = Some (EInt (word_of_int (- sint i)), overflow (\<not> fits (- sint i)))"
  using chk_minus_overflow [of 0 i] by (simp add: op_negate_def to_integer_def u_i_def)

lemma op_times_int: "op_times quiet (EInt i) (EInt j) =
    (if sint i = - 1 \<and> sint j = QUAD_MIN then None
     else Some (EInt (word_of_int (sint i * sint j)), overflow (\<not> fits (sint i * sint j))))"
  using chk_times_overflow [of i j] chk_times_trap [of i j]
  by (cases "sint i = - 1 \<and> sint j = QUAD_MIN") (simp_all add: op_times_def to_integer_def u_i_def)

lemma op_div_int: "op_div quiet (EInt i) (EInt j) =
    (if j = 0 then Some (EInt INT_MAX, [Div_by_zero])
     else if sint i = QUAD_MIN \<and> sint j = - 1 then None
     else Some (EInt (word_of_int (sint i sdiv sint j)), []))"
  by (auto simp: op_div_def to_integer_def u_i_def quad_div_def chk_div_def overflow_def)

lemma op_rem_int: "op_rem quiet (EInt i) (EInt j) =
    (if j = 0 then Some (EInt 0, [Div_by_zero])
     else if sint i = QUAD_MIN \<and> sint j = - 1 then None
     else Some (EInt (word_of_int (sint i smod sint j)), []))"
  by (auto simp: op_rem_def to_integer_def u_i_def quad_rem_def)

lemmas op_ints = op_plus_int op_minus_int op_negate_int op_times_int op_div_int op_rem_int

section \<open>Numbers in range\<close>

text \<open>A value no operator can stumble over: a number not converted yet is in range.\<close>

definition good :: "val \<Rightarrow> bool" where
  "good v \<longleftrightarrow> (case v of ENum None \<Rightarrow> False | ENum (Some s) \<Rightarrow> s \<noteq> [] \<and> fits (atoi s) | _ \<Rightarrow> True)"

lemma good_cases:
  assumes "good v"
  obtains (int) i where "v = EInt i" | (num) s where "v = ENum (Some s)" "s \<noteq> []" "fits (atoi s)"
    | (str) s where "v = EStr s"
  using assms by (cases v) (auto simp: good_def split: option.splits)

lemma good_simps [simp]: "good (EInt i)" "good (EStr s)" "\<not> good (ENum None)"
  by (simp_all add: good_def)

text \<open>The number an operator sees in a value, if it sees one.\<close>

definition number :: "val \<Rightarrow> quad option" where
  "number v = (case v of EInt i \<Rightarrow> Some i | ENum (Some s) \<Rightarrow> Some (word_of_int (atoi s)) | _ \<Rightarrow> None)"

lemma to_integer_good: "good v \<Longrightarrow>
    to_integer v = Some (case number v of None \<Rightarrow> (False, v) | Some i \<Rightarrow> (True, EInt i))"
  by (erule good_cases) (auto simp: to_integer_def number_def fits_def)

lemma number_str: "good v \<Longrightarrow> number v = None \<longleftrightarrow> isstring v"
  by (erule good_cases) (simp_all add: number_def isstring_def)

lemma to_integer_number: "good v \<Longrightarrow> number v = Some i \<Longrightarrow> to_integer v = Some (True, EInt i)"
  by (simp add: to_integer_good)

lemma to_integer_str: "good v \<Longrightarrow> number v = None \<Longrightarrow> to_integer v = Some (False, v)"
  by (simp add: to_integer_good)

lemmas arith_defs = op_plus_def op_minus_def op_negate_def op_times_def op_div_def op_rem_def

lemma arith_number:
  assumes "good a" "number a = Some i" "good b" "number b = Some j"
  shows "op_plus quiet a b = op_plus quiet (EInt i) (EInt j)" "op_minus quiet a b = op_minus quiet (EInt i) (EInt j)"
    "op_negate quiet a = op_negate quiet (EInt i)" "op_times quiet a b = op_times quiet (EInt i) (EInt j)"
    "op_div quiet a b = op_div quiet (EInt i) (EInt j)" "op_rem quiet a b = op_rem quiet (EInt i) (EInt j)"
  using assms by (simp_all add: arith_defs to_integer_number to_integer_number [of "EInt i"] number_def)

definition returns :: "(val \<times> warning list) option \<Rightarrow> bool" where
  "returns m \<longleftrightarrow> (\<exists>r w. m = Some (r, w) \<and> good r)"

lemma returns_Some [simp]: "returns (Some (r, w)) \<longleftrightarrow> good r"
  by (simp add: returns_def)

lemma arith_str_left:
  assumes "good a" "number a = None" "good b"
  shows "returns (op_plus quiet a b)" "returns (op_minus quiet a b)"
    "returns (op_negate quiet a)" "returns (op_times quiet a b)"
    "returns (op_div quiet a b)" "returns (op_rem quiet a b)"
  using assms by (cases "number b"; simp add: arith_defs to_integer_number to_integer_str u_i_def)+

lemma arith_str_right:
  assumes "good a" "number a = Some i" "good b" "number b = None"
  shows "returns (op_plus quiet a b)" "returns (op_minus quiet a b)"
    "returns (op_times quiet a b)"
    "returns (op_div quiet a b)" "returns (op_rem quiet a b)"
  using assms by (simp_all add: arith_defs to_integer_number to_integer_str)

lemma is_zero_or_null_good:
  assumes "good v"
  obtains z u where "is_zero_or_null v = Some (z, u)" "good u"
  using assms
proof (cases rule: good_cases)
  case (num s)
  have n: "number v = Some (word_of_int (atoi s))" using num by (simp add: number_def)
  show ?thesis
    using that [of "word_of_int (atoi s) = (0 :: quad)" "EInt (word_of_int (atoi s))"] to_integer_number [OF assms n] num
    by (simp add: is_zero_or_null_def u_s_def u_i_def)
next
  case (str s)
  then show ?thesis using that [of "s = []" v]
    by (simp add: is_zero_or_null_def u_s_def to_integer_def)
qed (use that in \<open>simp add: is_zero_or_null_def\<close>)

lemma op_or_good: "good a \<Longrightarrow> good b \<Longrightarrow> \<exists>r. op_or a b = Some r \<and> good r"
  by (rule is_zero_or_null_good [of a]) (simp_all add: op_or_def)

lemma op_and_good: "good a \<Longrightarrow> good b \<Longrightarrow> \<exists>r. op_and a b = Some r \<and> good r"
  by (rule is_zero_or_null_good [of a], assumption, rule is_zero_or_null_good [of b]) (simp_all add: op_and_def)

text \<open>A comparison of good values compares either their texts or their numbers.\<close>

lemma op_rel_good:
  assumes "good a" "good b"
  obtains (texts) s t where "\<And>p q. op_rel p q a b = Some (EInt (of_bool (p (strcmp s t))))"
      "\<And>p q. op_rel p q b a = Some (EInt (of_bool (p (strcmp t s))))"
  | (numbers) i j where "\<And>p q. op_rel p q a b = Some (EInt (of_bool (q i j)))"
      "\<And>p q. op_rel p q b a = Some (EInt (of_bool (q j i)))"
proof (cases "isstring a \<or> isstring b")
  case True
  have "\<exists>s. u_s (to_string v) = Some s" if "good v" for v
    using that by (cases rule: good_cases) (simp_all add: u_s_def to_string_def)
  with assms obtain s t where "u_s (to_string a) = Some s" "u_s (to_string b) = Some t" by blast
  with True show ?thesis by (intro texts) (auto simp: op_rel_def)
next
  case False
  with assms obtain i j where "number a = Some i" "number b = Some j" by (metis number_str not_None_eq)
  with False assms show ?thesis by (intro numbers) (simp_all add: op_rel_def to_integer_number u_i_def)
qed

lemma op_cond_good: "good a \<Longrightarrow> good b \<Longrightarrow> good c \<Longrightarrow> \<exists>r. op_cond a b c = Some r \<and> good r"
proof -
  assume g: "good a" "good b" "good c"
  show ?thesis
  proof (cases "number a")
    case None
    with g(1) have "isstring a" by (simp add: number_str)
    then show ?thesis using g by (auto simp: op_cond_def isstring_def split: val.splits)
  next
    case (Some i)
    then have "op_cond a b c = Some (if i \<noteq> 0 then b else c)"
      using g(1) to_integer_number [OF g(1) Some] by (cases a) (auto simp: op_cond_def u_i_def number_def)
    then show ?thesis using g by simp
  qed
qed

lemma good_compl: "good (op_compl a)"
  by (simp add: op_compl_def split: val.splits)

section \<open>Expressions that cannot fail\<close>

text \<open>
  All numbers are in range, no regular expression is used, the left factor of a product and
  the divisor of a quotient or remainder are tokens other than \<open>-1\<close>.
\<close>

definition literal :: "expr \<Rightarrow> bool" where
  "literal e \<longleftrightarrow> (case e of TOKEN v \<Rightarrow> number v \<noteq> Some (- 1) | _ \<Rightarrow> False)"

definition safe_op :: "expr \<Rightarrow> binop \<Rightarrow> expr \<Rightarrow> bool" where
  "safe_op e x f \<longleftrightarrow>
     (case x of
        TOK_MULT \<Rightarrow> literal e
      | TOK_DIV \<Rightarrow> literal f
      | TOK_MOD \<Rightarrow> literal f
      | TOK_COLON \<Rightarrow> False
      | TOK_EQTILDE \<Rightarrow> False
      | _ \<Rightarrow> True)"

primrec safe :: "expr \<Rightarrow> bool" where
  "safe (TOKEN v) \<longleftrightarrow> good v"
| "safe (Paren e) \<longleftrightarrow> safe e"
| "safe (Bin e x f) \<longleftrightarrow> safe e \<and> safe f \<and> safe_op e x f"
| "safe (Negate e) \<longleftrightarrow> safe e"
| "safe (Compl e) \<longleftrightarrow> safe e"
| "safe (Cond e f g) \<longleftrightarrow> safe e \<and> safe f \<and> safe g"

lemma sint_minus_one: "sint (i :: quad) = - 1 \<longleftrightarrow> i = - 1"
proof
  assume "sint i = - 1"
  then have "sint i = sint (- 1 :: quad)" by simp
  then show "i = - 1" by (rule signed_word_eqI)
qed simp

lemma op_negate_good: "good a \<Longrightarrow> returns (op_negate quiet a)"
  by (cases "number a") (simp_all add: op_negate_def to_integer_str to_integer_number u_i_def Let_def)

lemma arith_good:
  assumes "good a" "good b"
  shows "returns (op_plus quiet a b)" "returns (op_minus quiet a b)"
    "number a \<noteq> Some (- 1) \<Longrightarrow> returns (op_times quiet a b)"
    "number b \<noteq> Some (- 1) \<Longrightarrow> returns (op_div quiet a b)"
    "number b \<noteq> Some (- 1) \<Longrightarrow> returns (op_rem quiet a b)"
proof -
  consider (left) "number a = None" | (right) i where "number a = Some i" "number b = None"
    | (both) i j where "number a = Some i" "number b = Some j" by fastforce
  note cs = this
  show "returns (op_plus quiet a b)"
    using assms by (cases rule: cs) (simp_all add: arith_str_left arith_str_right arith_number op_ints)
  show "returns (op_minus quiet a b)"
    using assms by (cases rule: cs) (simp_all add: arith_str_left arith_str_right arith_number op_ints)
  show "returns (op_times quiet a b)" if "number a \<noteq> Some (- 1)"
    using assms that by (cases rule: cs) (simp_all add: arith_str_left arith_str_right arith_number op_ints sint_minus_one)
  show "returns (op_div quiet a b)" if "number b \<noteq> Some (- 1)"
    using assms that by (cases rule: cs) (simp_all add: arith_str_left arith_str_right arith_number op_ints sint_minus_one)
  show "returns (op_rem quiet a b)" if "number b \<noteq> Some (- 1)"
    using assms that by (cases rule: cs) (simp_all add: arith_str_left arith_str_right arith_number op_ints sint_minus_one)
qed

lemmas rel_defs = op_eq_def op_gt_def op_lt_def op_ge_def op_le_def op_ne_def

lemma op_rel_returns: "good a \<Longrightarrow> good b \<Longrightarrow> \<exists>r. op_rel p q a b = Some r \<and> good r"
  by (rule op_rel_good [of a b]) auto

lemma silent_good: "\<exists>r. m = Some r \<and> good r \<Longrightarrow> returns (silent m)"
  by (auto simp: silent_def)

lemma apply_op_good:
  assumes "good a" "good b" "x = TOK_MULT \<Longrightarrow> number a \<noteq> Some (- 1)"
    and "x \<in> {TOK_DIV, TOK_MOD} \<Longrightarrow> number b \<noteq> Some (- 1)" "x \<notin> {TOK_COLON, TOK_EQTILDE}"
  shows "returns (apply_op regcomp quiet x a b)"
  using assms(3-5) unfolding apply_op_def
  by (cases x) (simp_all add: rel_defs silent_good op_rel_returns op_or_good op_and_good arith_good assms(1,2))

lemma safe_returns: "safe e \<Longrightarrow> \<exists>v w. eval regcomp quiet e = Some (v, w) \<and> good v"
proof (induction e)
  case (Bin e x f)
  then obtain a w1 b w2 where ab: "eval regcomp quiet e = Some (a, w1)" "good a" "eval regcomp quiet f = Some (b, w2)" "good b"
    by auto
  have "a = v" if "e = TOKEN v" for v using ab(1) that by simp
  moreover have "b = v" if "f = TOKEN v" for v using ab(3) that by simp
  ultimately have "returns (apply_op regcomp quiet x a b)"
    using Bin.prems ab(2,4)
    by (intro apply_op_good) (auto simp: safe_op_def literal_def split: expr.splits)
  then show ?case using ab by (auto simp: returns_def)
next
  case (Negate e)
  then obtain a w1 where a: "eval regcomp quiet e = Some (a, w1)" "good a" by auto
  then show ?case using op_negate_good [OF a(2), of quiet] by (auto simp: returns_def)
next
  case (Cond e f g)
  then obtain a w1 b w2 c w3 where "eval regcomp quiet e = Some (a, w1)" "good a" "eval regcomp quiet f = Some (b, w2)" "good b"
      "eval regcomp quiet g = Some (c, w3)" "good c" by auto
  then show ?case using op_cond_good [of a b c] by auto
qed (auto simp: good_compl)

section \<open>Theorems\<close>

text \<open>
  C21. Integer arithmetic of expressions: a sum, difference, negation or product is the exact one
  reduced to 64 bits, and an overflow is reported exactly when the exact result is out of range.
  Quotient and remainder truncate towards zero and division by zero gives a fixed value.  The
  process dies in exactly three cases: the product of \<open>-1\<close> and the least number, whose check for
  overflow divides, and the quotient and remainder of the least number by \<open>-1\<close>.
\<close>

theorem arithmetic_exact:
  "op_plus quiet (EInt i) (EInt j) =
     Some (EInt (word_of_int (sint i + sint j)), overflow (\<not> fits (sint i + sint j))) \<and>
   op_minus quiet (EInt i) (EInt j) =
     Some (EInt (word_of_int (sint i - sint j)), overflow (\<not> fits (sint i - sint j))) \<and>
   op_negate quiet (EInt i) = Some (EInt (word_of_int (- sint i)), overflow (\<not> fits (- sint i))) \<and>
   op_times quiet (EInt i) (EInt j) =
     (if sint i = - 1 \<and> sint j = QUAD_MIN then None
      else Some (EInt (word_of_int (sint i * sint j)), overflow (\<not> fits (sint i * sint j)))) \<and>
   op_div quiet (EInt i) (EInt j) =
     (if j = 0 then Some (EInt INT_MAX, [Div_by_zero])
      else if sint i = QUAD_MIN \<and> sint j = - 1 then None
      else Some (EInt (word_of_int (sint i sdiv sint j)), [])) \<and>
   op_rem quiet (EInt i) (EInt j) =
     (if j = 0 then Some (EInt 0, [Div_by_zero])
      else if sint i = QUAD_MIN \<and> sint j = - 1 then None
      else Some (EInt (word_of_int (sint i smod sint j)), []))"
  by (intro conjI op_ints)

text \<open>
  C22. Expressions whose numbers are in range, without regular expressions and with products and
  quotients by literals other than \<open>-1\<close>, always yield a result: neither a null pointer nor a
  trapping division is met, and the text fits in the buffer of the caller.
\<close>

theorem safe_expression_returns:
  assumes "parse s = Tree e" "safe e" "0 < len"
  shows "\<exists>t n. cw_expr parse regcomp quiet s len = Some (t, n) \<and> length t < len \<and> length t \<le> n \<and> n \<le> len"
proof -
  obtain v w where v: "eval regcomp quiet e = Some (v, w)" "good v" using safe_returns [OF assms(2)] by blast
  then show ?thesis using assms(1,3)
    by (cases v) (auto simp: cw_expr_def start_def u_s_def Let_def cw_copy_string_def good_def split: option.splits)
qed

theorem safe_expression_returns_witness:
  "\<exists>t n. cw_expr (\<lambda>s. if s = ''1 + 2'' then Tree (Bin (TOKEN (ENum (Some ''1''))) TOK_PLUS (TOKEN (ENum (Some ''2''))))
        else Syntax_error) (\<lambda>_. None) False ''1 + 2'' 10 = Some (t, n) \<and> length t < 10 \<and> length t \<le> n \<and> n \<le> 10"
proof (rule safe_expression_returns)
  have "atoi ''1'' = 1" "atoi ''2'' = 2" by code_simp+
  then show "safe (Bin (TOKEN (ENum (Some ''1''))) TOK_PLUS (TOKEN (ENum (Some ''2''))))"
    by (simp add: good_def safe_op_def fits_range)
qed simp_all

text \<open>
  A number out of range is not refused: compared with zero it is equal to zero, and used on
  the left of \<open>|\<close> it leaves a null pointer which kills the process when the result is copied.
\<close>

theorem huge_number_is_zero:
  assumes "s \<noteq> []" "\<not> fits (atoi s)" "parse t = Tree (Bin (TOKEN (ENum (Some s))) TOK_OR (TOKEN b))"
  shows "op_eq (ENum (Some s)) (EInt 0) = Some (EInt 1) \<and> cw_expr parse regcomp quiet t len = None"
  using assms by (auto simp: op_eq_def op_rel_def isstring_def to_integer_def u_i_def u_s_def fits_def
      cw_expr_def start_def apply_op_def silent_def op_or_def is_zero_or_null_def)

theorem huge_number_is_zero_witness:
  "op_eq (ENum (Some ''9223372036854775808'')) (EInt 0) = Some (EInt 1) \<and>
   cw_expr (\<lambda>_. Tree (Bin (TOKEN (ENum (Some ''9223372036854775808''))) TOK_OR (TOKEN (EStr ''x''))))
     (\<lambda>_. None) False ''9223372036854775808 | x'' 80 = None"
proof (rule huge_number_is_zero)
  have "atoi ''9223372036854775808'' = 9223372036854775808" by code_simp
  then show "\<not> fits (atoi ''9223372036854775808'')" by (simp add: fits_range)
qed simp_all

text \<open>
  The six comparisons are consistent: of values whose numbers are in range exactly one of
  less, equal and greater holds, the other three are their negations, and exchanging the
  operands exchanges less and greater.
\<close>

theorem comparisons_consistent:
  assumes "good a" "good b"
  shows "\<exists>l g. \<not> (l \<and> g) \<and> op_lt a b = Some (EInt (of_bool l)) \<and> op_gt a b = Some (EInt (of_bool g)) \<and>
    op_eq a b = Some (EInt (of_bool (\<not> l \<and> \<not> g))) \<and> op_ne a b = Some (EInt (of_bool (l \<or> g))) \<and>
    op_ge a b = Some (EInt (of_bool (\<not> l))) \<and> op_le a b = Some (EInt (of_bool (\<not> g))) \<and>
    op_lt b a = Some (EInt (of_bool g)) \<and> op_gt b a = Some (EInt (of_bool l))"
  using assms
proof (cases rule: op_rel_good)
  case (texts s t)
  define c d where "c = strcmp s t" and "d = strcmp t s"
  have "0 < d \<longleftrightarrow> c < 0" "d < 0 \<longleftrightarrow> 0 < c" by (simp_all add: strcmp_less strcmp_greater c_def d_def)
  moreover have "c = 0 \<longleftrightarrow> \<not> c < 0 \<and> \<not> 0 < c" "0 \<le> c \<longleftrightarrow> \<not> c < 0" "c \<le> 0 \<longleftrightarrow> \<not> 0 < c" "\<not> (c < 0 \<and> 0 < c)"
    by linarith+
  ultimately show ?thesis unfolding rel_defs texts c_def [symmetric] d_def [symmetric]
    by (intro exI [of _ "c < 0"] exI [of _ "0 < c"]) (simp only: simp_thms de_Morgan_conj not_not)
next
  case (numbers i j)
  have "i = j \<longleftrightarrow> \<not> i <s j \<and> \<not> j <s i" using signed_word_eqI [of i j] unfolding quad_less by force
  moreover have "j \<le>s i \<longleftrightarrow> \<not> i <s j" "i \<le>s j \<longleftrightarrow> \<not> j <s i" "\<not> (i <s j \<and> j <s i)" unfolding quad_less by linarith+
  ultimately show ?thesis unfolding rel_defs numbers
    by (intro exI [of _ "i <s j"] exI [of _ "j <s i"]) simp
qed

theorem comparisons_consistent_witness:
  "\<exists>l g. \<not> (l \<and> g) \<and> op_lt (EStr ''a'') (EInt 7) = Some (EInt (of_bool l)) \<and>
    op_gt (EStr ''a'') (EInt 7) = Some (EInt (of_bool g)) \<and>
    op_eq (EStr ''a'') (EInt 7) = Some (EInt (of_bool (\<not> l \<and> \<not> g))) \<and>
    op_ne (EStr ''a'') (EInt 7) = Some (EInt (of_bool (l \<or> g))) \<and>
    op_ge (EStr ''a'') (EInt 7) = Some (EInt (of_bool (\<not> l))) \<and>
    op_le (EStr ''a'') (EInt 7) = Some (EInt (of_bool (\<not> g))) \<and>
    op_lt (EInt 7) (EStr ''a'') = Some (EInt (of_bool g)) \<and> op_gt (EInt 7) (EStr ''a'') = Some (EInt (of_bool l))"
  by (rule comparisons_consistent) simp_all

end
