(* ===== verification/Pbx_Subst.thy ===== *)
theory Pbx_Subst
  imports Pbx_Retrieve CW_Expr
begin

text \<open>
  Substitution of variables, functions and expressions in the text of the dialplan:
  \<open>pbx_substitute_variables_helper_full\<close> of \<open>corelib/pbx.c\<close> and the routines around it.

  The loop of the source is \<open>subst_loop\<close>: \<open>room\<close>, the \<open>count\<close> of the source, is the room left in the output, the second
  argument the text from \<open>whereweare\<close> on.  Every round passes at least the dollar sign, so the
  recursion, also the one for nested names, ends on the length of the text.  \<open>None\<close> means that a
  buffer of the routine is left: a name that does not fit in the \<open>VAR_BUF_SIZE\<close> bytes allocated
  for it, a text that ends with the opening bracket, a write into a string literal, or one of
  the cases of the routines called.
\<close>

section \<open>The routines of the source\<close>

definition VAR_BUF_SIZE :: nat where "VAR_BUF_SIZE = 4096"

type_synonym reader = "chan_info option \<Rightarrow> string list \<Rightarrow> nat \<Rightarrow> string option"

record 'w sub_env =
  se_retrieve :: retrieve_env
  se_globals :: "cw_var_t list"
  se_chan :: "chan_info option"
  se_headp :: "cw_var_t list"
  se_lock_ok :: bool
  se_funcs :: "(reader, 'w) cw_func list"
  se_parse :: "string \<Rightarrow> parsed"
  se_regcomp :: "string \<Rightarrow> regex option"
  se_quiet :: bool

text \<open>The end of a variable: what is passed including the closing bracket, what follows, whether
  something is to be substituted inside, and the number of brackets still open.\<close>

fun scan_var :: "nat \<Rightarrow> string \<Rightarrow> string \<times> string \<times> bool \<times> nat" where
  "scan_var 0 s = ([], s, False, 0)"
| "scan_var (Suc b) [] = ([], [], False, Suc b)"
| "scan_var (Suc b) (c # s) =
     (let (b', sub) =
            (if c = CHR ''$'' \<and> at0 s = CHR ''{'' then (Suc b, True)
             else if c = CHR ''{'' then (Suc (Suc b), False)
             else if c = CHR ''}'' then (b, False)
             else if c = CHR ''$'' \<and> at0 s = CHR ''['' then (Suc b, True)
             else (Suc b, False));
          (x, after, needsub, left) = scan_var b' s
      in (c # x, after, sub \<or> needsub, left))"

text \<open>The end of an expression; here the second character of an opening is passed as well.\<close>

fun scan_expr :: "nat \<Rightarrow> string \<Rightarrow> string \<times> string \<times> bool \<times> nat" where
  "scan_expr 0 s = ([], s, False, 0)"
| "scan_expr (Suc b) [] = ([], [], False, Suc b)"
| "scan_expr (Suc b) [c] =
     (let b' = (if c = CHR ''['' then Suc (Suc b) else if c = CHR '']'' then b else Suc b) in ([c], [], False, b'))"
| "scan_expr (Suc b) (c # d # s) =
     (if c = CHR ''$'' \<and> d = CHR ''[''
      then let (x, after, needsub, left) = scan_expr (Suc (Suc b)) s in (c # d # x, after, True, left)
      else if c = CHR ''$'' \<and> d = CHR ''{''
      then let (x, after, needsub, left) = scan_expr (Suc b) s in (c # d # x, after, True, left)
      else let b' = (if c = CHR ''['' then Suc (Suc b) else if c = CHR '']'' then b else Suc b);
               (x, after, needsub, left) = scan_expr b' (d # s)
           in (c # x, after, needsub, left))"

text \<open>\<open>sscanf(cp4, "):%d:%d", &pos, &length)\<close> on the text behind the parenthesis.\<close>

definition scan_slice :: "string \<Rightarrow> int \<times> int" where
  "scan_slice post =
     (let dflt = int VAR_BUF_SIZE in
      if at0 post \<noteq> CHR '':'' then (0, dflt)
      else case scan_int (tl post) of
        None \<Rightarrow> (0, dflt)
      | Some (pos, r) \<Rightarrow>
          if at0 r \<noteq> CHR '':'' then (pos, dflt)
          else (case scan_int (tl r) of None \<Rightarrow> (pos, dflt) | Some (len, _) \<Rightarrow> (pos, len)))"

text \<open>The part of the result of a function; a literal cannot be cut.\<close>

definition cut_result :: "bool \<Rightarrow> string \<Rightarrow> int \<Rightarrow> int \<Rightarrow> string option" where
  "cut_result lit s pos len =
     (let n = int (length s);
          start = (if pos < 0 then max 0 (n + pos) else min pos n);
          t = drop (nat start) s
      in if start + len < n
         then if lit \<or> start + len < 0 then None else Some (if len < 0 then t else take (nat len) t)
         else Some t)"

text \<open>The value of a name: \<open>None\<close> for a null pointer.\<close>

definition eval_var :: "'w sub_env \<Rightarrow> string \<Rightarrow> string option option" where
  "eval_var env vars =
     (if CHR '')'' \<in> set vars
      then let f = before_last (CHR '')'') vars;
               (pos, len) = scan_slice (drop (length f + 1) vars)
           in case cw_func_read (se_lock_ok env) (se_funcs env) (se_chan env) (f @ '')'') VAR_BUF_SIZE of
                Null \<Rightarrow> Some None
              | Buffer s \<Rightarrow> map_option Some (cut_result False s pos len)
              | Literal s \<Rightarrow> map_option Some (cut_result True s pos len)
      else pbx_retrieve_variable (se_retrieve env) (se_globals env) (se_chan env) (se_headp env) vars VAR_BUF_SIZE)"

lemma scan_var_append: "scan_var b s = (x, r, n, e) \<Longrightarrow> x @ r = s"
proof (induction b s arbitrary: x r n e rule: scan_var.induct)
  case (3 b c s)
  define p where "p = (if c = CHR ''$'' \<and> at0 s = CHR ''{'' then (Suc b, True)
             else if c = CHR ''{'' then (Suc (Suc b), False)
             else if c = CHR ''}'' then (b, False)
             else if c = CHR ''$'' \<and> at0 s = CHR ''['' then (Suc b, True)
             else (Suc b, False))"
  obtain b' sub where p: "p = (b', sub)" by (cases p)
  obtain x' r' n' e' where i: "scan_var b' s = (x', r', n', e')" by (cases "scan_var b' s")
  have "x' @ r' = s" by (rule "3.IH" [OF _ _ i]) (use p p_def in auto)
  then show ?case using "3.prems" i p unfolding p_def by (auto simp: Let_def)
qed auto

lemma scan_expr_append: "scan_expr b s = (x, r, n, e) \<Longrightarrow> x @ r = s"
  by (induction b s arbitrary: x r n e rule: scan_expr.induct)
    (auto simp: Let_def split: if_splits prod.splits)

lemma next_shorter:
  assumes "dropWhile P w \<noteq> []"
  shows "length (drop 2 (dropWhile P w)) < length w" "length (tl (dropWhile P w)) < length w"
proof -
  have "length (dropWhile P w) \<le> length w" "0 < length (dropWhile P w)"
    using assms by (simp_all add: length_dropWhile_le)
  then show "length (drop 2 (dropWhile P w)) < length w" "length (tl (dropWhile P w)) < length w"
    unfolding length_drop length_tl by linarith+
qed

lemma split_shorter: "x @ after = drop 2 (dropWhile P w) \<Longrightarrow> dropWhile P w \<noteq> [] \<Longrightarrow> length x + length after < length w"
  using next_shorter(1) [of P w] by (metis length_append)

lemma var_shorter:
  "(x, after, n, e) = scan_var (Suc 0) (drop 2 (dropWhile (\<lambda>c. c \<noteq> CHR ''$'') w)) \<Longrightarrow> CHR ''$'' \<in> set w \<Longrightarrow>
    length x + length after < length w"
  by (rule split_shorter, rule scan_var_append, rule sym) auto

lemma expr_shorter:
  "(x, after, n, e) = scan_expr (Suc 0) (drop 2 (dropWhile (\<lambda>c. c \<noteq> CHR ''$'') w)) \<Longrightarrow> CHR ''$'' \<in> set w \<Longrightarrow>
    length x + length after < length w"
  by (rule split_shorter, rule scan_expr_append, rule sym) auto

function subst_loop :: "'w sub_env \<Rightarrow> nat \<Rightarrow> string \<Rightarrow> string option" where
  "subst_loop env room w =
     (if w = [] \<or> room = 0 then Some []
      else
        let pre = takeWhile (\<lambda>c. c \<noteq> CHR ''$'') w; next = dropWhile (\<lambda>c. c \<noteq> CHR ''$'') w;
            pos = min (length pre) room in
        if next = [] then Some (take room pre)
        else if at0 (tl next) = CHR ''{'' then
          let (x, after, needsub, left) = scan_var 1 (drop 2 next) in
          if x = [] \<or> VAR_BUF_SIZE < length x then None
          else do {
            vars \<leftarrow> (if needsub then subst_loop env (VAR_BUF_SIZE - 1) (butlast x) else Some (butlast x));
            cp4 \<leftarrow> eval_var env vars;
            let t = take (room - pos) (case cp4 of None \<Rightarrow> [] | Some v \<Rightarrow> v) in
            do { out \<leftarrow> subst_loop env (room - pos - length t) after; Some (take pos pre @ t @ out) }
          }
        else if at0 (tl next) = CHR ''['' then
          let (x, after, needsub, left) = scan_expr 1 (drop 2 next) in
          if x = [] \<or> VAR_BUF_SIZE < length x then None
          else do {
            vars \<leftarrow> (if needsub then subst_loop env (VAR_BUF_SIZE - 2) (butlast x) else Some (butlast x));
            (t, len) \<leftarrow> cw_expr (se_parse env) (se_regcomp env) (se_quiet env) vars (room - pos);
            out \<leftarrow> subst_loop env (room - pos - len) after;
            Some (take pos pre @ t @ out)
          }
        else
          let pos = min (length pre + 1) room in
          do { out \<leftarrow> subst_loop env (room - pos) (tl next); Some (take pos w @ out) })"
  by pat_completeness auto

termination
proof (relation "measure (\<lambda>(env, room, w). length w)", goal_cases)
  case 1
  show ?case by simp
next
  case (6 env room w)
  then show ?case using next_shorter(2) [of "\<lambda>c. c \<noteq> CHR ''$''" w] by simp
qed (force dest: var_shorter expr_shorter)+

declare subst_loop.simps [simp del]

text \<open>\<open>count\<close> includes the terminating zero and is at least 1.\<close>

definition pbx_substitute_variables_helper_full :: "'w sub_env \<Rightarrow> string \<Rightarrow> nat \<Rightarrow> string option" where
  "pbx_substitute_variables_helper_full env cp1 cnt = subst_loop env (cnt - 1) cp1"

definition pbx_substitute_variables_helper :: "'w sub_env \<Rightarrow> string \<Rightarrow> nat \<Rightarrow> string option" where
  "pbx_substitute_variables_helper env cp1 cnt =
     pbx_substitute_variables_helper_full (if se_chan env = None then env\<lparr>se_headp := []\<rparr> else env) cp1 cnt"

definition pbx_substitute_variables_varshead :: "'w sub_env \<Rightarrow> cw_var_t list \<Rightarrow> string \<Rightarrow> nat \<Rightarrow> string option" where
  "pbx_substitute_variables_varshead env headp cp1 cnt =
     pbx_substitute_variables_helper_full (env\<lparr>se_chan := None, se_headp := headp\<rparr>) cp1 cnt"

definition pbx_substitute_variables :: "'w sub_env \<Rightarrow> string \<Rightarrow> nat \<Rightarrow> string option" where
  "pbx_substitute_variables env d datalen =
     (if CHR ''$'' \<notin> set d then Some (cw_copy_string d datalen) else pbx_substitute_variables_helper env d datalen)"

text \<open>\<open>ImportVar(newvar=channel,variable)\<close>; finding a channel by name is the parameter
  \<open>get_chan\<close>.  A blank in front of the equals sign only makes the trimming run out of the text.\<close>

definition pbx_builtin_importvar ::
    "'w sub_env \<Rightarrow> (string \<Rightarrow> (chan_info \<times> cw_var_t list) option) \<Rightarrow> bool \<Rightarrow> ('r, 'c) func_table \<Rightarrow> string list \<Rightarrow>
     'c dialvars \<Rightarrow> (int \<times> 'c dialvars) option" where
  "pbx_builtin_importvar env get_chan lock_ok funcs argv s =
     (case argv of
        [arg, variable] \<Rightarrow>
          (case split_at (CHR ''='') arg of
             None \<Rightarrow> Some (0, s)
           | Some (newvar, chan) \<Rightarrow>
               if rtrim newvar = [] then None
               else do {
                 tmp \<leftarrow> (case get_chan (dropWhile isspace chan) of
                          None \<Rightarrow> Some []
                        | Some (c, vs) \<Rightarrow>
                            pbx_substitute_variables_helper (env\<lparr>se_chan := Some c, se_headp := vs\<rparr>)
                              (''${'' @ variable @ ''}'') VAR_BUF_SIZE);
                 Some (0, pbx_builtin_setvar_helper lock_ok funcs True (rtrim newvar) (Some tmp) s)
               })
      | _ \<Rightarrow> Some (0, s))"

section \<open>The rounds of the loop\<close>

lemma loop_done [simp]: "subst_loop env room [] = Some []" "subst_loop env 0 w = Some []"
  by (simp_all add: subst_loop.simps)

lemma take_dollar: "CHR ''$'' \<notin> set pre \<Longrightarrow> takeWhile (\<lambda>c. c \<noteq> CHR ''$'') (pre @ CHR ''$'' # s) = pre"
  by (induction pre) auto

lemma drop_dollar: "CHR ''$'' \<notin> set pre \<Longrightarrow> dropWhile (\<lambda>c. c \<noteq> CHR ''$'') (pre @ CHR ''$'' # s) = CHR ''$'' # s"
  by (induction pre) auto

lemma loop_plain: "CHR ''$'' \<notin> set w \<Longrightarrow> subst_loop env room w = Some (take room w)"
proof -
  assume "CHR ''$'' \<notin> set w"
  then have w: "takeWhile (\<lambda>c. c \<noteq> CHR ''$'') w = w" "dropWhile (\<lambda>c. c \<noteq> CHR ''$'') w = []"
    by (auto simp: takeWhile_eq_all_conv)
  show ?thesis by (subst subst_loop.simps) (simp only: w Let_def, simp)
qed

lemma loop_var:
  assumes "CHR ''$'' \<notin> set pre" "0 < room" "scan_var 1 body = (x, after, needsub, left)"
  shows "subst_loop env room (pre @ CHR ''$'' # CHR ''{'' # body) =
    (if x = [] \<or> VAR_BUF_SIZE < length x then None
     else do {
       vars \<leftarrow> (if needsub then subst_loop env (VAR_BUF_SIZE - 1) (butlast x) else Some (butlast x));
       cp4 \<leftarrow> eval_var env vars;
       let t = take (room - length pre) (case cp4 of None \<Rightarrow> [] | Some v \<Rightarrow> v) in
       do { out \<leftarrow> subst_loop env (room - length pre - length t) after; Some (take room pre @ t @ out) }
     })"
proof -
  have m: "room - min (length pre) room = room - length pre" "take (min (length pre) room) pre = take room pre"
    by (auto simp: min_def)
  show ?thesis
    using assms(2,3) by (subst subst_loop.simps)
      (simp only: take_dollar [OF assms(1)] drop_dollar [OF assms(1)] Let_def m, simp)
qed

lemma loop_expr:
  assumes "CHR ''$'' \<notin> set pre" "0 < room" "scan_expr 1 body = (x, after, needsub, left)"
  shows "subst_loop env room (pre @ CHR ''$'' # CHR ''['' # body) =
    (if x = [] \<or> VAR_BUF_SIZE < length x then None
     else do {
       vars \<leftarrow> (if needsub then subst_loop env (VAR_BUF_SIZE - 2) (butlast x) else Some (butlast x));
       (t, len) \<leftarrow> cw_expr (se_parse env) (se_regcomp env) (se_quiet env) vars (room - length pre);
       out \<leftarrow> subst_loop env (room - length pre - len) after;
       Some (take room pre @ t @ out)
     })"
proof -
  have m: "room - min (length pre) room = room - length pre" "take (min (length pre) room) pre = take room pre"
    by (auto simp: min_def)
  show ?thesis
    using assms(2,3) by (subst subst_loop.simps)
      (simp only: take_dollar [OF assms(1)] drop_dollar [OF assms(1)] Let_def m, simp)
qed

lemma loop_dollar:
  assumes "CHR ''$'' \<notin> set pre" "0 < room" "at0 s \<notin> {CHR ''{'', CHR ''[''}"
  shows "subst_loop env room (pre @ CHR ''$'' # s) =
    do { out \<leftarrow> subst_loop env (room - (length pre + 1)) s; Some (take room (pre @ ''$'') @ out) }"
proof -
  have m: "room - min (length pre + 1) room = room - (length pre + 1)"
    "take (min (length pre + 1) room) (pre @ CHR ''$'' # s) = take room (pre @ ''$'')" by (auto simp: min_def)
  show ?thesis
    using assms(2,3) by (subst subst_loop.simps)
      (simp only: take_dollar [OF assms(1)] drop_dollar [OF assms(1)] Let_def m, simp)
qed

text \<open>Every text is one of these four.\<close>

lemma text_cases:
  obtains (plain) "CHR ''$'' \<notin> set w"
  | (var) pre body where "w = pre @ CHR ''$'' # CHR ''{'' # body" "CHR ''$'' \<notin> set pre"
  | (expr) pre body where "w = pre @ CHR ''$'' # CHR ''['' # body" "CHR ''$'' \<notin> set pre"
  | (dollar) pre s where "w = pre @ CHR ''$'' # s" "CHR ''$'' \<notin> set pre" "at0 s \<notin> {CHR ''{'', CHR ''[''}"
proof (cases "CHR ''$'' \<in> set w")
  case True
  then obtain pre s where w: "w = pre @ CHR ''$'' # s" "CHR ''$'' \<notin> set pre" by (metis split_list_first)
  show ?thesis
  proof (cases s)
    case Nil
    have "NUL \<notin> {CHR ''{'', CHR ''[''}" by code_simp
    then show ?thesis using w Nil by (intro dollar [of pre s]) auto
  next
    case (Cons c body)
    then show ?thesis using w var [of pre body] expr [of pre body] dollar [of pre s] by auto
  qed
qed (rule plain)

section \<open>Lengths\<close>

lemma cw_expr_length:
  "cw_expr parse regcomp q ex n = Some (t, len) \<Longrightarrow> length t \<le> len \<and> len \<le> n"
  by (auto simp: cw_expr_def Let_def cw_copy_string_def split: bind_splits option.splits val.splits if_splits)

lemma subst_loop_length: "subst_loop env room w = Some t \<Longrightarrow> length t \<le> room"
proof (induction "length w" arbitrary: w room t rule: less_induct)
  case less
  show ?case
  proof (cases "room = 0")
    case False
    then have pos: "0 < room" by simp
    show ?thesis
    proof (cases w rule: text_cases)
      case plain
      then show ?thesis using less.prems by (auto simp: loop_plain)
    next
      case (var pre body)
      obtain x after n e where sc: "scan_var 1 body = (x, after, n, e)" by (cases "scan_var 1 body")
      have "length after < length w" using scan_var_append [OF sc] var(1) by auto
      note IH = less.hyps [OF this]
      show ?thesis using less.prems unfolding var(1) loop_var [OF var(2) pos sc]
        by (auto simp: Let_def split: if_splits bind_splits dest!: IH)
    next
      case (expr pre body)
      obtain x after n e where sc: "scan_expr 1 body = (x, after, n, e)" by (cases "scan_expr 1 body")
      have "length after < length w" using scan_expr_append [OF sc] expr(1) by auto
      note IH = less.hyps [OF this]
      show ?thesis using less.prems unfolding expr(1) loop_expr [OF expr(2) pos sc]
        by (auto split: if_splits bind_splits dest!: IH cw_expr_length)
    next
      case (dollar pre s)
      have "length s < length w" using dollar(1) by simp
      note IH = less.hyps [OF this]
      show ?thesis using less.prems unfolding dollar(1) loop_dollar [OF dollar(2) pos dollar(3)]
        by (auto split: bind_splits dest!: IH)
    qed
  qed (use less.prems in simp)
qed

section \<open>Texts made of pieces\<close>

text \<open>Plain text and variables with simple names, and what they stand for.\<close>

datatype piece = Lit string | Var string

fun render :: "piece \<Rightarrow> string" where
  "render (Lit s) = s"
| "render (Var n) = ''${'' @ n @ ''}''"

definition simple_name :: "string \<Rightarrow> bool" where
  "simple_name n \<longleftrightarrow> CHR ''$'' \<notin> set n \<and> CHR ''{'' \<notin> set n \<and> CHR ''}'' \<notin> set n \<and> length n < VAR_BUF_SIZE"

fun piece_ok :: "'w sub_env \<Rightarrow> piece \<Rightarrow> bool" where
  "piece_ok env (Lit s) \<longleftrightarrow> CHR ''$'' \<notin> set s"
| "piece_ok env (Var n) \<longleftrightarrow> simple_name n \<and> eval_var env n \<noteq> None"

fun meaning :: "'w sub_env \<Rightarrow> piece \<Rightarrow> string" where
  "meaning env (Lit s) = s"
| "meaning env (Var n) = (case eval_var env n of Some (Some v) \<Rightarrow> v | _ \<Rightarrow> [])"

lemma scan_simple:
  assumes "CHR ''$'' \<notin> set n" "CHR ''{'' \<notin> set n" "CHR ''}'' \<notin> set n"
  shows "scan_var (Suc 0) (n @ CHR ''}'' # s) = (n @ ''}'', s, False, 0)"
  using assms by (induction n) auto

lemma loop_simple_var:
  assumes "CHR ''$'' \<notin> set pre" "0 < room" "CHR ''$'' \<notin> set n" "CHR ''{'' \<notin> set n" "CHR ''}'' \<notin> set n"
  shows "subst_loop env room (pre @ ''${'' @ n @ ''}'' @ w) =
    (if VAR_BUF_SIZE \<le> length n then None
     else do {
       cp4 \<leftarrow> eval_var env n;
       let t = take (room - length pre) (case cp4 of None \<Rightarrow> [] | Some v \<Rightarrow> v) in
       do { out \<leftarrow> subst_loop env (room - length pre - length t) w; Some (take room pre @ t @ out) }
     })"
proof -
  have "scan_var 1 (n @ CHR ''}'' # w) = (n @ ''}'', w, False, 0)" using scan_simple [OF assms(3-5)] by simp
  from loop_var [OF assms(1,2) this, of env] show ?thesis by (simp add: less_Suc_eq_le Let_def)
qed

lemma subst_pieces:
  "\<lbrakk>CHR ''$'' \<notin> set pre; \<forall>p\<in>set ps. piece_ok env p\<rbrakk> \<Longrightarrow>
    subst_loop env room (pre @ concat (map render ps)) = Some (take room (pre @ concat (map (meaning env) ps)))"
proof (induction ps arbitrary: pre room)
  case Nil
  then show ?case by (simp add: loop_plain)
next
  case (Cons p ps)
  have IH: "subst_loop env r (q @ concat (map render ps)) = Some (take r (q @ concat (map (meaning env) ps)))"
    if "CHR ''$'' \<notin> set q" for q r by (rule Cons.IH [OF that]) (use Cons.prems(2) in simp)
  show ?case
  proof (cases p)
    case (Lit s)
    then show ?thesis using IH [of "pre @ s" room] Cons.prems by simp
  next
    case (Var n)
    then obtain r where n: "simple_name n" "eval_var env n = Some r" using Cons.prems(2) by auto
    define v where "v = (case r of None \<Rightarrow> [] | Some v \<Rightarrow> v)"
    have v: "meaning env p = v" using n(2) Var by (simp add: v_def split: option.splits)
    show ?thesis
    proof (cases "room = 0")
      case False
      let ?t = "take (room - length pre) v" and ?rest = "concat (map (meaning env) ps)"
      have "subst_loop env room (pre @ ''${'' @ n @ ''}'' @ concat (map render ps)) =
          Some (take room pre @ ?t @ take (room - length pre - length ?t) ?rest)"
        using loop_simple_var [of pre room n env "concat (map render ps)"] IH [of "[]"] n Cons.prems(1) False
        by (simp add: simple_name_def v_def Let_def not_le)
      moreover have "take room pre @ ?t @ take (room - length pre - length ?t) ?rest = take room (pre @ v @ ?rest)"
        by (cases "room - length pre \<le> length v") simp_all
      ultimately show ?thesis using Var v by simp
    qed simp
  qed
qed

section \<open>Theorems\<close>

text \<open>
  C24. Substitution is what it should be on texts made of plain text and variables with simple
  names: the result is the concatenation of the texts and of the values of the variables, an
  unknown variable counting as empty, cut to the room in the output.
\<close>

theorem substitution_of_pieces:
  assumes "\<forall>p\<in>set ps. piece_ok env p"
  shows "pbx_substitute_variables_helper_full env (concat (map render ps)) cnt =
    Some (take (cnt - 1) (concat (map (meaning env) ps)))"
  using subst_pieces [of "[]" ps env "cnt - 1"] assms by (simp add: pbx_substitute_variables_helper_full_def)

definition demo_sub :: "unit sub_env" where
  "demo_sub = \<lparr>se_retrieve = demo_retrieve, se_globals = [], se_chan = None, se_headp = [cw_var_assign ''FOO'' ''hello''],
     se_lock_ok = True, se_funcs = [], se_parse = (\<lambda>_. Nothing), se_regcomp = (\<lambda>_. None), se_quiet = False\<rparr>"

lemma demo_FOO: "eval_var demo_sub ''FOO'' = Some (Some ''hello'')"
  by (simp add: eval_var_def demo_sub_def pbx_retrieve_variable_def retrieve_plain_def Let_def find_named_def
      cw_var_name_def strip_underscores_def cw_copy_string_def VAR_BUF_SIZE_def)

theorem substitution_of_pieces_witness:
  "pbx_substitute_variables_helper_full demo_sub (concat (map render [Lit ''say '', Var ''FOO'', Lit ''!''])) 80 =
    Some (take (80 - 1) (concat (map (meaning demo_sub) [Lit ''say '', Var ''FOO'', Lit ''!''])))"
  by (rule substitution_of_pieces) (simp add: simple_name_def VAR_BUF_SIZE_def demo_FOO)



text \<open>
  The name of a variable is copied without regard to the size of its buffer: a name of
  \<open>VAR_BUF_SIZE\<close> characters or more, which the arguments of an application may well hold,
  writes behind the buffer on the stack, and so does a text that ends in \<open>${\<close> in front of it.
\<close>

theorem long_name_overruns:
  assumes "1 < cnt" "CHR ''$'' \<notin> set pre" "CHR ''$'' \<notin> set n" "CHR ''{'' \<notin> set n" "CHR ''}'' \<notin> set n" "VAR_BUF_SIZE \<le> length n"
  shows "pbx_substitute_variables_helper_full env (pre @ ''${'' @ n @ ''}'' @ w) cnt = None \<and>
    pbx_substitute_variables_helper_full env (pre @ ''${'') cnt = None"
  using loop_simple_var [of pre "cnt - 1" n env w] loop_var [of pre "cnt - 1" "[]" "[]" "[]" False 1 env] assms
  by (simp add: pbx_substitute_variables_helper_full_def)

theorem long_name_overruns_witness:
  "pbx_substitute_variables_helper_full demo_sub (''x'' @ ''${'' @ replicate 4096 (CHR ''A'') @ ''}'' @ []) 8192 = None \<and>
    pbx_substitute_variables_helper_full demo_sub (''x'' @ ''${'') 8192 = None"
  by (rule long_name_overruns) (simp_all add: VAR_BUF_SIZE_def)

text \<open>The hash code of no built-in variable.\<close>

lemma builtin_channel_none: "hash \<notin> snd ` set keyword_table \<Longrightarrow> builtin_channel_variable env c hash n = None"
  by (simp add: builtin_channel_variable_def keyword_table_def)

text \<open>
  C26. Setting and reading fit together: after a channel variable was set under a plain name that is
  not built in, the name in braces is replaced by its value, when this fits.
\<close>

theorem set_then_substitute:
  assumes "plain_name name" "simple_name name" "CHR '':'' \<notin> set name" "CHR '')'' \<notin> set name"
    and "cw_hash_string name \<notin> snd ` set keyword_table" "length v < VAR_BUF_SIZE" "length v < cnt"
  shows "pbx_substitute_variables_helper
      (env\<lparr>se_chan := Some c, se_headp := varshead (pbx_builtin_setvar_helper lock_ok funcs True name (Some v) s)\<rparr>)
      (''${'' @ name @ ''}'') cnt = Some v"
proof -
  define env' where "env' = env\<lparr>se_chan := Some c, se_headp := varshead (pbx_builtin_setvar_helper lock_ok funcs True name (Some v) s)\<rparr>"
  have head: "\<exists>vs. se_headp env' = cw_var_assign name v # vs" and c: "se_chan env' = Some c"
    using assms(1) by (simp_all add: env'_def pbx_builtin_setvar_helper_def plain_name_def on_list_def set_in_def)
  have "retrieve_plain (se_retrieve env') (se_globals env') (se_chan env') (se_headp env') name VAR_BUF_SIZE = Some v"
    using head assms(5,6) strip_plain [OF assms(1)]
    by (auto simp: c retrieve_plain_def Let_def builtin_channel_none find_named_def cw_var_name_def cw_copy_string_def)
  then have e: "eval_var env' name = Some (Some v)" using assms(3,4) by (simp add: eval_var_def pbx_retrieve_variable_def)
  have "subst_loop env' (cnt - 1) ([] @ ''${'' @ name @ ''}'' @ []) = Some v"
    using subst_pieces [of "[]" "[Var name]" env' "cnt - 1"] assms(2,7) e by simp
  then show ?thesis
    unfolding env'_def [symmetric] by (simp add: pbx_substitute_variables_helper_def pbx_substitute_variables_helper_full_def c)
qed

theorem set_then_substitute_witness:
  "pbx_substitute_variables_helper
      (demo_sub\<lparr>se_chan := Some \<lparr>ch_name = ''SIP/1'', ch_context = ''default'', ch_exten = ''s'', ch_priority = 1,
           ch_cid = \<lparr>cid_num = None, cid_name = None, cid_ani = None, cid_dnid = None, cid_rdnis = None, cid_pres = 0,
             cid_ani2 = 0, cid_ton = 0, cid_tns = 0\<rparr>,
           ch_uniqueid = ''1'', ch_hangupcause = 0, ch_accountcode = [], ch_language = ''en''\<rparr>,
         se_headp := varshead (pbx_builtin_setvar_helper True ([] :: (unit, unit) func_table) True ''BAR'' (Some ''42'')
           \<lparr>varshead = [], globals = [], rest_of_dial = ()\<rparr>)\<rparr>)
      (''${'' @ ''BAR'' @ ''}'') 80 = Some ''42''"
proof (rule set_then_substitute)
  show "cw_hash_string ''BAR'' \<notin> snd ` set keyword_table" by (simp add: keyword_defs hash_eval)
qed (simp_all add: plain_name_def simple_name_def is_call_def VAR_BUF_SIZE_def)

end
