(* ===== verification/Pbx_Run.thy ===== *)
theory Pbx_Run
  imports Pbx_Subst Complex_Main
begin

text \<open>
  Running a channel through the dialplan, \<open>corelib/pbx.c\<close>: the jumps (\<open>cw_explicit_goto\<close>,
  \<open>cw_explicit_gotolabel\<close>, \<open>Goto\<close>, \<open>GotoIf\<close>, \<open>cw_parseable_goto\<close>, \<open>cw_goto_if_exists\<close>), the loop of
  \<open>__cw_pbx_run\<close> and the limit on the number of calls.

  The dialplan is seen through the routines the loop calls: whether an extension exists or could
  go on, where a label is, what executing the current priority does, and what the caller dials.
  They are the fields of the record \<open>plan\<close>; the first three are the routines of \<open>Pbx_Find\<close>.  The
  loops of the source may run for ever, so each has fuel.  The other errors are an access behind
  the array that collects the digits and a use of the \<open>pbx\<close> structure when there is none.
\<close>

section \<open>The channel\<close>

definition CW_MAX_CONTEXT :: nat where "CW_MAX_CONTEXT = 80"

definition CW_SOFTHANGUP_ASYNCGOTO :: int where "CW_SOFTHANGUP_ASYNCGOTO = 2"

definition CW_SOFTHANGUP_TIMEOUT :: int where "CW_SOFTHANGUP_TIMEOUT = 8"

definition CW_PBX_KEEPALIVE :: int where "CW_PBX_KEEPALIVE = 10"

record cw_pbx =
  dtimeout :: int
  rtimeout :: int

text \<open>The pointer \<open>pbx\<close> of a channel may also be left behind by \<open>free\<close>.\<close>

datatype pbx_ptr = No_pbx | Pbx cw_pbx | Freed_pbx

text \<open>The call record belongs to \<open>corelib/cdr.c\<close>; what matters here is which of its routines are called.\<close>

datatype cdr_op = Cdr_init | Cdr_start | Cdr_update | Cdr_end

record call_record =
  cdr_started :: bool
  cdr_ops :: "cdr_op list"

record 'x rchan =
  r_context :: string
  r_exten :: string
  r_priority :: int
  softhangup :: int
  whentohangup :: int
  in_autoloop :: bool
  r_pbx :: pbx_ptr
  amaflags :: int
  r_vars :: "cw_var_t list"
  r_globals :: "cw_var_t list"
  r_cdr :: "call_record option"
  hungup :: bool
  r_rest :: 'x

text \<open>The routines the loop relies on.  \<open>pl_busy\<close> and \<open>pl_congestion\<close> are the applications run at
  the end of an extension; \<open>pl_digit\<close> waits for a digit.\<close>

record 'x plan =
  pl_exists :: "'x rchan \<Rightarrow> string \<Rightarrow> string \<Rightarrow> int \<Rightarrow> bool"
  pl_matchmore :: "'x rchan \<Rightarrow> string \<Rightarrow> string \<Rightarrow> int \<Rightarrow> bool"
  pl_findlabel :: "'x rchan \<Rightarrow> string \<Rightarrow> string \<Rightarrow> string \<Rightarrow> int"
  pl_exec :: "'x rchan \<Rightarrow> int \<times> 'x rchan"
  pl_digit :: "int \<Rightarrow> 'x rchan \<Rightarrow> int \<times> 'x rchan"
  pl_busy :: "'x rchan \<Rightarrow> int \<times> 'x rchan"
  pl_congestion :: "'x rchan \<Rightarrow> int \<times> 'x rchan"

definition cdr_do :: "cdr_op \<Rightarrow> 'x rchan \<Rightarrow> 'x rchan" where
  "cdr_do op c = c\<lparr>r_cdr := map_option (\<lambda>r. r\<lparr>cdr_ops := op # cdr_ops r\<rparr>) (r_cdr c)\<rparr>"

section \<open>Jumps\<close>

definition nonempty :: "string option \<Rightarrow> bool" where
  "nonempty s \<longleftrightarrow> (case s of None \<Rightarrow> False | Some t \<Rightarrow> t \<noteq> [])"

definition cw_explicit_goto :: "string option \<Rightarrow> string option \<Rightarrow> int \<Rightarrow> 'x rchan \<Rightarrow> 'x rchan" where
  "cw_explicit_goto context ext pri c =
     (let c = (if nonempty context then c\<lparr>r_context := cw_copy_string (the context) CW_MAX_CONTEXT\<rparr> else c);
          c = (if nonempty ext then c\<lparr>r_exten := cw_copy_string (the ext) CW_MAX_EXTENSION\<rparr> else c)
      in if pri > - 1 then c\<lparr>r_priority := (if in_autoloop c then pri - 1 else pri)\<rparr> else c)"

definition cw_explicit_gotolabel ::
    "'x plan \<Rightarrow> string option \<Rightarrow> string option \<Rightarrow> string option \<Rightarrow> 'x rchan \<Rightarrow> int \<times> 'x rchan" where
  "cw_explicit_gotolabel pl context ext pri c =
     (case pri of
        None \<Rightarrow> (- 1, c)
      | Some p \<Rightarrow>
          if p = [] then (- 1, c)
          else
            let ext = (case ext of
                         None \<Rightarrow> None
                       | Some e \<Rightarrow> if e = [] \<or> cw_hash_string e = CW_KEYWORD_BYEXTENSION then None else Some e);
                sign = at0 p;
                npriority =
                  (if isdigit sign \<or> (sign = CHR ''+'' \<or> sign = CHR ''-'') \<and> isdigit (at0 (tl p))
                   then Some (if sign = CHR ''-'' then r_priority c - atoi (tl p)
                              else if sign = CHR ''+'' then r_priority c + atoi (tl p)
                              else atoi p)
                   else let n = pl_findlabel pl c (if nonempty context then the context else r_context c)
                                  (if nonempty ext then the ext else r_exten c) p
                        in if n < 1 then None else Some n)
            in case npriority of
                 None \<Rightarrow> (- 1, c)
               | Some n \<Rightarrow> (0, cw_explicit_goto context ext n c))"

definition pbx_builtin_goto :: "'x plan \<Rightarrow> string list \<Rightarrow> 'x rchan \<Rightarrow> int \<times> 'x rchan" where
  "pbx_builtin_goto pl argv c =
     (case argv of
        [] \<Rightarrow> cw_explicit_gotolabel pl None None None c
      | [p] \<Rightarrow> cw_explicit_gotolabel pl None None (Some p) c
      | [e, p] \<Rightarrow> cw_explicit_gotolabel pl None (Some e) (Some p) c
      | x # e # p # _ \<Rightarrow> cw_explicit_gotolabel pl (Some x) (Some e) (Some p) c)"

definition pbx_checkcondition :: "string option \<Rightarrow> int" where
  "pbx_checkcondition condition =
     (case condition of
        None \<Rightarrow> 0
      | Some s \<Rightarrow> if s = [] then 0 else if isdigit (hd s) then atoi s else 1)"

text \<open>The arguments up to the first colon, and those from it on.\<close>

fun before_colon :: "string list \<Rightarrow> string list" where
  "before_colon [] = []"
| "before_colon (a # as) =
     (case split_at (CHR '':'') a of None \<Rightarrow> a # before_colon as | Some (l, _) \<Rightarrow> [rtrim l])"

fun after_colon :: "string list \<Rightarrow> string list option" where
  "after_colon [] = None"
| "after_colon (a # as) =
     (case split_at (CHR '':'') a of None \<Rightarrow> after_colon as | Some (_, r) \<Rightarrow> Some (dropWhile isspace r # as))"

definition pbx_builtin_gotoif :: "'x plan \<Rightarrow> string list \<Rightarrow> 'x rchan \<Rightarrow> int \<times> 'x rchan" where
  "pbx_builtin_gotoif pl argv c =
     (case argv of
        [] \<Rightarrow> (0, c)
      | a # as \<Rightarrow>
          (case split_at (CHR ''?'') a of
             None \<Rightarrow> (0, c)
           | Some (cond, target) \<Rightarrow>
               let branches = dropWhile isspace target # as in
               if pbx_checkcondition (Some (rtrim cond)) \<noteq> 0
               then let argv = before_colon branches in
                    if length argv \<noteq> 1 \<or> hd argv \<noteq> [] then pbx_builtin_goto pl argv c else (0, c)
               else (case after_colon branches of
                       None \<Rightarrow> (0, c)
                     | Some argv \<Rightarrow> if length argv \<noteq> 1 \<or> hd argv \<noteq> [] then pbx_builtin_goto pl argv c else (0, c))))"

definition cw_goto_if_exists :: "'x plan \<Rightarrow> string option \<Rightarrow> string option \<Rightarrow> int \<Rightarrow> 'x rchan \<Rightarrow> int \<times> 'x rchan" where
  "cw_goto_if_exists pl context ext pri c =
     (let x = (case context of Some x \<Rightarrow> x | None \<Rightarrow> r_context c);
          e = (case ext of Some e \<Rightarrow> e | None \<Rightarrow> r_exten c)
      in if pl_exists pl c x e pri then (0, cw_explicit_goto (Some x) (Some e) pri c) else (- 3, c))"

text \<open>The array of \<open>cw_parseable_goto\<close> has four places, so at most three arguments are seen.\<close>

definition cw_parseable_goto :: "'x plan \<Rightarrow> string option \<Rightarrow> 'x rchan \<Rightarrow> int \<times> 'x rchan" where
  "cw_parseable_goto pl goto_string c =
     (let argv = (case goto_string of None \<Rightarrow> [] | Some s \<Rightarrow> cw_separate_app_args (Some s) (CHR '','') 4);
          argc = length argv in
      if argc < 1 \<or> argc > 3 then (- 1, c)
      else
        let prio = last argv;
            ext = (if argc > 1 then Some (argv ! (argc - 2)) else None);
            context = (if argc > 2 then Some (hd argv) else None);
            ext = (case ext of
                     None \<Rightarrow> None
                   | Some e \<Rightarrow> Some (if cw_hash_string e = CW_KEYWORD_BYEXTENSION then r_exten c else e));
            mode = (if at0 prio = CHR ''+'' then 1 else if at0 prio = CHR ''-'' then - 1 else 0 :: int);
            prio = (if mode \<noteq> 0 then tl prio else prio);
            target = (case scan_int prio of
                        Some (n, _) \<Rightarrow> Some (if mode \<noteq> 0 then r_priority c + n * mode else n)
                      | None \<Rightarrow>
                          let n = pl_findlabel pl c (case context of Some x \<Rightarrow> x | None \<Rightarrow> r_context c)
                                    (case ext of Some e \<Rightarrow> e | None \<Rightarrow> r_exten c) prio
                          in if n < 1 then None else Some n)
        in case target of
             None \<Rightarrow> (- 1, c)
           | Some n \<Rightarrow> (0, cdr_do Cdr_update (cw_explicit_goto context ext n c)))"

section \<open>The loop\<close>

datatype run_error = No_fuel | Overrun | Bad_pbx

text \<open>How the loop over priorities ends: the call is over with a result, the caller dialled a
  digit, or there is no such priority any more; with the last result.\<close>

datatype 'x exec_end =
    Exec_out int "'x rchan"
  | Exec_digit int "'x rchan"
  | Exec_end int "'x rchan"

definition here :: "'x plan \<Rightarrow> 'x rchan \<Rightarrow> string \<Rightarrow> int \<Rightarrow> bool" where
  "here pl c ext pri = pl_exists pl c (r_context c) ext pri"

definition is_dtmf :: "int \<Rightarrow> bool" where
  "is_dtmf res \<longleftrightarrow> 48 \<le> res \<and> res \<le> 57 \<or> 65 \<le> res \<and> res \<le> 70 \<or> res = 42 \<or> res = 35"

text \<open>The end of one round: what follows a priority that returned; \<open>None\<close> leaves the loop.\<close>

definition next_priority :: "'x plan \<Rightarrow> 'x rchan \<Rightarrow> 'x rchan option" where
  "next_priority pl c =
     (if softhangup c = CW_SOFTHANGUP_TIMEOUT \<and> here pl c ''T'' 1
      then Some (c\<lparr>r_exten := cw_copy_string ''T'' CW_MAX_EXTENSION, whentohangup := 0, r_priority := 1, softhangup := 0\<rparr>)
      else if softhangup c \<noteq> 0 then None
      else Some (c\<lparr>r_priority := r_priority c + 1\<rparr>))"

definition exec_round :: "'x plan \<Rightarrow> 'x rchan \<Rightarrow> 'x exec_end + int \<times> 'x rchan" where
  "exec_round pl c =
     (let (res, c) = pl_exec pl c;
          go_on = (\<lambda>c. case next_priority pl c of None \<Rightarrow> Inl (Exec_out res c) | Some c \<Rightarrow> Inr (res, c)) in
      if res = 0 then go_on c
      else if is_dtmf res then Inl (Exec_digit res c)
      else if res = CW_PBX_KEEPALIVE then Inl (Exec_out res c)
      else if softhangup c = CW_SOFTHANGUP_ASYNCGOTO then go_on (c\<lparr>softhangup := 0\<rparr>)
      else if softhangup c = CW_SOFTHANGUP_TIMEOUT then go_on c
      else Inl (Exec_out res (cdr_do Cdr_update c)))"

fun exec_loop :: "nat \<Rightarrow> 'x plan \<Rightarrow> int \<Rightarrow> 'x rchan \<Rightarrow> 'x exec_end option" where
  "exec_loop 0 pl res c = None"
| "exec_loop (Suc n) pl res c =
     (if here pl c (r_exten c) (r_priority c)
      then case exec_round pl c of Inl e \<Rightarrow> Some e | Inr (res, c) \<Rightarrow> exec_loop n pl res c
      else Some (Exec_end res c))"

text \<open>
  The array for the digits has 256 bytes and is cleared before each priority, so the model keeps all
  of it; as a string it ends at its first zero, and without one it is read beyond its end.
\<close>

definition EXTEN_BUF :: nat where "EXTEN_BUF = 256"

definition cleared :: string where "cleared = replicate EXTEN_BUF NUL"

definition c_string :: "string \<Rightarrow> string option" where
  "c_string buf = (if NUL \<in> set buf then Some (takeWhile (\<lambda>ch. ch \<noteq> NUL) buf) else None)"

definition pbx_of :: "'x rchan \<Rightarrow> cw_pbx option" where
  "pbx_of c = (case r_pbx c of Pbx p \<Rightarrow> Some p | _ \<Rightarrow> None)"

text \<open>Reading digits from place \<open>pos\<close> on.  \<open>Inr (Inl c)\<close> is the label \<open>out\<close>.\<close>

fun read_digits :: "nat \<Rightarrow> 'x plan \<Rightarrow> int \<Rightarrow> string \<Rightarrow> nat \<Rightarrow> 'x rchan \<Rightarrow> run_error + 'x rchan + string \<times> 'x rchan" where
  "read_digits 0 pl waittime buf pos c = Inl No_fuel"
| "read_digits (Suc n) pl waittime buf pos c =
     (case c_string buf of
        None \<Rightarrow> Inl Overrun
      | Some ext \<Rightarrow>
          if \<not> pl_matchmore pl c (r_context c) ext 1 then Inr (Inr (buf, c))
          else let (d, c) = pl_digit pl (waittime * 1000) c in
            if softhangup c = CW_SOFTHANGUP_ASYNCGOTO then read_digits n pl waittime buf pos (c\<lparr>softhangup := 0\<rparr>)
            else if d = 0 then Inr (Inr (buf, c))
            else if d < 0 then Inr (Inl c)
            else if EXTEN_BUF \<le> pos then Inl Overrun
            else case pbx_of c of
                   None \<Rightarrow> Inl Bad_pbx
                 | Some p \<Rightarrow> read_digits n pl (dtimeout p) (buf[pos := char_of (nat d)]) (Suc pos) c)"

definition set_var :: "string \<Rightarrow> string \<Rightarrow> 'x rchan \<Rightarrow> 'x rchan" where
  "set_var name v c = c\<lparr>r_vars := set_in name (Some v) (r_vars c)\<rparr>"

definition goto_start :: "string \<Rightarrow> 'x rchan \<Rightarrow> 'x rchan" where
  "goto_start ext c = c\<lparr>r_exten := cw_copy_string ext CW_MAX_EXTENSION, r_priority := 1\<rparr>"

text \<open>After the digits: the extension dialled, \<open>i\<close>, \<open>t\<close>, or the end of the call.\<close>

definition after_digits :: "'x plan \<Rightarrow> string \<Rightarrow> 'x rchan \<Rightarrow> 'x rchan option" where
  "after_digits pl ext c =
     map_option (cdr_do Cdr_update)
       (if here pl c ext 1 then Some (goto_start ext c)
        else if ext \<noteq> []
        then if here pl c ''i'' 1 then Some (goto_start ''i'' (set_var ''INVALID_EXTEN'' ext c)) else None
        else if here pl c ''t'' 1 then Some (goto_start ''t'' c) else None)"

text \<open>The end of an extension without waiting for digits.\<close>

definition fall_through :: "'x plan \<Rightarrow> int \<Rightarrow> 'x rchan \<Rightarrow> int \<times> 'x rchan" where
  "fall_through pl res c =
     (case pbx_builtin_getvar_helper True ''DIALSTATUS'' \<lparr>varshead = r_vars c, globals = r_globals c, rest_of_dial = ()\<rparr> of
        None \<Rightarrow> (res, c)
      | Some status \<Rightarrow>
          let hash = cw_hash_string status in
          if hash = CW_KEYWORD_BUSY then pl_busy pl c
          else if hash = CW_KEYWORD_CHANUNAVAIL then pl_congestion pl c
          else if hash = CW_KEYWORD_CONGESTION then pl_congestion pl c
          else (res, c))"

text \<open>
  One round of the outer loop after the priorities: \<open>buf\<close> is the array, \<open>d\<close> the digit that left an
  application, if any, which is then in the first place of the array.
\<close>

definition after_exec ::
    "nat \<Rightarrow> 'x plan \<Rightarrow> bool \<Rightarrow> bool \<Rightarrow> string \<Rightarrow> int \<Rightarrow> 'x rchan \<Rightarrow>
     run_error + (int \<times> 'x rchan) + int \<times> string \<times> 'x rchan" where
  "after_exec n pl autofallthrough dialled buf res c =
     (if \<not> here pl c (r_exten c) 1
      then if here pl c ''i'' 1 then Inr (Inr (res, buf, goto_start ''i'' (set_var ''INVALID_EXTEN'' (r_exten c) c)))
           else Inr (Inl (res, c))
      else if softhangup c = CW_SOFTHANGUP_TIMEOUT then Inr (Inr (res, buf, c\<lparr>softhangup := 0\<rparr>))
      else
        case pbx_of c of
          None \<Rightarrow> if \<not> dialled \<and> autofallthrough then Inr (Inl (fall_through pl res c)) else Inl Bad_pbx
        | Some p \<Rightarrow>
            let waittime = (if dialled then dtimeout p else if \<not> autofallthrough then rtimeout p else 0) in
            if waittime \<noteq> 0
            then case read_digits n pl waittime buf (if dialled then 1 else 0) c of
                   Inl e \<Rightarrow> Inl e
                 | Inr (Inl c) \<Rightarrow> Inr (Inl (res, c))
                 | Inr (Inr (buf, c)) \<Rightarrow>
                     (case c_string buf of
                        None \<Rightarrow> Inl Overrun
                      | Some ext \<Rightarrow>
                          (case after_digits pl ext c of
                             None \<Rightarrow> Inr (Inl (res, c))
                           | Some c \<Rightarrow> Inr (Inr (res, buf, c))))
            else Inr (Inl (fall_through pl res c)))"

text \<open>The outer loop.  A round that executes a priority clears the array first; a round that
  executes none keeps what the last one left there.\<close>

fun main_loop :: "nat \<Rightarrow> nat \<Rightarrow> 'x plan \<Rightarrow> bool \<Rightarrow> string \<Rightarrow> int \<Rightarrow> 'x rchan \<Rightarrow> run_error + int \<times> 'x rchan" where
  "main_loop 0 n pl autofallthrough buf res c = Inl No_fuel"
| "main_loop (Suc k) n pl autofallthrough buf res c =
     (let continue = (\<lambda>dialled buf res c.
            case after_exec n pl autofallthrough dialled buf res c of
              Inl e \<Rightarrow> Inl e
            | Inr (Inl (res, c)) \<Rightarrow> Inr (res, c)
            | Inr (Inr (res, buf, c)) \<Rightarrow> main_loop k n pl autofallthrough buf res c) in
      case exec_loop n pl res c of
        None \<Rightarrow> Inl No_fuel
      | Some (Exec_out res c) \<Rightarrow> Inr (res, c)
      | Some (Exec_digit d c) \<Rightarrow> continue True (cleared[0 := char_of (nat d)]) d c
      | Some (Exec_end res c') \<Rightarrow> continue False (if here pl c (r_exten c) (r_priority c) then cleared else buf) res c')"

text \<open>The extension \<open>h\<close> at the end of the call.\<close>

fun h_loop :: "nat \<Rightarrow> 'x plan \<Rightarrow> int \<Rightarrow> 'x rchan \<Rightarrow> run_error + int \<times> 'x rchan" where
  "h_loop 0 pl res c = Inl No_fuel"
| "h_loop (Suc n) pl res c =
     (if here pl c (r_exten c) (r_priority c)
      then let (res, c) = pl_exec pl c in
           if res \<noteq> 0 then Inr (res, c) else h_loop n pl res (c\<lparr>r_priority := r_priority c + 1\<rparr>)
      else Inr (res, c))"

definition start_location :: "'x plan \<Rightarrow> 'x rchan \<Rightarrow> 'x rchan" where
  "start_location pl c =
     (if here pl c (r_exten c) (r_priority c) then c
      else let c = c\<lparr>r_exten := cw_copy_string ''s'' CW_MAX_EXTENSION\<rparr>;
               c = (if here pl c (r_exten c) (r_priority c) then c else c\<lparr>r_context := cw_copy_string ''default'' CW_MAX_CONTEXT\<rparr>)
           in c\<lparr>r_priority := 1\<rparr>)"

text \<open>From the label \<open>out\<close> on.  \<open>end_before_h\<close> is \<open>cw_end_cdr_before_h_exten\<close>.\<close>

definition leave :: "bool \<Rightarrow> int \<Rightarrow> 'x rchan \<Rightarrow> 'x rchan" where
  "leave autoloopflag res c =
     c\<lparr>in_autoloop := autoloopflag, r_pbx := No_pbx, hungup := hungup c \<or> res \<noteq> CW_PBX_KEEPALIVE\<rparr>"

definition finish :: "nat \<Rightarrow> 'x plan \<Rightarrow> bool \<Rightarrow> bool \<Rightarrow> int \<Rightarrow> 'x rchan \<Rightarrow> run_error + 'x rchan" where
  "finish n pl end_before_h autoloopflag res c =
     (if res \<noteq> CW_PBX_KEEPALIVE \<and> here pl c ''h'' 1
      then let c = (if end_before_h then cdr_do Cdr_end c else c) in
           case h_loop n pl res (c\<lparr>r_exten := ''h'', r_priority := 1\<rparr>) of
             Inl e \<Rightarrow> Inl e
           | Inr (res, c) \<Rightarrow> Inr (leave autoloopflag res c)
      else Inr (leave autoloopflag res c))"

text \<open>
  \<open>pbx_run\<close> is \<open>__cw_pbx_run\<close>.  \<open>mem\<close> and \<open>cdr_mem\<close> are whether the \<open>pbx\<close> structure and a call record
  can be allocated; \<open>junk\<close> is what the stack holds in the array for digits.
\<close>

definition with_cdr :: "bool \<Rightarrow> 'x rchan \<Rightarrow> 'x rchan option" where
  "with_cdr cdr_mem c =
     (if amaflags c \<noteq> 0 \<and> r_cdr c = None
      then if cdr_mem then Some (c\<lparr>r_cdr := Some \<lparr>cdr_started = False, cdr_ops = [Cdr_init]\<rparr>\<rparr>) else None
      else Some c)"

definition start_cdr :: "'x rchan \<Rightarrow> 'x rchan" where
  "start_cdr c =
     (case r_cdr c of
        None \<Rightarrow> c
      | Some r \<Rightarrow> if cdr_started r then c
                  else c\<lparr>r_cdr := Some \<lparr>cdr_started = True, cdr_ops = Cdr_start # cdr_ops r\<rparr>\<rparr>)"

definition in_pbx :: "'x plan \<Rightarrow> 'x rchan \<Rightarrow> 'x rchan" where
  "in_pbx pl c =
     start_cdr (start_location pl (c\<lparr>r_pbx := Pbx \<lparr>dtimeout = 5, rtimeout = 10\<rparr>, in_autoloop := True\<rparr>))"

definition pbx_run ::
    "bool \<Rightarrow> bool \<Rightarrow> string \<Rightarrow> nat \<Rightarrow> nat \<Rightarrow> 'x plan \<Rightarrow> bool \<Rightarrow> bool \<Rightarrow> 'x rchan \<Rightarrow> run_error + int \<times> 'x rchan" where
  "pbx_run mem cdr_mem junk k n pl autofallthrough end_before_h c =
     (if \<not> mem then Inr (- 1, c\<lparr>r_pbx := No_pbx\<rparr>)
      else case with_cdr cdr_mem c of
        None \<Rightarrow> Inr (- 1, c\<lparr>r_pbx := Freed_pbx\<rparr>)
      | Some c \<Rightarrow>
          (case main_loop k n pl autofallthrough junk 0 (in_pbx pl c) of
             Inl e \<Rightarrow> Inl e
           | Inr (res, c1) \<Rightarrow>
               (case finish n pl end_before_h (in_autoloop c) res c1 of Inl e \<Rightarrow> Inl e | Inr c \<Rightarrow> Inr (0, c))))"

section \<open>The number of calls\<close>

text \<open>The load average and its limit are exact numbers here; the limit 0 is none.\<close>

record call_limits =
  countcalls :: int
  option_maxcalls :: int
  option_maxload :: rat
  curloadavg :: rat

definition CW_PBX_SUCCESS :: int where "CW_PBX_SUCCESS = 0"
definition CW_PBX_FAILED :: int where "CW_PBX_FAILED = - 1"
definition CW_PBX_CALL_LIMIT :: int where "CW_PBX_CALL_LIMIT = - 2"

definition increase_call_count :: "call_limits \<Rightarrow> int \<times> call_limits" where
  "increase_call_count s =
     (let failed = (if option_maxcalls s \<noteq> 0 \<and> countcalls s \<ge> option_maxcalls s then - 1 else 0);
          failed = (if option_maxload s \<noteq> 0 \<and> curloadavg s \<ge> option_maxload s then - 1 else failed)
      in (failed, if failed = 0 then s\<lparr>countcalls := countcalls s + 1\<rparr> else s))"

definition decrease_call_count :: "call_limits \<Rightarrow> call_limits" where
  "decrease_call_count s = (if countcalls s > 0 then s\<lparr>countcalls := countcalls s - 1\<rparr> else s)"

text \<open>\<open>run\<close> is \<open>__cw_pbx_run\<close> on the channel.  A call that is started runs in the thread made by
  \<open>cw_pbx_start\<close>, which is \<open>pbx_thread\<close>.\<close>

definition pbx_thread :: "('c \<Rightarrow> int \<times> 'c) \<Rightarrow> 'c \<Rightarrow> call_limits \<Rightarrow> 'c \<times> call_limits" where
  "pbx_thread run c s = (snd (run c), decrease_call_count s)"

definition cw_pbx_start :: "bool \<Rightarrow> 'c option \<Rightarrow> call_limits \<Rightarrow> int \<times> call_limits" where
  "cw_pbx_start thread_ok c s =
     (if c = None then (CW_PBX_FAILED, s)
      else let (failed, s) = increase_call_count s in
        if failed \<noteq> 0 then (CW_PBX_CALL_LIMIT, s)
        else if \<not> thread_ok then (CW_PBX_FAILED, s)
        else (CW_PBX_SUCCESS, s))"

definition cw_pbx_run :: "('c \<Rightarrow> int \<times> 'c) \<Rightarrow> 'c \<Rightarrow> call_limits \<Rightarrow> int \<times> 'c \<times> call_limits" where
  "cw_pbx_run run c s =
     (let (failed, s) = increase_call_count s in
      if failed \<noteq> 0 then (CW_PBX_CALL_LIMIT, c, s)
      else let (res, c) = run c in (res, c, decrease_call_count s))"

definition cw_active_calls :: "call_limits \<Rightarrow> int" where
  "cw_active_calls s = countcalls s"

definition pbx_set_autofallthrough :: "int \<Rightarrow> int \<Rightarrow> int \<times> int" where
  "pbx_set_autofallthrough newval autofallthrough =
     (autofallthrough, if autofallthrough \<noteq> newval then newval else autofallthrough)"

section \<open>Executing priorities in order\<close>

text \<open>One quiet step of a channel: its priority exists, returns 0 and nobody hung up.\<close>

inductive prio_step :: "'x plan \<Rightarrow> 'x rchan \<Rightarrow> 'x rchan \<Rightarrow> bool" for pl where
  prio_step: "here pl c (r_exten c) (r_priority c) \<Longrightarrow> pl_exec pl c = (0, c1) \<Longrightarrow> softhangup c1 = 0 \<Longrightarrow>
    prio_step pl c (c1\<lparr>r_priority := r_priority c1 + 1\<rparr>)"

lemma prio_stepI:
  "here pl c (r_exten c) (r_priority c) \<Longrightarrow> pl_exec pl c = (0, d) \<Longrightarrow> softhangup d = 0 \<Longrightarrow>
   c' = d\<lparr>r_priority := r_priority d + 1\<rparr> \<Longrightarrow> prio_step pl c c'"
  by (simp add: prio_step)

inductive_cases prio_stepE: "prio_step pl c c'"

inductive prio_steps :: "'x plan \<Rightarrow> nat \<Rightarrow> 'x rchan \<Rightarrow> 'x rchan \<Rightarrow> bool" for pl where
  steps_0: "prio_steps pl 0 c c"
| steps_Suc: "prio_step pl c c1 \<Longrightarrow> prio_steps pl k c1 c' \<Longrightarrow> prio_steps pl (Suc k) c c'"

inductive_cases prio_steps_SucE: "prio_steps pl (Suc k) c c'"
inductive_cases prio_steps_0E: "prio_steps pl 0 c c'"

lemma exec_round_quiet:
  "prio_step pl c c' \<Longrightarrow> exec_round pl c = Inr (0, c')"
  by (auto elim!: prio_stepE simp: exec_round_def next_priority_def CW_SOFTHANGUP_TIMEOUT_def)

lemma exec_loop_step:
  "prio_step pl c c' \<Longrightarrow> exec_loop (Suc n) pl res c = exec_loop n pl 0 c'"
  using exec_round_quiet [of pl c c'] by (auto elim!: prio_stepE)

lemma exec_loop_steps:
  "prio_steps pl k c c' \<Longrightarrow> k > 0 \<or> res = 0 \<Longrightarrow> exec_loop (k + n) pl res c = exec_loop n pl 0 c'"
  by (induction arbitrary: res rule: prio_steps.induct) (auto simp: exec_loop_step simp del: exec_loop.simps)

text \<open>
  C27. Priorities run one after the other: after any number of priorities that returned 0 without a
  hangup, the loop over priorities continues with the channel as these priorities left it, and when
  there is no further priority there it ends with the result 0.
\<close>

theorem priorities_in_order:
  assumes "prio_steps pl k c c'" "\<not> here pl c' (r_exten c') (r_priority c')"
  shows "exec_loop (Suc (k + m)) pl 0 c = Some (Exec_end 0 c')"
  using exec_loop_steps [OF assms(1), of 0 "Suc m"] assms(2) by simp

section \<open>Jumps inside the loop\<close>

lemma cw_explicit_goto_simps:
  "in_autoloop (cw_explicit_goto x e p c) = in_autoloop c"
  "softhangup (cw_explicit_goto x e p c) = softhangup c"
  by (auto simp: cw_explicit_goto_def Let_def)

lemma explicit_goto_lands:
  "in_autoloop c \<Longrightarrow> x \<noteq> [] \<Longrightarrow> e \<noteq> [] \<Longrightarrow> 0 \<le> n \<Longrightarrow>
   (let c' = cw_explicit_goto (Some x) (Some e) n c in c'\<lparr>r_priority := r_priority c' + 1\<rparr>)
     = c\<lparr>r_context := cw_copy_string x CW_MAX_CONTEXT, r_exten := cw_copy_string e CW_MAX_EXTENSION, r_priority := n\<rparr>"
  by (simp add: cw_explicit_goto_def nonempty_def Let_def)

lemma explicit_gotolabel_number:
  assumes "isdigit d" "e \<noteq> []" "cw_hash_string e \<noteq> CW_KEYWORD_BYEXTENSION"
  shows "cw_explicit_gotolabel pl x (Some e) (Some (d # p)) c = (0, cw_explicit_goto x (Some e) (atoi (d # p)) c)"
  using assms isdigit_not_space [of d]
  by (simp add: cw_explicit_gotolabel_def at0_def Let_def)

lemma dec_nat_Cons:
  obtains d p where "dec (int n) = d # p" "isdigit d"
proof -
  have "dec (int n) = dec_nat n" by (simp add: dec_def)
  then show thesis using that dec_nat_digits [of _ n] dec_nat_not_Nil [of n] by (cases "dec_nat n") auto
qed

lemma goto_number:
  assumes "e \<noteq> []" "cw_hash_string e \<noteq> CW_KEYWORD_BYEXTENSION"
  shows "pbx_builtin_goto pl [x, e, dec (int n)] c = (0, cw_explicit_goto (Some x) (Some e) (int n) c)"
proof -
  obtain d p where dp: "dec (int n) = d # p" "isdigit d" by (rule dec_nat_Cons)
  have "atoi (d # p) = int n" using atoi_dec [of "int n"] dp(1) by simp
  then show ?thesis
    by (simp add: pbx_builtin_goto_def dp explicit_gotolabel_number assms)
qed

text \<open>
  C28. \<open>Goto(context,extension,n)\<close> run by the loop, which counts the priority up afterwards: the next
  priority executed is exactly \<open>n\<close> of that extension, with the names cut to the room of the channel.
\<close>

theorem goto_lands_on_target:
  assumes "here pl c (r_exten c) (r_priority c)" "pl_exec pl c = pbx_builtin_goto pl [x, e, dec (int n)] c"
    and "in_autoloop c" "softhangup c = 0" "x \<noteq> []" "e \<noteq> []" "cw_hash_string e \<noteq> CW_KEYWORD_BYEXTENSION"
  shows "exec_loop (Suc m) pl res c =
    exec_loop m pl 0 (c\<lparr>r_context := cw_copy_string x CW_MAX_CONTEXT,
      r_exten := cw_copy_string e CW_MAX_EXTENSION, r_priority := int n\<rparr>)"
proof -
  have "prio_step pl c ((cw_explicit_goto (Some x) (Some e) (int n) c)
      \<lparr>r_priority := r_priority (cw_explicit_goto (Some x) (Some e) (int n) c) + 1\<rparr>)"
    using assms by (intro prio_step) (simp_all add: goto_number cw_explicit_goto_simps)
  from exec_loop_step [OF this, of m res] show ?thesis
    using explicit_goto_lands [OF assms(3,5,6), of "int n"] by (simp add: Let_def)
qed

section \<open>The end of a call\<close>

lemma finish_leaves:
  assumes "finish n pl eh flag res c = Inr c'"
  shows "r_pbx c' = No_pbx \<and> in_autoloop c' = flag"
  using assms by (auto simp: finish_def leave_def Let_def split: if_splits sum.splits)

lemma finish_keepalive:
  "finish n pl eh flag CW_PBX_KEEPALIVE c = Inr (c\<lparr>in_autoloop := flag, r_pbx := No_pbx\<rparr>)"
  by (simp add: finish_def leave_def)

lemma finish_no_h:
  "res \<noteq> CW_PBX_KEEPALIVE \<Longrightarrow> \<not> here pl c ''h'' 1 \<Longrightarrow>
   finish n pl eh flag res c = Inr (c\<lparr>in_autoloop := flag, r_pbx := No_pbx, hungup := True\<rparr>)"
  by (simp add: finish_def leave_def)

lemma with_cdr_ok:
  obtains c1 where "with_cdr True c = Some c1" "in_autoloop c1 = in_autoloop c"
proof (cases "amaflags c \<noteq> 0 \<and> r_cdr c = None")
  case True
  then show thesis using that by (simp add: with_cdr_def)
next
  case False
  then show thesis using that [of c] by (simp only: with_cdr_def if_False)
qed


text \<open>
  A channel on which the loop could be run: what it executes is recorded in its rest.
\<close>

definition sample_chan :: "string list rchan" where
  "sample_chan = \<lparr>r_context = ''in'', r_exten = ''100'', r_priority = 1, softhangup = 0, whentohangup = 0,
     in_autoloop = False, r_pbx = No_pbx, amaflags = 0, r_vars = [], r_globals = [], r_cdr = None,
     hungup = False, r_rest = []\<rparr>"

definition sample_plan :: "string list plan" where
  "sample_plan = \<lparr>pl_exists = \<lambda>c x e p. x = ''in'' \<and> e = ''100'' \<and> 1 \<le> p \<and> p \<le> 2,
     pl_matchmore = \<lambda>c x e p. True, pl_findlabel = \<lambda>c x e l. - 1,
     pl_exec = \<lambda>c. (0, c\<lparr>r_rest := r_exten c # r_rest c\<rparr>), pl_digit = \<lambda>t c. (53, c),
     pl_busy = \<lambda>c. (- 1, c), pl_congestion = \<lambda>c. (- 1, c)\<rparr>"

lemma here_sample: "here sample_plan c e p = (r_context c = ''in'' \<and> e = ''100'' \<and> 1 \<le> p \<and> p \<le> 2)"
  by (simp add: here_def sample_plan_def)

lemma sample_sel:
  "pl_exec sample_plan = (\<lambda>c. (0, c\<lparr>r_rest := r_exten c # r_rest c\<rparr>))"
  "pl_digit sample_plan = (\<lambda>t c. (53, c))" "pl_matchmore sample_plan = (\<lambda>c x e p. True)"
  by (simp_all add: sample_plan_def)

lemma sample_steps:
  "prio_steps sample_plan 2 sample_chan (sample_chan\<lparr>r_priority := 3, r_rest := [''100'', ''100'']\<rparr>)"
proof -
  have a: "prio_step sample_plan sample_chan (sample_chan\<lparr>r_priority := 2, r_rest := [''100'']\<rparr>)"
    by (rule prio_stepI [where d = "sample_chan\<lparr>r_rest := [''100'']\<rparr>"])
      (simp_all add: here_sample sample_sel sample_chan_def)
  have b: "prio_step sample_plan (sample_chan\<lparr>r_priority := 2, r_rest := [''100'']\<rparr>)
      (sample_chan\<lparr>r_priority := 3, r_rest := [''100'', ''100'']\<rparr>)"
    by (rule prio_stepI [where d = "sample_chan\<lparr>r_priority := 2, r_rest := [''100'', ''100'']\<rparr>"])
      (simp_all add: here_sample sample_sel sample_chan_def)
  show ?thesis unfolding numeral_2_eq_2 by (rule steps_Suc [OF a steps_Suc [OF b steps_0]])
qed

theorem priorities_in_order_witness:
  "exec_loop 8 sample_plan 0 sample_chan
     = Some (Exec_end 0 (sample_chan\<lparr>r_priority := 3, r_rest := [''100'', ''100'']\<rparr>))"
  using priorities_in_order [OF sample_steps, of 5] by (simp add: here_sample)

definition goto_plan :: "string list plan" where
  "goto_plan = sample_plan\<lparr>pl_exec := \<lambda>c. pbx_builtin_goto sample_plan [''out'', ''s'', dec (int 7)] c\<rparr>"

lemma here_goto_plan: "here goto_plan c e p = here sample_plan c e p"
  by (simp add: here_def goto_plan_def)

lemma goto_plan_exec: "pl_exec goto_plan c = pbx_builtin_goto goto_plan [''out'', ''s'', dec (int 7)] c"
proof -
  have "cw_hash_string ''s'' \<noteq> CW_KEYWORD_BYEXTENSION" by (simp add: hash_eval keyword_defs)
  then show ?thesis by (simp add: goto_plan_def goto_number del: of_nat_numeral)
qed

theorem goto_lands_on_target_witness:
  "exec_loop 2 goto_plan 0 (sample_chan\<lparr>in_autoloop := True\<rparr>)
     = Some (Exec_end 0 (sample_chan\<lparr>in_autoloop := True, r_context := ''out'', r_exten := ''s'', r_priority := 7\<rparr>))"
proof -
  have h: "cw_hash_string ''s'' \<noteq> CW_KEYWORD_BYEXTENSION" by (simp add: hash_eval keyword_defs)
  have "exec_loop (Suc 1) goto_plan 0 (sample_chan\<lparr>in_autoloop := True\<rparr>) =
      exec_loop 1 goto_plan 0 (sample_chan\<lparr>in_autoloop := True, r_context := cw_copy_string ''out'' CW_MAX_CONTEXT,
        r_exten := cw_copy_string ''s'' CW_MAX_EXTENSION, r_priority := int 7\<rparr>)"
    by (rule goto_lands_on_target [where x = "''out''" and e = "''s''" and n = 7])
      (simp_all add: here_goto_plan here_sample sample_chan_def goto_plan_exec h del: of_nat_numeral)
  then show ?thesis
    by (simp add: here_goto_plan here_sample numeral_2_eq_2 cw_copy_string_def CW_MAX_CONTEXT_def
        CW_MAX_EXTENSION_def del: exec_loop.simps(2)) (simp add: here_goto_plan here_sample)
qed

lemma sample_run:
  "pbx_run True True [] 1 3 sample_plan True False sample_chan
     = Inr (0, sample_chan\<lparr>r_priority := 3, r_rest := [''100'', ''100''], hungup := True\<rparr>)"
  by (simp add: pbx_run_def with_cdr_def in_pbx_def start_location_def start_cdr_def here_sample sample_sel
      after_exec_def sample_chan_def numeral_3_eq_3 exec_round_def next_priority_def finish_def leave_def
      CW_SOFTHANGUP_TIMEOUT_def CW_PBX_KEEPALIVE_def pbx_of_def fall_through_def pbx_builtin_getvar_helper_def Let_def)


section \<open>Too many digits\<close>

lemma c_string_zeros: "NUL \<notin> set xs \<Longrightarrow> 0 < k \<Longrightarrow> c_string (xs @ replicate k NUL) = Some xs"
  by (induction xs) (cases k, auto simp: c_string_def split: if_splits)

lemma digit_not_NUL: "0 < d \<Longrightarrow> d < 256 \<Longrightarrow> char_of (nat d) \<noteq> NUL"
  by (auto simp: char_of_eq_iff take_bit_nat_eq_self)

lemma write_zeros: "(xs @ replicate (Suc k) NUL)[length xs := ch] = (xs @ [ch]) @ replicate k NUL"
  by simp

lemma read_digits_overruns:
  assumes digit: "\<And>t. pl_digit pl t c = (d, c)" "0 < d" "d < 256"
    and chan: "softhangup c \<noteq> CW_SOFTHANGUP_ASYNCGOTO" "pbx_of c = Some p"
    and more: "\<And>j. pl_matchmore pl c (r_context c) (replicate j (char_of (nat d))) 1"
  shows "pos + k = EXTEN_BUF \<Longrightarrow>
    read_digits (Suc k + m) pl w (replicate pos (char_of (nat d)) @ replicate k NUL) pos c = Inl Overrun"
proof (induction k arbitrary: w pos)
  case 0
  then show ?case using digit_not_NUL [OF digit(2,3)] by (simp add: c_string_def)
next
  case (Suc k)
  let ?x = "char_of (nat d) :: char"
  have w: "(replicate pos ?x @ replicate (Suc k) NUL)[pos := ?x] = replicate (Suc pos) ?x @ replicate k NUL"
    using write_zeros [of "replicate pos ?x" k ?x] by (simp add: replicate_append_same)
  have s: "c_string (replicate pos ?x @ replicate (Suc k) NUL) = Some (replicate pos ?x)"
    using digit_not_NUL [OF digit(2,3)] by (intro c_string_zeros) auto
  have "\<not> EXTEN_BUF \<le> pos" using Suc.prems by simp
  then have "read_digits (Suc (Suc k + m)) pl w (replicate pos ?x @ replicate (Suc k) NUL) pos c =
      read_digits (Suc k + m) pl (dtimeout p) (replicate (Suc pos) ?x @ replicate k NUL) (Suc pos) c"
    unfolding read_digits.simps(2) [of "Suc k + m"] s w
    using digit chan more w by (simp del: read_digits.simps replicate.simps)
  then show ?case using Suc.IH [of "Suc pos"] Suc.prems by simp
qed

text \<open>
  C30. The loop that reads digits does not know the size of its array: a caller who keeps dialling
  while the dialplan could still match, as it always can with a pattern like \<open>_.\<close>, makes it
  run over the 256 bytes, whatever the fuel from 257 rounds on.
\<close>

theorem digits_overrun:
  assumes "\<And>t. pl_digit pl t c = (d, c)" "0 < d" "d < 256" "softhangup c \<noteq> CW_SOFTHANGUP_ASYNCGOTO"
    and "pbx_of c = Some p" "\<And>j. pl_matchmore pl c (r_context c) (replicate j (char_of (nat d))) 1"
  shows "read_digits (Suc EXTEN_BUF + m) pl w cleared 0 c = Inl Overrun"
  using read_digits_overruns [OF assms, of 0 EXTEN_BUF m w] by (simp add: cleared_def del: read_digits.simps)

definition dot_plan :: "string list plan" where
  "dot_plan = sample_plan\<lparr>pl_matchmore := \<lambda>c x e p.
     cw_extension_pattern_match e ''_.'' \<in> {EXTENSION_MATCH_STRETCHABLE, EXTENSION_MATCH_INCOMPLETE}\<rparr>"

lemma dot_matchmore: "pl_matchmore dot_plan c x (replicate j (CHR ''5'')) p"
  by (cases j) (simp_all add: dot_plan_def cw_extension_pattern_match_def at0_def pm_loop.simps skip_dashes_def toupper_def)

theorem digits_overrun_witness:
  "read_digits (Suc EXTEN_BUF) dot_plan 5 cleared 0 (sample_chan\<lparr>r_pbx := Pbx \<lparr>dtimeout = 5, rtimeout = 10\<rparr>\<rparr>)
     = Inl Overrun"
proof -
  have "char_of (nat 53) = CHR ''5''" by code_simp
  then show ?thesis
    using digits_overrun [of dot_plan "sample_chan\<lparr>r_pbx := Pbx \<lparr>dtimeout = 5, rtimeout = 10\<rparr>\<rparr>" 53
        "\<lparr>dtimeout = 5, rtimeout = 10\<rparr>" 0 5]
    by (simp add: dot_matchmore pbx_of_def sample_chan_def CW_SOFTHANGUP_ASYNCGOTO_def del: read_digits.simps)
      (simp add: dot_plan_def sample_sel)
qed

section \<open>The limit on calls\<close>

datatype call_event = Start bool | Run_begin | Call_end | Load rat

text \<open>What may happen to the counter: a start, with or without a thread, a run in the caller's thread,
  the end of a call and a new load average.\<close>

fun count_event :: "call_event \<Rightarrow> call_limits \<Rightarrow> call_limits" where
  "count_event (Start thread_ok) s = snd (cw_pbx_start thread_ok (Some ()) s)"
| "count_event Run_begin s = snd (increase_call_count s)"
| "count_event Call_end s = decrease_call_count s"
| "count_event (Load l) s = s\<lparr>curloadavg := l\<rparr>"

lemma increase_limited:
  "0 < option_maxcalls s \<Longrightarrow> countcalls s \<le> option_maxcalls s \<Longrightarrow>
   countcalls (snd (increase_call_count s)) \<le> option_maxcalls s"
  by (auto simp: increase_call_count_def Let_def)

lemma increase_frame [simp]:
  "option_maxcalls (snd (increase_call_count s)) = option_maxcalls s"
  "0 \<le> countcalls s \<Longrightarrow> 0 \<le> countcalls (snd (increase_call_count s))"
  by (auto simp: increase_call_count_def Let_def)

lemma cw_pbx_start_state: "snd (cw_pbx_start thread_ok (Some c) s) = snd (increase_call_count s)"
  by (auto simp: cw_pbx_start_def split: prod.splits)

definition calls_ok :: "call_limits \<Rightarrow> bool" where
  "calls_ok s \<longleftrightarrow> 0 \<le> countcalls s \<and> (0 < option_maxcalls s \<longrightarrow> countcalls s \<le> option_maxcalls s)"

lemma call_event_ok: "calls_ok s \<Longrightarrow> calls_ok (count_event ev s)"
  by (cases ev) (auto simp: calls_ok_def cw_pbx_start_state increase_limited decrease_call_count_def)

lemma call_events_ok: "calls_ok s \<Longrightarrow> calls_ok (fold count_event evs s)"
  by (induction evs arbitrary: s) (auto simp: call_event_ok)

lemma call_event_maxcalls: "option_maxcalls (count_event ev s) = option_maxcalls s"
  by (cases ev) (auto simp: cw_pbx_start_state decrease_call_count_def)

lemma call_events_maxcalls: "option_maxcalls (fold count_event evs s) = option_maxcalls s"
  by (induction evs arbitrary: s) (auto simp: call_event_maxcalls)

text \<open>
  C31. However calls start, run and end, the number of calls is never negative and never above
  the limit, when there is one; at the limit a further call is refused and nothing changes.
\<close>

theorem call_limit_kept:
  assumes "0 < option_maxcalls s" "countcalls s = 0"
  shows "let t = fold count_event evs s in
    0 \<le> cw_active_calls t \<and> cw_active_calls t \<le> option_maxcalls s \<and>
    (cw_active_calls t = option_maxcalls s \<longrightarrow> cw_pbx_run run c t = (CW_PBX_CALL_LIMIT, c, t))"
proof -
  have "calls_ok (fold count_event evs s)" using assms by (intro call_events_ok) (simp add: calls_ok_def)
  then show ?thesis
    using assms by (auto simp: Let_def calls_ok_def cw_active_calls_def call_events_maxcalls cw_pbx_run_def
        increase_call_count_def)
qed

theorem call_limit_kept_witness:
  "cw_pbx_run (\<lambda>c. (0, c)) () (fold count_event [Start True, Run_begin, Call_end, Start True]
      \<lparr>countcalls = 0, option_maxcalls = 2, option_maxload = 0, curloadavg = 0\<rparr>)
     = (CW_PBX_CALL_LIMIT, (), \<lparr>countcalls = 2, option_maxcalls = 2, option_maxload = 0, curloadavg = 0\<rparr>)"
  using call_limit_kept [of "\<lparr>countcalls = 0, option_maxcalls = 2, option_maxload = 0, curloadavg = 0\<rparr>"
      "[Start True, Run_begin, Call_end, Start True]" "\<lambda>c. (0, c)" "()"]
  by (simp add: cw_pbx_start_state increase_call_count_def decrease_call_count_def cw_active_calls_def Let_def)

lemma failed_start:
  "option_maxload s = 0 \<Longrightarrow> 0 \<le> countcalls s \<Longrightarrow> countcalls s < option_maxcalls s \<Longrightarrow>
   cw_pbx_start False (Some c) s = (CW_PBX_FAILED, s\<lparr>countcalls := countcalls s + 1\<rparr>)"
  by (simp add: cw_pbx_start_def increase_call_count_def)

lemma failed_starts:
  "option_maxload s = 0 \<Longrightarrow> 0 \<le> countcalls s \<Longrightarrow> countcalls s + int k \<le> option_maxcalls s \<Longrightarrow>
   ((\<lambda>s. snd (cw_pbx_start False (Some c) s)) ^^ k) s = s\<lparr>countcalls := countcalls s + int k\<rparr>"
  by (induction k arbitrary: s) (simp_all add: failed_start funpow_swap1 algebra_simps del: funpow.simps(2) add: funpow_Suc_right)

text \<open>
  A call whose thread cannot be made stays counted: after as many such failures as the limit
  allows calls, no call is running, yet every further call is refused.
\<close>

theorem failed_starts_block:
  assumes "0 < option_maxcalls s" "countcalls s = 0" "option_maxload s = 0"
  shows "cw_pbx_start thread_ok (Some c) (((\<lambda>s. snd (cw_pbx_start False (Some c) s)) ^^ nat (option_maxcalls s)) s)
    = (CW_PBX_CALL_LIMIT, s\<lparr>countcalls := option_maxcalls s\<rparr>)"
  using assms by (simp add: failed_starts) (simp add: cw_pbx_start_def increase_call_count_def)

theorem failed_starts_block_witness:
  "cw_pbx_start True (Some ()) (((\<lambda>s. snd (cw_pbx_start False (Some ()) s)) ^^ 2)
      \<lparr>countcalls = 0, option_maxcalls = 2, option_maxload = 0, curloadavg = 0\<rparr>)
     = (CW_PBX_CALL_LIMIT, \<lparr>countcalls = 2, option_maxcalls = 2, option_maxload = 0, curloadavg = 0\<rparr>)"
  using failed_starts_block [of "\<lparr>countcalls = 0, option_maxcalls = 2, option_maxload = 0, curloadavg = 0\<rparr>" True "()"]
  by simp

end
