(* ===== verification/CW_Translate.thy ===== *)
theory CW_Translate
  imports CW_Time
begin

unbundle bit_operations_syntax

text \<open>
  Translation between media formats, \<open>corelib/translate.c\<close>: the matrix with the cheapest chain of
  translators from each format to each other one, the paths built from it, and the choice of the
  formats of two channels.

  Formats are bits of a word; \<open>bottom_bit\<close>, the number of the lowest bit, comes with a library and
  is an argument.  A translator is known by its address \<open>tr_addr\<close>; its private state is \<open>'p\<close>.  What
  it costs is measured with a clock, so measurements are arguments.  The loop that looks for
  cheaper paths is a loop with fuel; \<open>None\<close> is also an access outside the matrix.
\<close>

section \<open>Translators and their costs\<close>

definition MAX_FORMAT :: int where "MAX_FORMAT = 32"

record cw_translator =
  tr_addr :: nat
  tr_name :: string
  src_format :: int
  dst_format :: int
  tcost :: int

record cw_translator_dir =
  dstep :: "cw_translator option"
  dcost :: int

type_synonym tr_matrix = "int \<times> int \<Rightarrow> cw_translator_dir"

text \<open>What happens when a translator is tried for some seconds of sound.\<close>

datatype trial = No_samples | No_pvt | Sample_failed | Took int

definition calc_cost :: "(cw_translator \<Rightarrow> int \<Rightarrow> trial) \<Rightarrow> int \<Rightarrow> cw_translator \<Rightarrow> cw_translator" where
  "calc_cost clock secs t =
     (let secs = (if secs < 1 then 1 else secs) in
      case clock t secs of
        Took ms \<Rightarrow> let cost = ms sdiv secs in t\<lparr>tcost := (if cost \<le> 0 then 1 else cost)\<rparr>
      | _ \<Rightarrow> t\<lparr>tcost := 99999\<rparr>)"

section \<open>The matrix\<close>

definition formats :: "int list" where "formats = [0..MAX_FORMAT - 1]"

definition in_matrix :: "int \<Rightarrow> bool" where "in_matrix x \<longleftrightarrow> 0 \<le> x \<and> x < MAX_FORMAT"

definition empty_matrix :: tr_matrix where
  "empty_matrix = (\<lambda>_. \<lparr>dstep = None, dcost = 0\<rparr>)"

definition enter :: "cw_translator \<Rightarrow> tr_matrix \<Rightarrow> tr_matrix option" where
  "enter t m =
     (let p = (src_format t, dst_format t) in
      if \<not> (in_matrix (src_format t) \<and> in_matrix (dst_format t)) then None
      else if dstep (m p) = None \<or> dcost (m p) > tcost t
      then Some (m(p := \<lparr>dstep = Some t, dcost = tcost t\<rparr>)) else Some m)"

fun enter_all :: "cw_translator list \<Rightarrow> tr_matrix \<Rightarrow> tr_matrix option" where
  "enter_all [] m = Some m"
| "enter_all (t # ts) m = (case enter t m of None \<Rightarrow> None | Some m \<Rightarrow> enter_all ts m)"

text \<open>The three nested loops of a pass, as the list of the indices in their order.\<close>

definition triples :: "(int \<times> int \<times> int) list" where
  "triples = concat (map (\<lambda>x. concat (map (\<lambda>y. if x \<noteq> y
     then map (\<lambda>z. (x, y, z)) (filter (\<lambda>z. x \<noteq> z \<and> y \<noteq> z) formats) else []) formats)) formats)"

definition improves :: "tr_matrix \<Rightarrow> int \<times> int \<times> int \<Rightarrow> bool" where
  "improves m = (\<lambda>(x, y, z).
     dstep (m (x, y)) \<noteq> None \<and> dstep (m (y, z)) \<noteq> None \<and>
     (dstep (m (x, z)) = None \<or> dcost (m (x, y)) + dcost (m (y, z)) < dcost (m (x, z))))"

definition relax_at :: "int \<times> int \<times> int \<Rightarrow> tr_matrix \<times> nat \<Rightarrow> tr_matrix \<times> nat" where
  "relax_at = (\<lambda>(x, y, z) (m, changed).
     if improves m (x, y, z)
     then (m((x, z) := \<lparr>dstep = dstep (m (x, y)), dcost = dcost (m (x, y)) + dcost (m (y, z))\<rparr>), changed + 1)
     else (m, changed))"

fun relax :: "nat \<Rightarrow> tr_matrix \<Rightarrow> tr_matrix option" where
  "relax 0 m = None"
| "relax (Suc n) m =
     (let (m, changed) = fold relax_at triples (m, 0) in if changed = 0 then Some m else relax n m)"

definition rebuild_matrix ::
    "nat \<Rightarrow> (cw_translator \<Rightarrow> int \<Rightarrow> trial) \<Rightarrow> int \<Rightarrow> cw_translator list \<Rightarrow> (cw_translator list \<times> tr_matrix) option" where
  "rebuild_matrix n clock samples ts =
     (let ts = (if samples \<noteq> 0 then map (calc_cost clock samples) ts else ts) in
      case enter_all ts empty_matrix of
        None \<Rightarrow> None
      | Some m \<Rightarrow> map_option (Pair ts) (relax n m))"

text \<open>Registering and unregistering; the state is the list of translators and the matrix.\<close>

definition cw_register_translator ::
    "nat \<Rightarrow> (int \<Rightarrow> int) \<Rightarrow> (cw_translator \<Rightarrow> int \<Rightarrow> trial) \<Rightarrow> cw_translator \<Rightarrow> cw_translator list \<times> tr_matrix \<Rightarrow>
     (int \<times> cw_translator list \<times> tr_matrix) option" where
  "cw_register_translator n bottom_bit clock t s =
     (let t = t\<lparr>src_format := bottom_bit (src_format t), dst_format := bottom_bit (dst_format t)\<rparr> in
      if src_format t \<ge> MAX_FORMAT then Some (- 1, s)
      else if dst_format t \<ge> MAX_FORMAT then Some (- 1, s)
      else map_option (Pair 0) (rebuild_matrix n clock 0 (calc_cost clock 1 t # fst s)))"

fun remove_tr :: "nat \<Rightarrow> cw_translator list \<Rightarrow> cw_translator list" where
  "remove_tr a [] = []"
| "remove_tr a (u # us) = (if tr_addr u = a then us else u # remove_tr a us)"

definition cw_unregister_translator ::
    "nat \<Rightarrow> (cw_translator \<Rightarrow> int \<Rightarrow> trial) \<Rightarrow> cw_translator \<Rightarrow> cw_translator list \<times> tr_matrix \<Rightarrow>
     (int \<times> cw_translator list \<times> tr_matrix) option" where
  "cw_unregister_translator n clock t s =
     map_option (Pair (if tr_addr t \<in> tr_addr ` set (fst s) then 0 else - 1))
       (rebuild_matrix n clock 0 (remove_tr (tr_addr t) (fst s)))"

section \<open>Paths\<close>

record 'p cw_trans_pvt =
  pv_step :: cw_translator
  pv_state :: 'p
  nextin :: timeval
  nextout :: timeval

text \<open>
  \<open>mem\<close> is which allocations succeed and \<open>newpvt\<close> makes the state of a translator.  The empty list is
  the result \<open>NULL\<close>; what was built so far has then been freed, except when an entry is missing.
\<close>

fun build_steps ::
    "nat \<Rightarrow> tr_matrix \<Rightarrow> (nat \<Rightarrow> bool) \<Rightarrow> (cw_translator \<Rightarrow> 'p option) \<Rightarrow> int \<Rightarrow> int \<Rightarrow> 'p cw_trans_pvt list \<Rightarrow>
     'p cw_trans_pvt list option" where
  "build_steps 0 m mem newpvt source dest path = None"
| "build_steps (Suc n) m mem newpvt source dest path =
     (if source = dest then Some path
      else if \<not> (in_matrix source \<and> in_matrix dest) then None
      else case dstep (m (source, dest)) of
        None \<Rightarrow> Some []
      | Some t \<Rightarrow>
          if \<not> mem (length path) then Some []
          else case newpvt t of
            None \<Rightarrow> Some []
          | Some p \<Rightarrow> build_steps n m mem newpvt (dst_format t) dest
              (path @ [\<lparr>pv_step = t, pv_state = p, nextin = cw_tv 0 0, nextout = cw_tv 0 0\<rparr>]))"

definition cw_translator_build_path ::
    "nat \<Rightarrow> (int \<Rightarrow> int) \<Rightarrow> tr_matrix \<Rightarrow> (nat \<Rightarrow> bool) \<Rightarrow> (cw_translator \<Rightarrow> 'p option) \<Rightarrow> int \<Rightarrow> int \<Rightarrow>
     'p cw_trans_pvt list option" where
  "cw_translator_build_path n bottom_bit m mem newpvt dest source =
     build_steps n m mem newpvt (bottom_bit source) (bottom_bit dest) []"

section \<open>Chains of translators\<close>

fun chain :: "int \<Rightarrow> cw_translator list \<Rightarrow> int \<Rightarrow> bool" where
  "chain x [] z \<longleftrightarrow> x = z"
| "chain x (t # ts) z \<longleftrightarrow> src_format t = x \<and> chain (dst_format t) ts z"

definition cost_of :: "cw_translator list \<Rightarrow> int" where
  "cost_of ts = sum_list (map tcost ts)"

lemma cost_of_simps [simp]:
  "cost_of [] = 0" "cost_of (t # ts) = tcost t + cost_of ts" "cost_of (ts @ us) = cost_of ts + cost_of us"
  by (simp_all add: cost_of_def)

lemma chain_append: "chain x ts y \<Longrightarrow> chain y us z \<Longrightarrow> chain x (ts @ us) z"
  by (induction ts arbitrary: x) auto

definition translators_ok :: "cw_translator list \<Rightarrow> bool" where
  "translators_ok ts \<longleftrightarrow> (\<forall>t\<in>set ts. in_matrix (src_format t) \<and> in_matrix (dst_format t) \<and> 1 \<le> tcost t)"

lemma cost_of_nonneg: "translators_ok ts \<Longrightarrow> set us \<subseteq> set ts \<Longrightarrow> 0 \<le> cost_of us"
  by (induction us) (force simp: translators_ok_def)+

text \<open>Every entry of the matrix stands for a chain of translators with its cost.\<close>

definition real_entries :: "cw_translator list \<Rightarrow> tr_matrix \<Rightarrow> bool" where
  "real_entries ts m \<longleftrightarrow> (\<forall>x z t. dstep (m (x, z)) = Some t \<longrightarrow>
     in_matrix x \<and> in_matrix z \<and>
     (\<exists>us. set (t # us) \<subseteq> set ts \<and> chain x (t # us) z \<and> dcost (m (x, z)) = cost_of (t # us)))"

text \<open>Later matrices have at least the entries of earlier ones, at no higher cost.\<close>

definition better :: "tr_matrix \<Rightarrow> tr_matrix \<Rightarrow> bool" where
  "better m m' \<longleftrightarrow> (\<forall>p. dstep (m p) \<noteq> None \<longrightarrow> dstep (m' p) \<noteq> None \<and> dcost (m' p) \<le> dcost (m p))"

lemma better_refl [simp]: "better m m"
  by (simp add: better_def)

lemma better_trans: "better m m' \<Longrightarrow> better m' m'' \<Longrightarrow> better m m''"
  unfolding better_def by (meson order_trans)

lemma real_entriesD:
  assumes "real_entries ts m" "dstep (m (x, z)) = Some t"
  obtains us where "in_matrix x" "in_matrix z" "set (t # us) \<subseteq> set ts" "chain x (t # us) z" "dcost (m (x, z)) = cost_of (t # us)"
  using assms unfolding real_entries_def by blast

lemma enter_ok:
  assumes "translators_ok ts" "t \<in> set ts" "real_entries ts m"
  obtains m' where "enter t m = Some m'" "real_entries ts m'" "better m m'"
    "dstep (m' (src_format t, dst_format t)) \<noteq> None" "dcost (m' (src_format t, dst_format t)) \<le> tcost t"
proof -
  let ?p = "(src_format t, dst_format t)"
  have r: "in_matrix (src_format t)" "in_matrix (dst_format t)"
    using assms(1,2) by (auto simp: translators_ok_def)
  show thesis
  proof (cases "dstep (m ?p) = None \<or> dcost (m ?p) > tcost t")
    case True
    let ?m = "m(?p := \<lparr>dstep = Some t, dcost = tcost t\<rparr>)"
    have "\<exists>us. set (t # us) \<subseteq> set ts \<and> chain (src_format t) (t # us) (dst_format t) \<and> tcost t = cost_of (t # us)"
      using assms(2) by (intro exI [of _ "[]"]) simp
    then have "real_entries ts ?m" using assms(3) r unfolding real_entries_def by simp
    moreover have "better m ?m" using True by (auto simp: better_def)
    moreover have "enter t m = Some ?m" using True r by (simp add: enter_def)
    ultimately show thesis using that by simp
  next
    case False
    then show thesis using that [of m] r assms(3) by (simp add: enter_def)
  qed
qed

definition covers :: "cw_translator list \<Rightarrow> tr_matrix \<Rightarrow> bool" where
  "covers ts m \<longleftrightarrow> (\<forall>t\<in>set ts. dstep (m (src_format t, dst_format t)) \<noteq> None \<and>
     dcost (m (src_format t, dst_format t)) \<le> tcost t)"

lemma covers_better: "covers ts m \<Longrightarrow> better m m' \<Longrightarrow> covers ts m'"
  unfolding covers_def better_def by (meson order_trans)

lemma enter_all_ok:
  assumes "translators_ok ts" "set us \<subseteq> set ts" "real_entries ts m"
  shows "\<exists>m'. enter_all us m = Some m' \<and> real_entries ts m' \<and> better m m' \<and> covers us m'"
  using assms(2,3)
proof (induction us arbitrary: m)
  case Nil
  then show ?case by (simp add: covers_def)
next
  case (Cons u us)
  then have "u \<in> set ts" by simp
  then obtain m1 where m1: "enter u m = Some m1" "real_entries ts m1" "better m m1"
    "dstep (m1 (src_format u, dst_format u)) \<noteq> None" "dcost (m1 (src_format u, dst_format u)) \<le> tcost u"
    using enter_ok [OF assms(1) _ Cons.prems(2)] by blast
  obtain m2 where m2: "enter_all us m1 = Some m2" "real_entries ts m2" "better m1 m2" "covers us m2"
    using Cons.IH [OF _ m1(2)] Cons.prems(1) by auto
  have "covers [u] m2" using covers_better [OF _ m2(3), of "[u]"] m1(4,5) by (simp add: covers_def)
  then show ?case
    using m1 m2 better_trans by (auto simp: covers_def)
qed

lemma real_empty [simp]: "real_entries ts empty_matrix"
  by (simp add: real_entries_def empty_matrix_def)

section \<open>One pass\<close>

lemma relax_at_cases:
  obtains "improves m (x, y, z)" "relax_at (x, y, z) (m, c) =
      (m((x, z) := \<lparr>dstep = dstep (m (x, y)), dcost = dcost (m (x, y)) + dcost (m (y, z))\<rparr>), c + 1)"
  | "\<not> improves m (x, y, z)" "relax_at (x, y, z) (m, c) = (m, c)"
  by (cases "improves m (x, y, z)") (auto simp: relax_at_def)

lemma relax_at_real:
  assumes "real_entries ts m" "relax_at (x, y, z) (m, c) = (m', c')"
  shows "real_entries ts m' \<and> better m m'"
proof (cases "improves m (x, y, z)")
  case True
  obtain t u where t: "dstep (m (x, y)) = Some t" and u: "dstep (m (y, z)) = Some u"
    using True by (auto simp: improves_def)
  obtain us where us: "in_matrix x" "set (t # us) \<subseteq> set ts" "chain x (t # us) y" "dcost (m (x, y)) = cost_of (t # us)"
    using real_entriesD [OF assms(1) t] by metis
  obtain vs where vs: "in_matrix z" "set (u # vs) \<subseteq> set ts" "chain y (u # vs) z" "dcost (m (y, z)) = cost_of (u # vs)"
    using real_entriesD [OF assms(1) u] by metis
  have m': "m' = m((x, z) := \<lparr>dstep = Some t, dcost = dcost (m (x, y)) + dcost (m (y, z))\<rparr>)"
    using assms(2) True t by (simp add: relax_at_def)
  have "\<exists>ws. set (t # ws) \<subseteq> set ts \<and> chain x (t # ws) z \<and> dcost (m (x, y)) + dcost (m (y, z)) = cost_of (t # ws)"
    using us vs chain_append [OF us(3) vs(3)] by (intro exI [of _ "us @ u # vs"]) auto
  then have "real_entries ts m'" using assms(1) us(1) vs(1) by (auto simp: real_entries_def m')
  moreover have "better m m'" using True by (auto simp: better_def improves_def m')
  ultimately show ?thesis ..
next
  case False
  then show ?thesis using assms by (simp add: relax_at_def)
qed

lemma fold_relax_real:
  "real_entries ts m \<Longrightarrow> fold relax_at trs (m, c) = (m', c') \<Longrightarrow> real_entries ts m' \<and> better m m'"
proof (induction trs arbitrary: m c)
  case (Cons tr trs)
  obtain x y z where tr: "tr = (x, y, z)" by (cases tr)
  obtain m1 c1 where m1: "relax_at (x, y, z) (m, c) = (m1, c1)" by fastforce
  show ?case
    using Cons.IH [of m1 c1] relax_at_real [OF Cons.prems(1) m1] Cons.prems(2) better_trans
    by (auto simp: tr m1)
qed simp

lemma fold_relax_count:
  "fold relax_at trs (m, c) = (m', c') \<Longrightarrow> c \<le> c' \<and> (c' = c \<longrightarrow> m' = m \<and> (\<forall>tr\<in>set trs. \<not> improves m tr))"
proof (induction trs arbitrary: m c)
  case (Cons tr trs)
  obtain x y z where tr: "tr = (x, y, z)" by (cases tr)
  show ?case
    using Cons.IH Cons.prems
    by (cases "improves m tr") (fastforce simp: tr relax_at_def)+
qed simp

section \<open>The loop ends\<close>

definition squares :: "(int \<times> int) set" where
  "squares = set formats \<times> set formats"

lemma finite_squares [simp]: "finite squares"
  by (simp add: squares_def)

lemma in_formats: "x \<in> set formats \<longleftrightarrow> in_matrix x"
  by (auto simp: formats_def in_matrix_def)

definition missing :: "tr_matrix \<Rightarrow> nat" where
  "missing m = card {p \<in> squares. dstep (m p) = None}"

definition total :: "tr_matrix \<Rightarrow> nat" where
  "total m = nat (\<Sum>p\<in>squares. dcost (m p))"

definition costs_nonneg :: "tr_matrix \<Rightarrow> bool" where
  "costs_nonneg m \<longleftrightarrow> (\<forall>p. 0 \<le> dcost (m p))"

definition progress :: "(tr_matrix \<times> tr_matrix) set" where
  "progress = measures [missing, total]"

lemma wf_progress: "wf progress"
  by (simp add: progress_def)

lemma relax_at_progress:
  assumes "costs_nonneg m" "improves m (x, y, z)" "in_matrix x" "in_matrix z"
    and m': "m' = m((x, z) := \<lparr>dstep = dstep (m (x, y)), dcost = dcost (m (x, y)) + dcost (m (y, z))\<rparr>)"
  shows "(m', m) \<in> progress \<and> costs_nonneg m'"
proof -
  have p: "(x, z) \<in> squares" using assms(3,4) by (simp add: squares_def in_formats)
  have nn: "costs_nonneg m'" using assms(1) by (simp add: costs_nonneg_def m')
  show ?thesis
  proof (cases "dstep (m (x, z)) = None")
    case True
    have "{q \<in> squares. dstep (m' q) = None} \<subset> {q \<in> squares. dstep (m q) = None}"
      using True p assms(2) by (auto simp: m' improves_def)
    then have "missing m' < missing m" unfolding missing_def by (intro psubset_card_mono) auto
    then show ?thesis using nn by (simp add: progress_def)
  next
    case False
    have "{q \<in> squares. dstep (m' q) = None} = {q \<in> squares. dstep (m q) = None}"
      using False assms(2) by (auto simp: m' improves_def)
    then have "missing m' = missing m" by (simp add: missing_def)
    moreover have lt: "(\<Sum>q\<in>squares. dcost (m' q)) < (\<Sum>q\<in>squares. dcost (m q))"
      using False assms(2) p by (intro sum_strict_mono_ex1) (auto simp: m' improves_def intro!: bexI [of _ "(x, z)"])
    moreover have "0 \<le> (\<Sum>q\<in>squares. dcost (m' q))"
      using nn unfolding costs_nonneg_def by (intro sum_nonneg) blast
    ultimately have "total m' < total m" by (simp add: total_def nat_less_eq_zless)
    then show ?thesis using nn \<open>missing m' = missing m\<close> by (simp add: progress_def)
  qed
qed

lemma fold_relax_progress:
  "costs_nonneg m \<Longrightarrow> (\<forall>(x, y, z)\<in>set trs. in_matrix x \<and> in_matrix z) \<Longrightarrow> fold relax_at trs (m, c) = (m', c') \<Longrightarrow>
   costs_nonneg m' \<and> (c' \<noteq> c \<longrightarrow> (m', m) \<in> progress)"
proof (induction trs arbitrary: m c)
  case (Cons tr trs)
  obtain x y z where tr: "tr = (x, y, z)" by (cases tr)
  have xz: "in_matrix x" "in_matrix z" and rest: "\<forall>(x, y, z)\<in>set trs. in_matrix x \<and> in_matrix z"
    using Cons.prems(2) by (auto simp: tr)
  show ?case
  proof (cases "improves m (x, y, z)")
    case True
    define m1 where "m1 = m((x, z) := \<lparr>dstep = dstep (m (x, y)), dcost = dcost (m (x, y)) + dcost (m (y, z))\<rparr>)"
    have p: "(m1, m) \<in> progress" "costs_nonneg m1"
      using relax_at_progress [OF Cons.prems(1) True xz m1_def] by simp_all
    have f: "fold relax_at trs (m1, c + 1) = (m', c')"
      using Cons.prems(3) True by (simp add: tr relax_at_def m1_def)
    have "c' = c + 1 \<Longrightarrow> m' = m1" using fold_relax_count [OF f] by simp
    then show ?thesis
      using Cons.IH [OF p(2) rest f] p(1) by (auto simp: progress_def)
  next
    case False
    then show ?thesis using Cons by (simp add: tr relax_at_def)
  qed
qed simp

lemma triples_set:
  "(x, y, z) \<in> set triples \<longleftrightarrow> in_matrix x \<and> in_matrix y \<and> in_matrix z \<and> x \<noteq> y \<and> x \<noteq> z \<and> y \<noteq> z"
proof
  assume r: "in_matrix x \<and> in_matrix y \<and> in_matrix z \<and> x \<noteq> y \<and> x \<noteq> z \<and> y \<noteq> z"
  then have "(x, y, z) \<in> (\<lambda>z. (x, y, z)) ` {c \<in> set formats. x \<noteq> c \<and> y \<noteq> c}" by (simp add: in_formats image_iff)
  moreover have "x \<in> set formats" "y \<in> set formats \<inter> {b. x \<noteq> b}" using r by (simp_all add: in_formats)
  ultimately show "(x, y, z) \<in> set triples" by (simp add: triples_def) blast
qed (auto simp: triples_def in_formats split: if_splits)

lemma triples_matrix: "\<forall>(x, y, z)\<in>set triples. in_matrix x \<and> in_matrix z"
  by (clarsimp simp: triples_set)

lemma relax_ends: "costs_nonneg m \<Longrightarrow> \<exists>n m'. relax n m = Some m'"
proof (induction m rule: wf_induct_rule [OF wf_progress])
  case (1 m)
  obtain m1 c1 where f: "fold relax_at triples (m, 0) = (m1, c1)" by fastforce
  have p: "costs_nonneg m1" "c1 \<noteq> 0 \<Longrightarrow> (m1, m) \<in> progress"
    using fold_relax_progress [OF "1.prems" _ f] triples_matrix by auto
  show ?case
  proof (cases "c1 = 0")
    case True
    then have "relax (Suc 0) m = Some m1" by (simp add: f)
    then show ?thesis by blast
  next
    case False
    then obtain n m' where "relax n m1 = Some m'" using "1.IH" [OF p(2) p(1)] by blast
    then have "relax (Suc n) m = Some m'" using False by (simp add: f)
    then show ?thesis by blast
  qed
qed

lemma relax_fixpoint:
  "relax n m = Some m' \<Longrightarrow> real_entries ts m \<Longrightarrow>
   real_entries ts m' \<and> better m m' \<and> (\<forall>tr\<in>set triples. \<not> improves m' tr)"
proof (induction n arbitrary: m)
  case (Suc n)
  obtain m1 c1 where f: "fold relax_at triples (m, 0) = (m1, c1)" by fastforce
  note r = fold_relax_real [OF Suc.prems(2) f]
  show ?case
  proof (cases "c1 = 0")
    case True
    then show ?thesis using Suc.prems fold_relax_count [OF f] by (simp add: f)
  next
    case False
    then have "relax n m1 = Some m'" using Suc.prems(1) by (simp add: f)
    then show ?thesis using Suc.IH r better_trans by blast
  qed
qed simp

section \<open>The matrix is optimal\<close>

definition closed_matrix :: "cw_translator list \<Rightarrow> tr_matrix \<Rightarrow> bool" where
  "closed_matrix ts m \<longleftrightarrow> real_entries ts m \<and> covers ts m \<and> (\<forall>tr\<in>set triples. \<not> improves m tr)"

lemma triangle:
  assumes "closed_matrix ts m" "x \<noteq> y" "x \<noteq> z" "y \<noteq> z" "dstep (m (x, y)) \<noteq> None" "dstep (m (y, z)) \<noteq> None"
  shows "dstep (m (x, z)) \<noteq> None \<and> dcost (m (x, z)) \<le> dcost (m (x, y)) + dcost (m (y, z))"
proof -
  have "in_matrix x" "in_matrix y" "in_matrix z"
    using assms(1,5,6) by (auto simp: closed_matrix_def real_entries_def)
  then have "\<not> improves m (x, y, z)"
    using assms by (auto simp: closed_matrix_def triples_set)
  then show ?thesis using assms(5,6) by (auto simp: improves_def)
qed

lemma closed_optimal:
  assumes "translators_ok ts" "closed_matrix ts m"
  shows "set us \<subseteq> set ts \<Longrightarrow> chain x us z \<Longrightarrow> x \<noteq> z \<Longrightarrow>
    dstep (m (x, z)) \<noteq> None \<and> dcost (m (x, z)) \<le> cost_of us"
proof (induction us arbitrary: x)
  case (Cons t us)
  have t: "1 \<le> tcost t" "dstep (m (x, dst_format t)) \<noteq> None" "dcost (m (x, dst_format t)) \<le> tcost t"
    using Cons.prems assms by (auto simp: translators_ok_def closed_matrix_def covers_def)
  have us: "0 \<le> cost_of us" using cost_of_nonneg [OF assms(1)] Cons.prems(1) by simp
  show ?case
  proof (cases "dst_format t = x \<or> dst_format t = z")
    case True
    then show ?thesis using Cons t us by fastforce
  next
    case False
    then have i: "dstep (m (dst_format t, z)) \<noteq> None" "dcost (m (dst_format t, z)) \<le> cost_of us"
      using Cons.IH [of "dst_format t"] Cons.prems by auto
    show ?thesis using triangle [OF assms(2) _ Cons.prems(3) _ t(2) i(1)] False t(3) i(2) by auto
  qed
qed simp

lemma enter_all_nonneg:
  "costs_nonneg m \<Longrightarrow> \<forall>t\<in>set us. 0 \<le> tcost t \<Longrightarrow> enter_all us m = Some m' \<Longrightarrow> costs_nonneg m'"
proof (induction us arbitrary: m)
  case (Cons u us)
  then obtain m1 where m1: "enter u m = Some m1" "enter_all us m1 = Some m'"
    by (auto split: option.splits)
  have "costs_nonneg m1"
    using m1(1) Cons.prems by (auto simp: enter_def costs_nonneg_def Let_def split: if_splits)
  then show ?case using Cons.IH Cons.prems(2) m1(2) by simp
qed simp

lemma rebuild_cases:
  assumes "translators_ok ts"
  obtains m0 where "enter_all ts empty_matrix = Some m0" "real_entries ts m0" "covers ts m0" "costs_nonneg m0"
proof -
  obtain m0 where m0: "enter_all ts empty_matrix = Some m0" "real_entries ts m0" "covers ts m0"
    using enter_all_ok [OF assms subset_refl real_empty] by blast
  moreover have "costs_nonneg m0"
    by (rule enter_all_nonneg [OF _ _ m0(1)])
      (use assms in \<open>auto simp: costs_nonneg_def empty_matrix_def translators_ok_def\<close>)
  ultimately show thesis by (rule that)
qed

lemma rebuild_returns:
  assumes "translators_ok ts"
  shows "\<exists>n m. rebuild_matrix n clock 0 ts = Some (ts, m)"
proof -
  obtain m0 where m0: "enter_all ts empty_matrix = Some m0" "costs_nonneg m0"
    by (rule rebuild_cases [OF assms])
  then obtain n m where "relax n m0 = Some m" using relax_ends by blast
  then have "rebuild_matrix n clock 0 ts = Some (ts, m)" using m0 by (simp add: rebuild_matrix_def)
  then show ?thesis by blast
qed

lemma rebuild_closed:
  assumes "translators_ok ts" "rebuild_matrix n clock 0 ts = Some (us, m)"
  shows "us = ts \<and> closed_matrix ts m"
proof -
  obtain m0 where m0: "enter_all ts empty_matrix = Some m0" "real_entries ts m0" "covers ts m0"
    by (rule rebuild_cases [OF assms(1)])
  then have "relax n m0 = Some m" "us = ts" using assms(2) by (auto simp: rebuild_matrix_def)
  then show ?thesis
    using relax_fixpoint [OF _ m0(2)] covers_better [OF m0(3)] by (auto simp: closed_matrix_def)
qed

definition connected :: "cw_translator list \<Rightarrow> int \<Rightarrow> int \<Rightarrow> bool" where
  "connected ts x z \<longleftrightarrow> (\<exists>us. set us \<subseteq> set ts \<and> chain x us z)"

lemma closed_step:
  assumes "translators_ok ts" "closed_matrix ts m" "x \<noteq> z" "dstep (m (x, z)) = Some t"
  obtains us where "src_format t = x" "t \<in> set ts" "set us \<subseteq> set ts" "chain (dst_format t) us z"
    "dcost (m (x, z)) = tcost t + cost_of us"
  using assms(2,4) unfolding closed_matrix_def by (auto elim!: real_entriesD)

lemma closed_chain:
  assumes "translators_ok ts" "closed_matrix ts m" "x \<noteq> z" "dstep (m (x, z)) \<noteq> None"
  shows "\<exists>us. set us \<subseteq> set ts \<and> chain x us z \<and> dcost (m (x, z)) = cost_of us"
proof -
  obtain t where t: "dstep (m (x, z)) = Some t" using assms(4) by blast
  show ?thesis
    by (rule closed_step [OF assms(1-3) t]) (rule exI [of _ "t # _"], auto)
qed

text \<open>
  C32. Rebuilding the matrix always ends, and then it is optimal: between two formats there is an
  entry exactly if some chain of registered translators leads from one to the other, its
  cost is the cost of such a chain, and no chain is cheaper.
\<close>

theorem matrix_optimal:
  assumes "translators_ok ts"
  shows "(\<exists>n m. rebuild_matrix n clock 0 ts = Some (ts, m)) \<and>
    (\<forall>n us m x z. rebuild_matrix n clock 0 ts = Some (us, m) \<and> x \<noteq> z \<longrightarrow>
       (dstep (m (x, z)) \<noteq> None \<longleftrightarrow> connected ts x z) \<and>
       (connected ts x z \<longrightarrow>
          (\<exists>us. set us \<subseteq> set ts \<and> chain x us z \<and> dcost (m (x, z)) = cost_of us) \<and>
          (\<forall>us. set us \<subseteq> set ts \<and> chain x us z \<longrightarrow> dcost (m (x, z)) \<le> cost_of us)))"
proof (intro conjI allI impI)
  show "\<exists>n m. rebuild_matrix n clock 0 ts = Some (ts, m)" by (rule rebuild_returns [OF assms])
next
  fix n us m and x z :: int assume "rebuild_matrix n clock 0 ts = Some (us, m) \<and> x \<noteq> z"
  then have c: "closed_matrix ts m" and xz: "x \<noteq> z" using rebuild_closed [OF assms] by auto
  note e = closed_chain [OF assms c xz]
  have "connected ts x z \<Longrightarrow> dstep (m (x, z)) \<noteq> None"
    using closed_optimal [OF assms c _ _ xz] unfolding connected_def by blast
  then show iff: "dstep (m (x, z)) \<noteq> None \<longleftrightarrow> connected ts x z"
    using e unfolding connected_def by blast
  { assume "connected ts x z"
    then show "\<exists>us. set us \<subseteq> set ts \<and> chain x us z \<and> dcost (m (x, z)) = cost_of us"
      using iff e by auto }
  { fix us assume "set us \<subseteq> set ts \<and> chain x us z"
    then show "dcost (m (x, z)) \<le> cost_of us" using closed_optimal [OF assms c _ _ xz] by blast }
qed

section \<open>Paths follow the matrix\<close>

lemma build_steps_optimal:
  assumes "translators_ok ts" "closed_matrix ts m" "\<And>k. mem k" "\<And>t. newpvt t \<noteq> None" "in_matrix z"
  shows "x \<noteq> z \<Longrightarrow> dstep (m (x, z)) \<noteq> None \<Longrightarrow> nat (dcost (m (x, z))) < n \<Longrightarrow>
    \<exists>ps. build_steps n m mem newpvt x z acc = Some (acc @ ps) \<and> set (map pv_step ps) \<subseteq> set ts \<and>
      chain x (map pv_step ps) z \<and> cost_of (map pv_step ps) \<le> dcost (m (x, z))"
proof (induction n arbitrary: x acc)
  case (Suc n)
  obtain t where t: "dstep (m (x, z)) = Some t" using Suc.prems(2) by blast
  obtain us where us: "src_format t = x" "t \<in> set ts" "set us \<subseteq> set ts" "chain (dst_format t) us z"
    "dcost (m (x, z)) = tcost t + cost_of us"
    by (rule closed_step [OF assms(1,2) Suc.prems(1) t])
  obtain p where p: "newpvt t = Some p" using assms(4) [of t] by blast
  define a where "a = \<lparr>pv_step = t, pv_state = p, nextin = cw_tv 0 0, nextout = cw_tv 0 0\<rparr>"
  have tc: "1 \<le> tcost t" "in_matrix x" "0 \<le> cost_of us"
    using assms(1) us cost_of_nonneg [OF assms(1) us(3)] by (auto simp: translators_ok_def)
  have b: "build_steps (Suc n) m mem newpvt x z acc = build_steps n m mem newpvt (dst_format t) z (acc @ [a])"
    using Suc.prems(1) tc(2) assms(3,5) t p by (simp add: a_def)
  show ?case
  proof (cases "dst_format t = z")
    case True
    have "0 < n" using Suc.prems(3) us(5) tc by simp
    then obtain n' where "n = Suc n'" by (cases n) auto
    then have "build_steps (Suc n) m mem newpvt x z acc = Some (acc @ [a])" using b True by simp
    then show ?thesis using us True tc by (intro exI [of _ "[a]"]) (simp add: a_def)
  next
    case False
    note o = closed_optimal [OF assms(1,2) us(3,4) False]
    then have "dcost (m (dst_format t, z)) \<le> cost_of us" by blast
    then have "nat (dcost (m (dst_format t, z))) < n" using Suc.prems(3) us(5) tc(1,3) by linarith
    then obtain ps where "build_steps n m mem newpvt (dst_format t) z (acc @ [a]) = Some ((acc @ [a]) @ ps)"
      "set (map pv_step ps) \<subseteq> set ts" "chain (dst_format t) (map pv_step ps) z"
      "cost_of (map pv_step ps) \<le> dcost (m (dst_format t, z))"
      using Suc.IH [OF False] o by blast
    then show ?thesis using b us o by (intro exI [of _ "a # ps"]) (auto simp: a_def)
  qed
qed simp

text \<open>
  C33. A path built between two different formats is a cheapest chain of registered translators when
  there is one, and \<open>NULL\<close> when there is none; as many rounds as the cost of the entry are enough.
\<close>

theorem path_is_cheapest:
  assumes "translators_ok ts" "rebuild_matrix k clock 0 ts = Some (us, m)"
    and "\<And>k. mem k" "\<And>t. newpvt t \<noteq> None" "bottom_bit source = x" "bottom_bit dest = z"
    and "in_matrix x" "in_matrix z" "x \<noteq> z" "nat (dcost (m (x, z))) < n"
  shows "\<exists>path. cw_translator_build_path n bottom_bit m mem newpvt dest source = Some path \<and>
    (if connected ts x z
     then set (map pv_step path) \<subseteq> set ts \<and> chain x (map pv_step path) z \<and>
       (\<forall>vs. set vs \<subseteq> set ts \<and> chain x vs z \<longrightarrow> cost_of (map pv_step path) \<le> cost_of vs)
     else path = [])"
proof -
  have c: "closed_matrix ts m" using rebuild_closed [OF assms(1,2)] by simp
  note o = closed_optimal [OF assms(1) c _ _ assms(9)]
  show ?thesis
  proof (cases "connected ts x z")
    case True
    then have s: "dstep (m (x, z)) \<noteq> None" using o by (auto simp: connected_def)
    obtain ps where "build_steps n m mem newpvt x z [] = Some ps" "set (map pv_step ps) \<subseteq> set ts"
      "chain x (map pv_step ps) z" "cost_of (map pv_step ps) \<le> dcost (m (x, z))"
      using build_steps_optimal [where mem = mem and newpvt = newpvt and acc = "[]",
          OF assms(1) c assms(3,4,8,9) s assms(10)] by auto
    moreover from this o have "cost_of (map pv_step ps) \<le> cost_of vs" if "set vs \<subseteq> set ts" "chain x vs z" for vs
      using that by (meson order_trans)
    ultimately show ?thesis using True assms(5,6) by (simp add: cw_translator_build_path_def)
  next
    case False
    have "dstep (m (x, z)) = None"
      using closed_chain [OF assms(1) c assms(9)] False unfolding connected_def by blast
    then have "build_steps n m mem newpvt x z [] = Some []" using assms by (cases n) auto
    then show ?thesis using False assms(5,6) by (simp add: cw_translator_build_path_def)
  qed
qed

definition ulaw_lin :: cw_translator where
  "ulaw_lin = \<lparr>tr_addr = 1, tr_name = ''ulawtolin'', src_format = 2, dst_format = 6, tcost = 1\<rparr>"

definition lin_alaw :: cw_translator where
  "lin_alaw = \<lparr>tr_addr = 2, tr_name = ''lintoalaw'', src_format = 6, dst_format = 3, tcost = 2\<rparr>"

definition ulaw_alaw :: cw_translator where
  "ulaw_alaw = \<lparr>tr_addr = 3, tr_name = ''ulawtoalaw'', src_format = 2, dst_format = 3, tcost = 9\<rparr>"

lemma sample_translators: "translators_ok [ulaw_lin, lin_alaw, ulaw_alaw]"
  by (simp add: translators_ok_def in_matrix_def MAX_FORMAT_def ulaw_lin_def lin_alaw_def ulaw_alaw_def)

lemma sample_chain: "chain 2 [ulaw_lin, lin_alaw] 3" "cost_of [ulaw_lin, lin_alaw] = 3"
  by (simp_all add: ulaw_lin_def lin_alaw_def)

abbreviation sample_list :: "cw_translator list" where
  "sample_list \<equiv> [ulaw_lin, lin_alaw, ulaw_alaw]"

theorem matrix_optimal_witness:
  "\<exists>n m. rebuild_matrix n (\<lambda>t s. Took 5) 0 sample_list = Some (sample_list, m) \<and>
     dstep (m (2, 3)) \<noteq> None \<and> dcost (m (2, 3)) \<le> 3"
proof -
  note o = matrix_optimal [OF sample_translators, of "\<lambda>t s. Took 5"]
  obtain n m where m: "rebuild_matrix n (\<lambda>t s. Took 5) 0 sample_list = Some (sample_list, m)"
    using o by blast
  have c: "set [ulaw_lin, lin_alaw] \<subseteq> set sample_list" by simp
  then have "connected sample_list 2 3" unfolding connected_def using sample_chain(1) by blast
  then have "dstep (m (2, 3)) \<noteq> None \<and> dcost (m (2, 3)) \<le> cost_of [ulaw_lin, lin_alaw]"
    using o m c sample_chain(1) by (metis zero_neq_one numeral_eq_iff semiring_norm(88))
  then show ?thesis using m sample_chain(2) by auto
qed

theorem path_is_cheapest_witness:
  "\<exists>k m n path. rebuild_matrix k (\<lambda>t s. Took 5) 0 sample_list = Some (sample_list, m) \<and>
     cw_translator_build_path n (\<lambda>w. if w = 4 then 2 else 3) m (\<lambda>_. True) Some 8 4 = Some path \<and>
     chain 2 (map pv_step path) 3 \<and> cost_of (map pv_step path) \<le> 3"
proof -
  obtain k m where m: "rebuild_matrix k (\<lambda>t s. Took 5) 0 sample_list = Some (sample_list, m)"
    using rebuild_returns [OF sample_translators] by blast
  have c: "set [ulaw_lin, lin_alaw] \<subseteq> set sample_list" by simp
  then have conn: "connected sample_list 2 3" unfolding connected_def using sample_chain(1) by blast
  obtain path where p: "cw_translator_build_path (Suc (nat (dcost (m (2, 3))))) (\<lambda>w. if w = 4 then 2 else 3) m
      (\<lambda>_. True) Some 8 4 = Some path" "chain 2 (map pv_step path) 3"
    "\<forall>vs. set vs \<subseteq> set sample_list \<and> chain 2 vs 3 \<longrightarrow> cost_of (map pv_step path) \<le> cost_of vs"
    using path_is_cheapest [OF sample_translators m, of "\<lambda>_. True" Some "\<lambda>w. if w = 4 then 2 else 3" 4 2 8 3
        "Suc (nat (dcost (m (2, 3))))"] conn by (auto simp: in_matrix_def MAX_FORMAT_def)
  moreover have "cost_of (map pv_step path) \<le> 3"
    using p(3) c sample_chain by metis
  ultimately show ?thesis using m by blast
qed

section \<open>The choice of formats\<close>

text \<open>
  \<open>cw_translator_best_choice\<close> on the formats of a destination and of a source.  A format is a bit; the
  word with the highest bit is negative as an \<open>int\<close>.
\<close>

definition INT_MAX :: int where "INT_MAX = 2147483647"

definition fbit :: "int \<Rightarrow> u32" where "fbit x = push_bit (nat x) 1"

record choice =
  best :: u32
  bestdst :: u32
  besttime :: int

definition no_choice :: choice where
  "no_choice = \<lparr>best = - 1, bestdst = 0, besttime = INT_MAX\<rparr>"

definition take_common :: "u32 \<Rightarrow> int \<Rightarrow> choice \<Rightarrow> choice" where
  "take_common common y c =
     (if fbit y AND common \<noteq> 0 then \<lparr>best = fbit y, bestdst = fbit y, besttime = 0\<rparr> else c)"

definition take_cheaper :: "tr_matrix \<Rightarrow> u32 \<Rightarrow> u32 \<Rightarrow> int \<times> int \<Rightarrow> choice \<Rightarrow> choice" where
  "take_cheaper m dst srcs = (\<lambda>(y, x) c.
     if fbit y AND dst \<noteq> 0 \<and> srcs AND fbit x \<noteq> 0 \<and> dstep (m (x, y)) \<noteq> None \<and> dcost (m (x, y)) < besttime c
     then \<lparr>best = fbit x, bestdst = fbit y, besttime = dcost (m (x, y))\<rparr> else c)"

definition cw_translator_best_choice :: "tr_matrix \<Rightarrow> u32 \<Rightarrow> u32 \<Rightarrow> int \<times> u32 \<times> u32" where
  "cw_translator_best_choice m dst srcs =
     (let common = dst AND srcs;
          c = (if common \<noteq> 0 then fold (take_common common) formats no_choice
               else fold (take_cheaper m dst srcs) (List.product formats formats) no_choice)
      in if sint (best c) > - 1 then (0, bestdst c, best c) else (sint (best c), dst, srcs))"

definition pair_cost :: "tr_matrix \<Rightarrow> int \<times> int \<Rightarrow> int" where
  "pair_cost m p = dcost (m (snd p, fst p))"

definition candidate :: "tr_matrix \<Rightarrow> u32 \<Rightarrow> u32 \<Rightarrow> int \<times> int \<Rightarrow> bool" where
  "candidate m dst srcs p \<longleftrightarrow> bit dst (nat (fst p)) \<and> bit srcs (nat (snd p)) \<and>
     dstep (m (snd p, fst p)) \<noteq> None \<and> pair_cost m p < INT_MAX"

definition pick :: "tr_matrix \<Rightarrow> int \<times> int \<Rightarrow> choice" where
  "pick m p = \<lparr>best = fbit (snd p), bestdst = fbit (fst p), besttime = pair_cost m p\<rparr>"

lemma and_fbit: "w AND fbit x = 0 \<longleftrightarrow> \<not> bit w (nat x)" "fbit x AND w = 0 \<longleftrightarrow> \<not> bit w (nat x)"
  by (simp_all add: fbit_def push_bit_eq_mult and_exp_eq_0_iff_not_bit and.commute)

lemma take_cheaper_cases:
  assumes "besttime c \<le> INT_MAX"
  shows "take_cheaper m dst srcs p c = (if candidate m dst srcs p \<and> pair_cost m p < besttime c then pick m p else c)"
  using assms by (cases p) (auto simp: take_cheaper_def candidate_def pick_def pair_cost_def and_fbit)

lemma fold_cheaper:
  "besttime c \<le> INT_MAX \<Longrightarrow> c' = fold (take_cheaper m dst srcs) ps c \<Longrightarrow>
    besttime c' \<le> besttime c \<and> (\<forall>p\<in>set ps. candidate m dst srcs p \<longrightarrow> besttime c' \<le> pair_cost m p) \<and>
    (c' = c \<or> (\<exists>p\<in>set ps. candidate m dst srcs p \<and> c' = pick m p))"
proof (induction ps arbitrary: c)
  case (Cons p ps)
  define c1 where "c1 = take_cheaper m dst srcs p c"
  have c1: "besttime c1 \<le> besttime c" "candidate m dst srcs p \<longrightarrow> besttime c1 \<le> pair_cost m p"
    "c1 = c \<or> candidate m dst srcs p \<and> c1 = pick m p"
    unfolding c1_def take_cheaper_cases [OF Cons.prems(1)] by (auto simp: pick_def)
  have "besttime c1 \<le> INT_MAX" "c' = fold (take_cheaper m dst srcs) ps c1"
    using c1(1) Cons.prems by (simp_all add: c1_def)
  from Cons.IH [OF this] c1 show ?case by (auto intro: order_trans)
qed simp

lemma fbit_positive:
  assumes "0 \<le> x" "x < 31" shows "sint (fbit x) > - 1"
proof -
  have "\<not> bit (fbit x) 31" using assms by (auto simp: fbit_def bit_simps)
  then show ?thesis using bit_last_iff [of "fbit x"] by simp
qed

text \<open>
  When two sets of formats have none in common, the choice is a pair with a cheapest translation
  among all pairs that have one, and it fails without touching its arguments when there is none.
  The source may not offer the highest bit, which is taken for a failure.
\<close>

theorem best_choice_cheapest:
  assumes "dst AND srcs = 0" "\<not> bit srcs 31"
  shows "if \<exists>p\<in>set (List.product formats formats). candidate m dst srcs p
    then \<exists>y x. candidate m dst srcs (y, x) \<and> cw_translator_best_choice m dst srcs = (0, fbit y, fbit x) \<and>
      (\<forall>p\<in>set (List.product formats formats). candidate m dst srcs p \<longrightarrow> pair_cost m (y, x) \<le> pair_cost m p)
    else cw_translator_best_choice m dst srcs = (- 1, dst, srcs)"
proof -
  define c where "c = fold (take_cheaper m dst srcs) (List.product formats formats) no_choice"
  have f: "\<forall>p\<in>set (List.product formats formats). candidate m dst srcs p \<longrightarrow> besttime c \<le> pair_cost m p"
    "c = no_choice \<or> (\<exists>p\<in>set (List.product formats formats). candidate m dst srcs p \<and> c = pick m p)"
    using fold_cheaper [OF _ c_def] by (simp_all add: no_choice_def)
  have b: "cw_translator_best_choice m dst srcs =
      (if sint (best c) > - 1 then (0, bestdst c, best c) else (sint (best c), dst, srcs))"
    using assms(1) by (simp add: cw_translator_best_choice_def c_def Let_def)
  show ?thesis
  proof (cases "\<exists>p\<in>set (List.product formats formats). candidate m dst srcs p")
    case True
    then have "c \<noteq> no_choice" using f(1) by (fastforce simp: no_choice_def candidate_def)
    then obtain y x where p: "x \<in> set formats" "candidate m dst srcs (y, x)" "c = pick m (y, x)" using f(2) by auto
    have "x \<noteq> 31" using p(2) assms(2) by (auto simp: candidate_def)
    then have "sint (fbit x) > - 1"
      using p(1) by (intro fbit_positive) (auto simp: in_formats in_matrix_def MAX_FORMAT_def)
    then have "cw_translator_best_choice m dst srcs = (0, fbit y, fbit x)" using b p(3) by (simp add: pick_def)
    then show ?thesis using True p f(1) by (auto simp: pick_def)
  next
    case False
    then have "c = no_choice" using f(2) by blast
    then show ?thesis using False b by (simp add: no_choice_def)
  qed
qed

theorem best_choice_cheapest_witness:
  "\<exists>m. cw_translator_best_choice m 8 4 = (0, 8, 4)"
proof -
  define m where "m = empty_matrix((2, 3) := \<lparr>dstep = Some ulaw_alaw, dcost = 9\<rparr>)"
  have c: "candidate m 8 4 p \<longleftrightarrow> p = (3, 2)" for p
  proof
    assume "candidate m 8 4 p"
    then have "dstep (m (snd p, fst p)) \<noteq> None" by (simp add: candidate_def)
    then show "p = (3, 2)" by (auto simp: m_def empty_matrix_def prod_eq_iff split: if_splits)
  next
    assume "p = (3, 2)"
    then show "candidate m 8 4 p" by (simp add: candidate_def m_def pair_cost_def INT_MAX_def bit_numeral_rec)
  qed
  have "(3, 2) \<in> set (List.product formats formats)" by (simp add: in_formats in_matrix_def MAX_FORMAT_def)
  then have "cw_translator_best_choice m 8 4 = (0, fbit 3, fbit 2)"
    using best_choice_cheapest [of 8 4 m] c by (auto simp: bit_numeral_rec)
  then show ?thesis by (auto simp: fbit_def push_bit_eq_mult)
qed

text \<open>With formats in common the last one found is taken, that is the highest, although the comment
  in the code speaks of the first.\<close>

lemma fold_common:
  "fold (take_common w) xs c = (if \<exists>y\<in>set xs. bit w (nat y)
     then let y = last (filter (\<lambda>y. bit w (nat y)) xs) in \<lparr>best = fbit y, bestdst = fbit y, besttime = 0\<rparr> else c)"
  by (induction xs arbitrary: c) (auto simp: take_common_def and_fbit Let_def filter_empty_conv)

lemma common_highest:
  assumes "bit w (nat y)" "0 \<le> y" "y \<le> 31" "\<And>z. y < z \<Longrightarrow> z < 32 \<Longrightarrow> \<not> bit w (nat z)"
  shows "fold (take_common w) formats c = \<lparr>best = fbit y, bestdst = fbit y, besttime = 0\<rparr>"
proof -
  have fs: "formats = [0..y] @ [y + 1..31]"
    unfolding formats_def MAX_FORMAT_def using assms(2,3) upto_split2 [of 0 y 31] by simp
  have n: "filter (\<lambda>z. bit w (nat z)) [y + 1..31] = []" using assms(4) by (auto simp: filter_empty_conv)
  have "[0..y] = [0..y - 1] @ [y]" using assms(2) by (simp add: upto_rec2)
  then have l: "last (filter (\<lambda>z. bit w (nat z)) formats) = y" unfolding fs using n assms(1) by simp
  show ?thesis
    unfolding fold_common l Let_def using assms(1-3) by (auto simp: in_formats in_matrix_def MAX_FORMAT_def)
qed

lemma best_choice_common:
  assumes "bit dst (nat y)" "bit srcs (nat y)" "0 \<le> y" "y < 31"
    and "\<And>z. y < z \<Longrightarrow> z < 32 \<Longrightarrow> \<not> (bit dst (nat z) \<and> bit srcs (nat z))"
  shows "cw_translator_best_choice m dst srcs = (0, fbit y, fbit y)"
proof -
  have "bit (dst AND srcs) (nat y)" using assms(1,2) by (simp add: bit_simps)
  moreover from this have "dst AND srcs \<noteq> 0" by (metis bit_0_eq bot_apply bot_bool_def)
  ultimately show ?thesis
    using common_highest [of "dst AND srcs" y no_choice] assms(3-5) fbit_positive [OF assms(3,4)]
    by (simp add: cw_translator_best_choice_def bit_simps)
qed

text \<open>The highest format is lost: chosen as the source, it is a negative number and taken for an error.\<close>

lemma best_choice_highest_fails:
  assumes "bit dst 31" "bit srcs 31"
  shows "fst (cw_translator_best_choice m dst srcs) < 0"
proof -
  have "bit (dst AND srcs) 31" using assms by (simp add: bit_simps)
  moreover from this have "dst AND srcs \<noteq> 0" by (metis bit_0_eq bot_apply bot_bool_def)
  moreover have "sint (fbit 31) < 0" using bit_last_iff [of "fbit 31"] by (simp add: fbit_def bit_simps)
  ultimately show ?thesis
    using common_highest [of "dst AND srcs" 31 no_choice] by (simp add: cw_translator_best_choice_def)
qed

section \<open>Passing a frame through a path\<close>

text \<open>
  The fields of a frame that matter here; \<open>frame_info\<close> is its timing information, if any.  The
  callbacks of a translator take its state and a frame; \<open>now\<close> is the clock.
\<close>

record 'b frame =
  samples :: u32
  delivery :: timeval
  is_cng :: bool
  frame_info :: "(int \<times> int \<times> int) option"
  body :: 'b

record ('p, 'b) codec =
  framein :: "cw_translator \<Rightarrow> 'p \<Rightarrow> 'b frame \<Rightarrow> 'p"
  frameout :: "cw_translator \<Rightarrow> 'p \<Rightarrow> 'b frame option \<times> 'p"

definition feed :: "('p, 'b) codec \<Rightarrow> 'b frame \<Rightarrow> 'p cw_trans_pvt \<Rightarrow> 'p cw_trans_pvt" where
  "feed cd f p = p\<lparr>pv_state := framein cd (pv_step p) (pv_state p) f\<rparr>"

fun push_through :: "('p, 'b) codec \<Rightarrow> 'p cw_trans_pvt list \<Rightarrow> 'b frame option \<times> 'p cw_trans_pvt list" where
  "push_through cd [] = (None, [])"
| "push_through cd (p # ps) =
     (let (out, st) = frameout cd (pv_step p) (pv_state p); p = p\<lparr>pv_state := st\<rparr> in
      case out of
        None \<Rightarrow> (None, p # ps)
      | Some f \<Rightarrow>
          (case ps of
             [] \<Rightarrow> (Some f, [p])
           | q # qs \<Rightarrow> let (r, ps') = push_through cd (feed cd f q # qs) in (r, p # ps')))"

text \<open>The times expected for the next frame in and out, in the first element of the path.\<close>

definition expect_in :: "'b frame \<Rightarrow> 'p cw_trans_pvt \<Rightarrow> 'p cw_trans_pvt" where
  "expect_in f p =
     (if cw_tvzero (delivery f) then p
      else
        let p = (if \<not> cw_tvzero (nextin p)
                 then if \<not> cw_tveq (nextin p) (delivery f)
                      then p\<lparr>nextout := (if \<not> cw_tvzero (nextout p)
                                then cw_tvadd (nextout p) (cw_tvsub (delivery f) (nextin p)) else nextout p),
                             nextin := delivery f\<rparr>
                      else p
                 else p\<lparr>nextin := delivery f, nextout := delivery f\<rparr>)
        in p\<lparr>nextin := cw_tvadd (nextin p) (cw_samp2tv (samples f) 8000)\<rparr>)"

definition stamp_out :: "timeval \<Rightarrow> 'b frame \<Rightarrow> 'b frame \<Rightarrow> 'p cw_trans_pvt \<Rightarrow> 'b frame \<times> 'p cw_trans_pvt" where
  "stamp_out now f out p =
     (let (out, p) =
        (if \<not> cw_tvzero (delivery f)
         then let p = (if cw_tvzero (nextout p) then p\<lparr>nextout := now\<rparr> else p) in
              (out\<lparr>delivery := nextout p\<rparr>, p\<lparr>nextout := cw_tvadd (nextout p) (cw_samp2tv (samples out) 8000)\<rparr>)
         else (out\<lparr>delivery := cw_tv 0 0\<rparr>, p));
        p = (if is_cng out then p\<lparr>nextout := cw_tv 0 0\<rparr> else p)
      in (out\<lparr>frame_info := frame_info f\<rparr>, p))"

text \<open>The routine dereferences its path; \<open>None\<close> stands for a path that is \<open>NULL\<close>.\<close>

definition cw_translate ::
    "timeval \<Rightarrow> ('p, 'b) codec \<Rightarrow> 'p cw_trans_pvt list \<Rightarrow> 'b frame \<Rightarrow> ('b frame option \<times> 'p cw_trans_pvt list) option" where
  "cw_translate now cd path f =
     (case path of
        [] \<Rightarrow> None
      | p # ps \<Rightarrow>
          Some (case push_through cd (expect_in f (feed cd f p) # ps) of
             (Some out, p # ps) \<Rightarrow> let (out, p) = stamp_out now f out p in (Some out, p # ps)
           | r \<Rightarrow> r))"

declare push_through.simps(2) [simp del]

lemma push_through_head:
  "push_through cd (p # ps) = (r, qs) \<Longrightarrow> \<exists>q qs'. qs = q # qs' \<and> nextin q = nextin p \<and> nextout q = nextout p"
  unfolding push_through.simps(2) [of cd p ps] by (auto simp: Let_def split: prod.splits option.splits list.splits)

lemma samp2tv_8000: "cw_samp2tv n 8000 = Timeval (uint n div 8000) (uint n mod 8000 * 125)"
proof -
  have "uint ((n mod 8000) * (1000000 div 8000)) = uint n mod 8000 * 125"
  proof -
    have "(1000000 :: u32) div 8000 = 125" by simp
    moreover have "uint n mod 8000 * 125 < 2 ^ 32"
      using pos_mod_bound [of 8000 "uint n"] by simp
    ultimately show ?thesis
      by (simp add: uint_mult_lem uint_mod uint_word_ariths take_bit_eq_mod)
  qed
  then show ?thesis by (simp add: cw_samp2tv_def cw_tv_def uint_div)
qed

lemma samp2tv_8000_us: "tv_ok (cw_samp2tv n 8000) \<and> tv_us (cw_samp2tv n 8000) = uint n * 125"
proof -
  have "uint n = 8000 * (uint n div 8000) + uint n mod 8000" by simp
  moreover have "0 \<le> uint n mod 8000" "uint n mod 8000 < 8000" by simp_all
  ultimately show ?thesis unfolding samp2tv_8000 tv_ok_def tv_us_def timeval.sel by linarith
qed

lemma tvzero_us: "tv_ok t \<Longrightarrow> cw_tvzero t \<longleftrightarrow> tv_us t = 0"
  using tv_us_inj [of t "Timeval 0 0"] by (cases t) (auto simp: cw_tvzero_def tv_us_def tv_ok_def)

lemma expect_in_delay:
  assumes "tv_ok (nextin p)" "tv_ok (nextout p)" "tv_ok (delivery f)"
    and "tv_us (nextin p) \<noteq> 0" "tv_us (nextout p) \<noteq> 0" "tv_us (delivery f) \<noteq> 0"
  shows "tv_ok (nextout (expect_in f p)) \<and> tv_ok (nextin (expect_in f p)) \<and>
    tv_us (nextout (expect_in f p)) = tv_us (delivery f) + (tv_us (nextout p) - tv_us (nextin p)) \<and>
    tv_us (nextin (expect_in f p)) = tv_us (delivery f) + uint (samples f) * 125"
proof (cases "nextin p = delivery f")
  case True
  then show ?thesis
    using assms samp2tv_8000_us [of "samples f"] by (simp add: expect_in_def tvzero_us cw_tveq_def tv_us_tvadd)
next
  case False
  then have "\<not> cw_tveq (nextin p) (delivery f)" by (auto simp: cw_tveq_def intro: timeval.expand)
  then show ?thesis
    using assms samp2tv_8000_us [of "samples f"] by (simp add: expect_in_def tvzero_us tv_us_tvadd tv_us_tvsub)
qed

text \<open>
  A path keeps its delay: whether or not a frame arrives when it was expected, the frame that
  leaves the path is due later than the one that entered by the difference between the
  times expected on both ends, and the difference changes only by what the two frames differ in
  length.  Comfort noise ends the prediction.
\<close>

theorem translate_keeps_delay:
  assumes "cw_translate now cd (p # ps) f = Some (Some out, p' # ps')" "\<not> is_cng out"
    and "tv_ok (nextin p)" "tv_ok (nextout p)" "tv_ok (delivery f)"
    and "tv_us (nextin p) \<noteq> 0" "tv_us (nextout p) \<noteq> 0" "tv_us (delivery f) \<noteq> 0"
    and delay: "delay = tv_us (nextout p) - tv_us (nextin p)" "tv_us (delivery f) + delay \<noteq> 0"
  shows "tv_us (delivery out) = tv_us (delivery f) + delay \<and>
    tv_us (nextout p') - tv_us (nextin p') = delay + 125 * (uint (samples out) - uint (samples f))"
proof -
  define q where "q = expect_in f (feed cd f p)"
  have q: "tv_ok (nextout q)" "tv_us (nextout q) = tv_us (delivery f) + delay"
    "tv_us (nextin q) = tv_us (delivery f) + uint (samples f) * 125"
    using expect_in_delay [of "feed cd f p" f] assms(3-8) by (simp_all add: q_def feed_def delay)
  obtain o' r rs where o': "push_through cd (q # ps) = (Some o', r # rs)" "stamp_out now f o' r = (out, p')"
    using assms(1) by (auto simp: cw_translate_def q_def Let_def split: prod.splits option.splits list.splits)
  have r: "nextin r = nextin q" "nextout r = nextout q" using push_through_head [OF o'(1)] by auto
  have nz: "\<not> cw_tvzero (nextout q)" "\<not> cw_tvzero (delivery f)"
    using q(1,2) delay(2) assms(5,8) by (simp_all add: tvzero_us)
  have "is_cng o' = is_cng out" "samples o' = samples out"
    using o'(2) nz by (auto simp: stamp_out_def r Let_def split: if_splits)
  then have "delivery out = nextout q" "nextin p' = nextin q" "nextout p' = cw_tvadd (nextout q) (cw_samp2tv (samples out) 8000)"
    using o'(2) nz assms(2) by (auto simp: stamp_out_def r Let_def split: if_splits)
  then show ?thesis using q samp2tv_8000_us [of "samples out"] by (simp add: tv_us_tvadd)
qed

lemma expect_in_state: "pv_state (expect_in f p) = pv_state p" "pv_step (expect_in f p) = pv_step p"
  by (simp_all add: expect_in_def Let_def)

lemma stamp_out_frame: "stamp_out now f out p = (out', p') \<Longrightarrow> samples out' = samples out \<and> is_cng out' = is_cng out"
  by (auto simp: stamp_out_def Let_def split: if_splits)

definition echo :: "(unit frame option, unit) codec" where
  "echo = \<lparr>framein = \<lambda>t st f. Some f, frameout = \<lambda>t st. (st, None)\<rparr>"

definition late_frame :: "unit frame" where
  "late_frame = \<lparr>samples = 160, delivery = Timeval 12 0, is_cng = False, frame_info = None, body = ()\<rparr>"

definition echo_path :: "unit frame option cw_trans_pvt" where
  "echo_path = \<lparr>pv_step = ulaw_lin, pv_state = None, nextin = Timeval 10 0, nextout = Timeval 10 5000\<rparr>"

theorem translate_keeps_delay_witness:
  "\<exists>out p'. cw_translate (Timeval 99 0) echo [echo_path] late_frame = Some (Some out, [p']) \<and>
     tv_us (delivery out) = 12005000 \<and> tv_us (nextout p') - tv_us (nextin p') = 5000"
proof -
  let ?q = "(expect_in late_frame (feed echo late_frame echo_path))\<lparr>pv_state := None\<rparr>"
  obtain out p' where o: "stamp_out (Timeval 99 0) late_frame late_frame ?q = (out, p')" by fastforce
  have r: "cw_translate (Timeval 99 0) echo [echo_path] late_frame = Some (Some out, [p'])"
    using o by (simp add: cw_translate_def push_through.simps expect_in_state feed_def echo_def)
  have s: "\<not> is_cng out" "samples out = 160"
    using stamp_out_frame [OF o] by (simp_all add: late_frame_def)
  have t: "nextin echo_path = Timeval 10 0" "nextout echo_path = Timeval 10 5000" "delivery late_frame = Timeval 12 0"
    "samples late_frame = 160"
    by (simp_all add: echo_path_def late_frame_def)
  have "tv_us (delivery out) = tv_us (Timeval 12 0) + 5000 \<and>
      tv_us (nextout p') - tv_us (nextin p') = 5000 + 125 * (uint (samples out) - uint (samples late_frame))"
    using translate_keeps_delay [OF r s(1), of 5000] unfolding t by (simp add: tv_ok_def tv_us_def)
  then have "tv_us (delivery out) = 12005000" "tv_us (nextout p') - tv_us (nextin p') = 5000"
    by (simp_all add: s(2) t(4) tv_us_def)
  then show ?thesis using r by blast
qed

end
