(* ===== verification/CW_Udptl.thy ===== *)
theory CW_Udptl
  imports CW_Prelude "HOL-Library.Monad_Syntax"
begin

unbundle bit_operations_syntax

text \<open>
  Facsimile packets over UDP, \<open>corelib/udptl.c\<close>: the encoding of lengths and of octet strings, the
  packets with redundant copies or parity of earlier messages, and their reception.

  Bytes are \<open>8 word\<close>s and a buffer is the list of the bytes allocated.  \<open>None\<close> is an access outside
  a buffer or array.  A routine that returns -1 has the inner result \<open>None\<close>, or the return value
  -1 where it also leaves a changed state.  The integers of the source stay far below their limits
  and are natural numbers, except the sequence numbers, which may be computed below zero.
\<close>

section \<open>Lengths and octet strings\<close>

definition LOCAL_FAX_MAX_DATAGRAM :: nat where "LOCAL_FAX_MAX_DATAGRAM = 400"
definition MAX_FEC_ENTRIES :: nat where "MAX_FEC_ENTRIES = 4"
definition BUFS :: nat where "BUFS = 16"

definition byte :: "u8 list \<Rightarrow> nat \<Rightarrow> u8 option" where
  "byte buf i = (if i < length buf then Some (buf ! i) else None)"

text \<open>The results are whether a fragment follows, the value and the new position.\<close>

definition decode_length :: "u8 list \<Rightarrow> nat \<Rightarrow> nat \<Rightarrow> (bool \<times> nat \<times> nat) option option" where
  "decode_length buf limit len = do {
     b \<leftarrow> byte buf len;
     if b AND 0x80 = 0
     then Some (if len \<ge> limit then None else Some (False, unat b, len + 1))
     else if b AND 0x40 = 0
     then if len + 1 \<ge> limit then Some None
          else do { c \<leftarrow> byte buf (len + 1);
                    Some (Some (False, unat (b AND 0x3F) * 256 + unat c, len + 2)) }
     else Some (if len \<ge> limit then None else Some (True, unat (b AND 0x3F) * 16384, len + 1))
   }"

lemma decode_length_advances:
  "decode_length buf limit len = Some (Some (frag, cnt, len')) \<Longrightarrow> len < len' \<and> len' \<le> limit"
  by (auto simp: decode_length_def byte_def Let_def split: if_splits)

text \<open>
  The number of octets is written to the caller also when the routine fails; the octets and the
  new position come with it when it does not.  An octet string in several parts would need
  several pointers, and the second is stored outside the variable of the caller.
\<close>

function open_loop :: "u8 list \<Rightarrow> nat \<Rightarrow> nat \<Rightarrow> nat \<Rightarrow> u8 list \<Rightarrow> (nat \<times> (u8 list \<times> nat) option) option" where
  "open_loop buf limit len num octets =
     (case decode_length buf limit len of
        None \<Rightarrow> None
      | Some None \<Rightarrow> Some (num, None)
      | Some (Some (frag, cnt, len')) \<Rightarrow>
          if cnt = 0 then if frag then open_loop buf limit len' num octets else Some (num, Some (octets, len'))
          else if len' + cnt > limit then Some (num + cnt, None)
          else if num > 0 \<or> length buf < len' + cnt then None
          else if frag then open_loop buf limit (len' + cnt) (num + cnt) (take cnt (drop len' buf))
          else Some (num + cnt, Some (take cnt (drop len' buf), len' + cnt)))"
  by pat_completeness auto
termination
  by (relation "measure (\<lambda>(buf, limit, len, num, octets). limit - len)")
    (auto dest!: decode_length_advances)

declare open_loop.simps [simp del]

definition decode_open_type :: "u8 list \<Rightarrow> nat \<Rightarrow> nat \<Rightarrow> (nat \<times> (u8 list \<times> nat) option) option" where
  "decode_open_type buf limit len = open_loop buf limit len 0 []"

text \<open>The bytes written for a length and the part of it they stand for.\<close>

definition encode_length :: "nat \<Rightarrow> u8 list \<times> nat" where
  "encode_length v =
     (if v < 0x80 then ([of_nat v], v)
      else if v < 0x4000 then ([of_nat ((0x8000 + v) div 256), of_nat (v mod 256)], v)
      else let multiplier = (if v < 0x10000 then v div 16384 else 4)
           in ([0xC0 OR of_nat multiplier], multiplier * 16384))"

function encode_parts :: "u8 list \<Rightarrow> u8 list" where
  "encode_parts octets =
     (let (bs, enclen) = encode_length (length octets) in
      if enclen \<ge> length octets then bs @ take enclen octets
      else bs @ take enclen octets @ encode_parts (drop enclen octets))"
  by pat_completeness auto
termination
  by (relation "measure length") (auto simp: encode_length_def Let_def split: if_splits)

declare encode_parts.simps [simp del]

definition encode_open_type :: "u8 list \<Rightarrow> u8 list" where
  "encode_open_type octets = encode_parts (if octets = [] then [0] else octets)"

section \<open>The state\<close>

datatype ec_scheme = UDPTL_ERROR_CORRECTION_NONE | UDPTL_ERROR_CORRECTION_FEC | UDPTL_ERROR_CORRECTION_REDUNDANCY

text \<open>A slot for sent messages holds the message, if any.  A slot for received ones has the length -1
  when it holds none; the arrays in it have their full size.\<close>

record rx_buffer =
  rb_len :: int
  rb_buf :: "u8 list"
  fec_len :: "int list"
  fec :: "u8 list list"
  fec_span :: nat
  fec_entries :: nat

record t38_frame =
  fr_seq :: int
  fr_data :: "u8 list"

record cw_udptl =
  error_correction_scheme :: ec_scheme
  error_correction_entries :: nat
  error_correction_span :: nat
  tx_seq_no :: nat
  rx_seq_no :: int
  tx :: "u8 list option list"
  rx :: "rx_buffer list"
  frames :: "t38_frame list"

definition empty_rx :: rx_buffer where
  "empty_rx = \<lparr>rb_len = - 1, rb_buf = replicate LOCAL_FAX_MAX_DATAGRAM 0, fec_len = replicate MAX_FEC_ENTRIES 0,
     fec = replicate MAX_FEC_ENTRIES (replicate LOCAL_FAX_MAX_DATAGRAM 0), fec_span = 0, fec_entries = 0\<rparr>"

definition cw_udptl_new :: "bool \<Rightarrow> ec_scheme \<Rightarrow> nat \<Rightarrow> nat \<Rightarrow> cw_udptl option" where
  "cw_udptl_new mem scheme span entries =
     (if mem then Some \<lparr>error_correction_scheme = scheme, error_correction_entries = entries,
        error_correction_span = span, tx_seq_no = 0, rx_seq_no = 0, tx = replicate BUFS None,
        rx = replicate BUFS empty_rx, frames = []\<rparr> else None)"

text \<open>One more frame: the array has \<open>BUFS\<close> places.\<close>

definition add_frame :: "int \<Rightarrow> u8 list \<Rightarrow> t38_frame list \<Rightarrow> t38_frame list option" where
  "add_frame seq octets fs = (if length fs < BUFS then Some (fs @ [\<lparr>fr_seq = seq, fr_data = octets\<rparr>]) else None)"

section \<open>Receiving with redundant packets\<close>

text \<open>Reading \<open>n\<close> secondary packets behind those already read.\<close>

fun read_items :: "u8 list \<Rightarrow> nat \<Rightarrow> nat \<Rightarrow> nat \<Rightarrow> u8 list list \<Rightarrow> (u8 list list \<times> nat) option option" where
  "read_items buf limit 0 ptr acc = Some (Some (acc, ptr))"
| "read_items buf limit (Suc n) ptr acc =
     (if length acc \<ge> BUFS then None
      else case decode_open_type buf limit ptr of
        None \<Rightarrow> None
      | Some (_, None) \<Rightarrow> Some None
      | Some (_, Some (octets, ptr)) \<Rightarrow> read_items buf limit n ptr (acc @ [octets]))"

lemma open_loop_advances:
  "open_loop buf limit len num octets = Some (k, Some (os, len')) \<Longrightarrow> len \<le> len'"
proof (induction buf limit len num octets rule: open_loop.induct)
  case (1 buf limit len num octets)
  show ?case
    using "1.prems" "1.IH" decode_length_advances [of buf limit len]
    by (subst (asm) open_loop.simps) (force split: option.splits if_splits prod.splits)
qed

lemma read_items_advances:
  "read_items buf limit n ptr acc = Some (Some (acc', ptr')) \<Longrightarrow> ptr \<le> ptr'"
proof (induction n arbitrary: ptr acc)
  case (Suc n)
  then obtain k os ptr1 where "open_loop buf limit ptr 0 [] = Some (k, Some (os, ptr1))"
    "read_items buf limit n ptr1 (acc @ [os]) = Some (Some (acc', ptr'))"
    by (auto simp: decode_open_type_def split: if_splits option.splits)
  then show ?case using Suc.IH open_loop_advances le_trans by blast
qed simp

function secondary :: "u8 list \<Rightarrow> nat \<Rightarrow> nat \<Rightarrow> u8 list list \<Rightarrow> (u8 list list \<times> nat) option option" where
  "secondary buf limit ptr acc =
     (case decode_length buf limit ptr of
        None \<Rightarrow> None
      | Some None \<Rightarrow> Some None
      | Some (Some (frag, n, ptr1)) \<Rightarrow>
          (case read_items buf limit n ptr1 acc of
             None \<Rightarrow> None
           | Some None \<Rightarrow> Some None
           | Some (Some (acc1, ptr2)) \<Rightarrow> if frag then secondary buf limit ptr2 acc1 else Some (Some (acc1, ptr2))))"
  by pat_completeness auto
termination
  by (relation "measure (\<lambda>(buf, limit, ptr, acc). limit - ptr)")
    (auto dest!: decode_length_advances read_items_advances)

declare secondary.simps [simp del]

text \<open>The secondary packets not seen before, oldest first.\<close>

fun replay :: "int \<Rightarrow> int \<Rightarrow> u8 list list \<Rightarrow> t38_frame list \<Rightarrow> nat \<Rightarrow> t38_frame list option" where
  "replay seq rxseq items fs 0 = Some fs"
| "replay seq rxseq items fs (Suc i) =
     (if seq - int (Suc i) \<ge> rxseq
      then do { fs \<leftarrow> add_frame (seq - int (Suc i)) (items ! i) fs; replay seq rxseq items fs i }
      else replay seq rxseq items fs i)"

section \<open>Receiving with parity packets\<close>

definition slot :: "int \<Rightarrow> nat" where "slot k = nat (k mod 16)"

definition put_front :: "u8 list \<Rightarrow> u8 list \<Rightarrow> u8 list" where
  "put_front src buf = src @ drop (length src) buf"

definition missed :: "rx_buffer \<Rightarrow> rx_buffer" where
  "missed b = b\<lparr>rb_len := - 1, fec_len := (fec_len b)[0 := 0], fec_span := 0, fec_entries := 0\<rparr>"

definition skip_missed :: "int \<Rightarrow> cw_udptl \<Rightarrow> cw_udptl" where
  "skip_missed seq s =
     s\<lparr>rx := fold (\<lambda>i bs. bs[slot i := missed (bs ! slot i)]) [rx_seq_no s..seq - 1] (rx s),
       rx_seq_no := max (rx_seq_no s) seq\<rparr>"

fun read_fec :: "u8 list \<Rightarrow> nat \<Rightarrow> nat \<Rightarrow> nat \<Rightarrow> nat \<Rightarrow> rx_buffer \<Rightarrow> (rx_buffer \<times> nat option) option" where
  "read_fec buf limit 0 i ptr b = Some (b, Some ptr)"
| "read_fec buf limit (Suc n) i ptr b =
     (if i \<ge> MAX_FEC_ENTRIES then None
      else case decode_open_type buf limit ptr of
        None \<Rightarrow> None
      | Some (num, None) \<Rightarrow> Some (b\<lparr>fec_len := (fec_len b)[i := int num]\<rparr>, None)
      | Some (num, Some (octets, ptr)) \<Rightarrow>
          let b = b\<lparr>fec_len := (fec_len b)[i := int num]\<rparr> in
          if num > LOCAL_FAX_MAX_DATAGRAM then Some (b, None)
          else read_fec buf limit n (Suc i) ptr (b\<lparr>fec := (fec b)[i := put_front octets (fec b ! i)]\<rparr>))"

text \<open>The two ways around the ring of slots; both reach their end within a full turn.\<close>

definition down_walk :: "nat \<Rightarrow> nat \<Rightarrow> nat list" where
  "down_walk x stop = takeWhile (\<lambda>l. l \<noteq> stop) (map (\<lambda>j. slot (int x - int j)) [0..<BUFS])"

definition ring_walk :: "nat \<Rightarrow> nat \<Rightarrow> nat \<Rightarrow> nat list" where
  "ring_walk limit span entries =
     takeWhile (\<lambda>k. k \<noteq> limit) (map (\<lambda>j. slot (int limit - int (span * entries) + int (j * entries))) [0..<BUFS])"

definition find_gap :: "rx_buffer list \<Rightarrow> nat list \<Rightarrow> int" where
  "find_gap bs ks =
     fold (\<lambda>k which. if rb_len (bs ! k) \<le> 0 then if which = - 1 then int k else - 2 else which) ks (- 1)"

definition parity :: "rx_buffer list \<Rightarrow> nat list \<Rightarrow> nat \<Rightarrow> u8 \<Rightarrow> u8" where
  "parity bs ks j b = fold (\<lambda>k b. b XOR (if rb_len (bs ! k) > int j then rb_buf (bs ! k) ! j else 0)) ks b"

text \<open>The loops over the entries of a slot and over the slots; the second part of the state marks
  the slots that hold something new.\<close>

definition repair :: "nat \<Rightarrow> nat \<Rightarrow> rx_buffer list \<times> nat set \<Rightarrow> (rx_buffer list \<times> nat set) option" where
  "repair l m = (\<lambda>(bs, repaired).
     let b = bs ! l;
         ks = ring_walk (slot (int (l + m))) (fec_span b) (fec_entries b);
         which = find_gap bs ks in
     if which < 0 then Some (bs, repaired)
     else if MAX_FEC_ENTRIES \<le> m \<or> fec_len b ! m > int LOCAL_FAX_MAX_DATAGRAM then None
     else let n = nat (fec_len b ! m);
              octets = map (\<lambda>j. parity bs ks j (fec b ! m ! j)) [0..<n];
              w = bs ! nat which in
          Some (bs[nat which := w\<lparr>rb_buf := put_front octets (rb_buf w), rb_len := int n\<rparr>],
                insert (nat which) repaired))"

fun repair_entries :: "nat \<Rightarrow> nat \<Rightarrow> nat \<Rightarrow> rx_buffer list \<times> nat set \<Rightarrow> (rx_buffer list \<times> nat set) option" where
  "repair_entries l 0 m st = Some st"
| "repair_entries l (Suc n) m st = do { st \<leftarrow> repair l m st; repair_entries l n (Suc m) st }"

fun repair_slots :: "nat list \<Rightarrow> rx_buffer list \<times> nat set \<Rightarrow> (rx_buffer list \<times> nat set) option" where
  "repair_slots [] st = Some st"
| "repair_slots (l # ls) st =
     (if fec_len (fst st ! l) ! 0 \<le> 0 then repair_slots ls st
      else do { st \<leftarrow> repair_entries l (fec_entries (fst st ! l)) 0 st; repair_slots ls st })"

text \<open>The slots after \<open>x\<close> around the ring are those of the 15 sequence numbers before.\<close>

fun play :: "int \<Rightarrow> rx_buffer list \<Rightarrow> nat set \<Rightarrow> nat list \<Rightarrow> t38_frame list \<Rightarrow> t38_frame list option" where
  "play seq bs repaired [] fs = Some fs"
| "play seq bs repaired (i # is) fs =
     (let l = slot (seq - int i) in
      if l \<in> repaired
      then do { fs \<leftarrow> add_frame (seq - int i) (take (nat (rb_len (bs ! l))) (rb_buf (bs ! l))) fs;
                play seq bs repaired is fs }
      else play seq bs repaired is fs)"

definition older :: "nat list" where "older = rev [1..<BUFS]"

text \<open>The second half of \<open>udptl_rx_packet\<close>; the result \<open>None\<close> inside is the return value -1.\<close>

definition rx_fec :: "u8 list \<Rightarrow> nat \<Rightarrow> nat \<Rightarrow> int \<Rightarrow> u8 list \<Rightarrow> cw_udptl \<Rightarrow> (cw_udptl \<times> t38_frame list option) option" where
  "rx_fec buf len ptr seq msg s =
     (if length msg > LOCAL_FAX_MAX_DATAGRAM then Some (s, None)
      else
        let s = skip_missed seq s; x = slot seq;
            put = (\<lambda>b s. s\<lparr>rx := (rx s)[x := b]\<rparr>);
            b = (rx s ! x)\<lparr>rb_buf := put_front msg (rb_buf (rx s ! x)), rb_len := int (length msg)\<rparr> in
        if ptr + 2 > len then Some (put b s, None)
        else do {
          one \<leftarrow> byte buf ptr;
          if one \<noteq> 1 then Some (put b s, None)
          else do {
            span \<leftarrow> byte buf (ptr + 1);
            let b = b\<lparr>fec_span := unat span\<rparr> in
            if ptr + 3 > len then Some (put b s, None)
            else do {
              entries \<leftarrow> byte buf (ptr + 2);
              (b, end) \<leftarrow> read_fec buf len (unat entries) 0 (ptr + 3) (b\<lparr>fec_entries := unat entries\<rparr>);
              let s = put b s in
              if end \<noteq> Some len then Some (s, None)
              else do {
                (bs, repaired) \<leftarrow> repair_slots
                  (down_walk x (slot (int x - (16 - int (unat span * unat entries))))) (rx s, {x});
                fs \<leftarrow> play seq bs repaired older [];
                Some (s\<lparr>rx := bs\<rparr>, Some fs)
              }
            }
          }
        })"

section \<open>Receiving a packet\<close>

text \<open>
  \<open>buf\<close> is the buffer a packet of \<open>len\<close> bytes was read to.  A packet that brings no frame leaves the
  first place of the array of frames as it was, and the caller hands it on.
\<close>

definition deliver :: "t38_frame list \<Rightarrow> t38_frame list \<Rightarrow> t38_frame list" where
  "deliver fs old = (if fs = [] then take 1 old else fs)"

definition udptl_rx_packet :: "u8 list \<Rightarrow> nat \<Rightarrow> cw_udptl \<Rightarrow> (int \<times> cw_udptl) option" where
  "udptl_rx_packet buf len s =
     (let s = s\<lparr>frames := take 1 (frames s)\<rparr>;
          fail = Some (- 1, s);
          primary = (\<lambda>seq msg s fs. do {
            fs \<leftarrow> (if seq \<ge> rx_seq_no s then add_frame seq msg fs else Some fs);
            Some (0, s\<lparr>rx_seq_no := seq + 1, frames := deliver fs (frames s)\<rparr>) }) in
      if 2 > len then fail
      else do {
        b0 \<leftarrow> byte buf 0;
        b1 \<leftarrow> byte buf 1;
        (_, msg) \<leftarrow> decode_open_type buf len 2;
        let seq = int (unat b0 * 256 + unat b1) in
        case msg of
          None \<Rightarrow> fail
        | Some (msg, ptr) \<Rightarrow>
            if ptr + 1 > len then fail
            else do {
              b \<leftarrow> byte buf ptr;
              if b AND 0x80 = 0
              then do {
                items \<leftarrow> secondary buf len (ptr + 1) [];
                case items of
                  None \<Rightarrow> fail
                | Some (items, ptr) \<Rightarrow>
                    if ptr \<noteq> len then fail
                    else do {
                      fs \<leftarrow> (if seq > rx_seq_no s then replay seq (rx_seq_no s) items [] (length items) else Some []);
                      primary seq msg s fs
                    }
              }
              else do {
                (s, fs) \<leftarrow> rx_fec buf len (ptr + 1) seq msg s;
                case fs of None \<Rightarrow> Some (- 1, s) | Some fs \<Rightarrow> primary seq msg s fs
              }
            }
      })"

section \<open>Sending a packet\<close>

text \<open>The messages of the slots on a walk, combined byte by byte up to the longest.\<close>

definition xor_into :: "u8 list \<Rightarrow> u8 list \<Rightarrow> u8 list" where
  "xor_into acc msg =
     (if length acc < length msg
      then map2 (XOR) acc (take (length acc) msg) @ drop (length acc) msg
      else map2 (XOR) (take (length msg) acc) msg @ drop (length msg) acc)"

definition sent :: "cw_udptl \<Rightarrow> nat \<Rightarrow> u8 list" where
  "sent s i = (case tx s ! i of None \<Rightarrow> [] | Some msg \<Rightarrow> msg)"

fun encode_slots :: "cw_udptl \<Rightarrow> nat list \<Rightarrow> u8 list option" where
  "encode_slots s [] = Some []"
| "encode_slots s (j # js) =
     (case tx s ! j of
        None \<Rightarrow> None
      | Some msg \<Rightarrow> map_option ((@) (encode_open_type msg)) (encode_slots s js))"

text \<open>
  The error recovery part of a packet; the inner \<open>None\<close> is the return value -1, when a slot that was
  never filled is to be encoded.
\<close>

definition recovery :: "nat \<Rightarrow> cw_udptl \<Rightarrow> u8 list option" where
  "recovery seq s =
     (case error_correction_scheme s of
        UDPTL_ERROR_CORRECTION_NONE \<Rightarrow> Some (0 # fst (encode_length 0))
      | UDPTL_ERROR_CORRECTION_REDUNDANCY \<Rightarrow>
          (let entries = (if tx_seq_no s > error_correction_entries s then error_correction_entries s else tx_seq_no s) in
           map_option (\<lambda>bs. 0 # fst (encode_length entries) @ bs)
             (encode_slots s (map (\<lambda>i. slot (int seq - int i - 1)) [0..<entries])))
      | UDPTL_ERROR_CORRECTION_FEC \<Rightarrow>
          (let windup = seq < error_correction_span s * error_correction_entries s;
               entries = (if windup then seq div error_correction_span s else error_correction_entries s);
               span = (if windup \<and> seq < error_correction_span s then 0 else error_correction_span s);
               entry = (\<lambda>m. fold (\<lambda>i acc. xor_into acc (sent s i)) (ring_walk (slot (int (seq + m))) span entries) [])
           in Some ([0x80, 1, of_nat span, of_nat entries] @ concat (map (\<lambda>m. encode_open_type (entry m)) [0..<entries]))))"

text \<open>
  The packet is built in a buffer of \<open>LOCAL_FAX_MAX_DATAGRAM\<close> bytes and the message is copied to a slot
  of that size, both without a check.
\<close>

definition udptl_build_packet :: "u8 list \<Rightarrow> cw_udptl \<Rightarrow> (u8 list option \<times> cw_udptl) option" where
  "udptl_build_packet msg s =
     (let seq = tx_seq_no s mod 65536;
          s = s\<lparr>tx := (tx s)[slot (int seq) := Some msg]\<rparr>;
          head = [of_nat (seq div 256), of_nat (seq mod 256)] @ encode_open_type msg in
      if length msg > LOCAL_FAX_MAX_DATAGRAM then None
      else case recovery seq s of
        None \<Rightarrow> Some (None, s)
      | Some bs \<Rightarrow> if length (head @ bs) > LOCAL_FAX_MAX_DATAGRAM then None
                   else Some (Some (head @ bs), s\<lparr>tx_seq_no := tx_seq_no s + 1\<rparr>))"

section \<open>The interface\<close>

text \<open>
  \<open>cw_udptl_write\<close> with the peer of the socket: \<open>addr\<close> and \<open>port\<close> are zero when it is not known.  The last
  result is the packets handed to the socket.
\<close>

definition cw_udptl_write ::
    "nat \<Rightarrow> nat \<Rightarrow> bool \<Rightarrow> int \<Rightarrow> u8 list \<Rightarrow> cw_udptl \<Rightarrow> (int \<times> u8 list list \<times> cw_udptl) option" where
  "cw_udptl_write addr port modem tx_copies octets s =
     (if addr = 0 then Some (0, [], s)
      else if octets = [] then Some (0, [], s)
      else if \<not> modem then Some (- 1, [], s)
      else case udptl_build_packet octets s of
        None \<Rightarrow> None
      | Some (p, s) \<Rightarrow>
          Some (0, (case p of
                      Some p \<Rightarrow> if p \<noteq> [] \<and> port \<noteq> 0 then replicate (if tx_copies > 0 then nat tx_copies else 1) p else []
                    | None \<Rightarrow> []), s))"

text \<open>\<open>cw_udptl_read\<close> on the result of the socket: \<open>None\<close> is a read error, answered by an empty frame.\<close>

definition cw_udptl_read :: "(u8 list \<times> nat) option \<Rightarrow> cw_udptl \<Rightarrow> (t38_frame list \<times> cw_udptl) option" where
  "cw_udptl_read recv s =
     (case recv of
        None \<Rightarrow> Some ([], s)
      | Some (buf, len) \<Rightarrow> map_option (\<lambda>(_, s). (frames s, s)) (udptl_rx_packet buf len s))"

definition cw_udptl_set_error_correction_scheme :: "int \<Rightarrow> cw_udptl \<Rightarrow> cw_udptl" where
  "cw_udptl_set_error_correction_scheme ec s =
     (if ec = 1 then s\<lparr>error_correction_scheme := UDPTL_ERROR_CORRECTION_FEC\<rparr>
      else if ec = 2 then s\<lparr>error_correction_scheme := UDPTL_ERROR_CORRECTION_REDUNDANCY\<rparr>
      else if ec = 0 then s\<lparr>error_correction_scheme := UDPTL_ERROR_CORRECTION_NONE\<rparr>
      else s)"

text \<open>The list of protocols: entries are addresses with the address of their type.\<close>

type_synonym proto = "nat \<times> nat"

definition cw_udptl_proto_register :: "proto \<Rightarrow> proto list \<Rightarrow> int \<times> proto list" where
  "cw_udptl_proto_register p protos = (if snd p \<in> snd ` set protos then (- 1, protos) else (0, p # protos))"

fun cw_udptl_proto_unregister :: "nat \<Rightarrow> proto list \<Rightarrow> proto list" where
  "cw_udptl_proto_unregister a [] = []"
| "cw_udptl_proto_unregister a (p # ps) = (if fst p = a then ps else p # cw_udptl_proto_unregister a ps)"

definition get_proto :: "nat \<Rightarrow> proto list \<Rightarrow> proto option" where
  "get_proto type protos = find (\<lambda>p. snd p = type) protos"

section \<open>Octet strings are read back\<close>

lemma byte_append [simp]:
  "byte (pre @ b # post) (length pre) = Some b" "byte (pre @ b # c # post) (Suc (length pre)) = Some c"
  by (simp_all add: byte_def nth_append)

lemma short_byte: "v < 128 \<Longrightarrow> (of_nat v :: u8) AND 0x80 = 0 \<and> unat (of_nat v :: u8) = v"
proof -
  have "\<forall>v\<in>set [0..<128]. (of_nat v :: u8) AND 0x80 = 0 \<and> unat (of_nat v :: u8) = v" by code_simp
  then show "v < 128 \<Longrightarrow> ?thesis" by simp
qed

lemma long_byte: "h < 64 \<Longrightarrow> (of_nat (128 + h) :: u8) AND 0x80 \<noteq> 0 \<and> (of_nat (128 + h) :: u8) AND 0x40 = 0 \<and>
  unat ((of_nat (128 + h) :: u8) AND 0x3F) = h"
proof -
  have "\<forall>h\<in>set [0..<64]. (of_nat (128 + h) :: u8) AND 0x80 \<noteq> 0 \<and> (of_nat (128 + h) :: u8) AND 0x40 = 0 \<and>
    unat ((of_nat (128 + h) :: u8) AND 0x3F) = h" by code_simp
  then show "h < 64 \<Longrightarrow> ?thesis" by simp
qed

lemma unat_byte: "v < 256 \<Longrightarrow> unat (of_nat v :: u8) = v"
  by (simp add: unat_of_nat take_bit_nat_eq_self)

lemma decode_encode_length:
  assumes "v < 0x4000" "length pre + length (fst (encode_length v)) \<le> limit"
  shows "decode_length (pre @ fst (encode_length v) @ post) limit (length pre) =
    Some (Some (False, v, length pre + length (fst (encode_length v))))"
proof (cases "v < 128")
  case True
  then show ?thesis using assms(2) short_byte [OF True] by (simp add: decode_length_def encode_length_def)
next
  case False
  define h where "h = v div 256"
  have h: "h < 64" "(0x8000 + v) div 256 = 128 + h" "h * 256 + v mod 256 = v" using assms(1) by (simp_all add: h_def)
  have e: "fst (encode_length v) = [of_nat (128 + h), of_nat (v mod 256)]"
    using False assms(1) by (simp only: encode_length_def h(2) if_False if_True fst_conv)
  show ?thesis
    using assms(2) long_byte [OF h(1)] h(3) unat_byte [of "v mod 256"] unfolding e decode_length_def
    by (simp del: of_nat_add)
qed

lemma encode_length_short: "v < 0x4000 \<Longrightarrow> snd (encode_length v) = v"
  by (simp add: encode_length_def)

lemma encode_open_short:
  assumes "d \<noteq> []" "length d < 0x4000"
  shows "encode_open_type d = fst (encode_length (length d)) @ d"
  using encode_length_short [OF assms(2)] assms(1)
  by (simp add: encode_open_type_def encode_parts.simps [of d] split_beta)

lemma decode_encode_open:
  assumes "d \<noteq> []" "length d < 0x4000" "length pre + length (encode_open_type d) \<le> limit"
  shows "decode_open_type (pre @ encode_open_type d @ post) limit (length pre) =
    Some (length d, Some (d, length pre + length (encode_open_type d)))"
proof -
  let ?l = "fst (encode_length (length d))"
  have "decode_length (pre @ ?l @ d @ post) limit (length pre) = Some (Some (False, length d, length pre + length ?l))"
    using assms by (intro decode_encode_length) (auto simp: encode_open_short)
  then show ?thesis
    using assms by (simp add: encode_open_short decode_open_type_def open_loop.simps)
qed

text \<open>
  C34. An octet string of 1 to 16383 bytes is read back as it was written, from any place of a
  buffer, when the packet does not end before.
\<close>

theorem open_type_roundtrip:
  assumes "d \<noteq> []" "length d < 0x4000" "length pre + length (encode_open_type d) \<le> limit"
  shows "decode_open_type (pre @ encode_open_type d @ post) limit (length pre) =
    Some (length d, Some (d, length pre + length (encode_open_type d)))"
  by (rule decode_encode_open [OF assms])

theorem open_type_roundtrip_witness:
  "decode_open_type ([7] @ encode_open_type [1, 2, 3] @ [9]) 5 1 = Some (3, Some ([1, 2, 3], 5))"
  using open_type_roundtrip [of "[1, 2, 3]" "[7]" 5 "[9]"]
  by (simp add: encode_open_short encode_length_def)

section \<open>Redundant packets are read back\<close>

definition messages_ok :: "u8 list list \<Rightarrow> bool" where
  "messages_ok ms \<longleftrightarrow> (\<forall>m\<in>set ms. m \<noteq> [] \<and> length m < 0x4000)"

abbreviation encode_all :: "u8 list list \<Rightarrow> u8 list" where
  "encode_all ms \<equiv> concat (map encode_open_type ms)"

lemma read_items_encoded:
  "messages_ok ms \<Longrightarrow> length acc + length ms \<le> BUFS \<Longrightarrow> length pre + length (encode_all ms) \<le> limit \<Longrightarrow>
   read_items (pre @ encode_all ms @ post) limit (length ms) (length pre) acc =
     Some (Some (acc @ ms, length pre + length (encode_all ms)))"
proof (induction ms arbitrary: pre acc)
  case (Cons m ms)
  have d: "decode_open_type (pre @ encode_open_type m @ encode_all ms @ post) limit (length pre) =
      Some (length m, Some (m, length pre + length (encode_open_type m)))"
    using Cons.prems by (intro decode_encode_open) (auto simp: messages_ok_def)
  show ?case
    using Cons.IH [of "acc @ [m]" "pre @ encode_open_type m"] Cons.prems d
    by (simp add: messages_ok_def)
qed simp

lemma read_items_overrun:
  "messages_ok ms \<Longrightarrow> length acc \<le> BUFS \<Longrightarrow> BUFS < length acc + length ms \<Longrightarrow>
   length pre + length (encode_all ms) \<le> limit \<Longrightarrow>
   read_items (pre @ encode_all ms @ post) limit (length ms) (length pre) acc = None"
proof (induction ms arbitrary: pre acc)
  case (Cons m ms)
  have d: "decode_open_type (pre @ encode_open_type m @ encode_all ms @ post) limit (length pre) =
      Some (length m, Some (m, length pre + length (encode_open_type m)))"
    using Cons.prems by (intro decode_encode_open) (auto simp: messages_ok_def)
  show ?case
    using Cons.IH [of "acc @ [m]" "pre @ encode_open_type m"] Cons.prems d
    by (cases "length acc = BUFS") (auto simp: messages_ok_def)
qed simp

definition secondary_part :: "u8 list list \<Rightarrow> u8 list" where
  "secondary_part ms = fst (encode_length (length ms)) @ encode_all ms"

lemma secondary_encoded:
  assumes "messages_ok ms" "length ms < 0x4000" "length pre + length (secondary_part ms) \<le> limit"
  shows "secondary (pre @ secondary_part ms @ post) limit (length pre) [] =
    (if length ms \<le> BUFS then Some (Some (ms, length pre + length (secondary_part ms))) else None)"
proof -
  let ?l = "fst (encode_length (length ms))"
  have l: "decode_length (pre @ ?l @ encode_all ms @ post) limit (length pre) =
      Some (Some (False, length ms, length pre + length ?l))"
    using assms by (intro decode_encode_length) (auto simp: secondary_part_def)
  show ?thesis
    using read_items_encoded [OF assms(1), of "[]" "pre @ ?l" limit post]
      read_items_overrun [OF assms(1), of "[]" "pre @ ?l" limit post] l assms(3)
    by (auto simp: secondary_part_def secondary.simps)
qed

text \<open>A packet with the sequence number \<open>seq\<close>, a message and earlier ones, the latest first.\<close>

definition packet :: "nat \<Rightarrow> u8 list \<Rightarrow> u8 list list \<Rightarrow> u8 list" where
  "packet seq msg items =
     [of_nat (seq div 256), of_nat (seq mod 256)] @ encode_open_type msg @ 0 # secondary_part items"

definition msg_ok :: "u8 list \<Rightarrow> bool" where
  "msg_ok m \<longleftrightarrow> m \<noteq> [] \<and> length m < 0x4000"

lemma rx_packet:
  assumes "seq < 65536" "msg_ok msg" "messages_ok items" "length items < 0x4000"
  shows "udptl_rx_packet (packet seq msg items) (length (packet seq msg items)) s =
    (if length items \<le> BUFS
     then do {
       fs \<leftarrow> (if int seq > rx_seq_no s then replay (int seq) (rx_seq_no s) items [] (length items) else Some []);
       fs \<leftarrow> (if int seq \<ge> rx_seq_no s then add_frame (int seq) msg fs else Some fs);
       Some (0, s\<lparr>rx_seq_no := int seq + 1, frames := deliver fs (take 1 (frames s))\<rparr>)
     } else None)"
proof -
  let ?p = "packet seq msg items" and ?e = "encode_open_type msg"
  define hd2 where "hd2 = [of_nat (seq div 256), of_nat (seq mod 256) :: u8]"
  have p: "?p = hd2 @ ?e @ 0 # secondary_part items" "length hd2 = 2" by (simp_all add: packet_def hd2_def)
  have b: "byte ?p 0 = Some (of_nat (seq div 256))" "byte ?p 1 = Some (of_nat (seq mod 256))"
    by (simp_all add: packet_def byte_def)
  have d: "decode_open_type ?p (length ?p) 2 = Some (length msg, Some (msg, 2 + length ?e))"
    using decode_encode_open [of msg hd2 "length ?p" "0 # secondary_part items"] assms(2) p by (simp add: msg_ok_def)
  have z: "byte ?p (2 + length ?e) = Some 0"
    using byte_append(1) [of "hd2 @ ?e" 0 "secondary_part items"] p by simp
  have s: "secondary ?p (length ?p) (Suc (2 + length ?e)) [] =
      (if length items \<le> BUFS then Some (Some (items, length ?p)) else None)"
    using secondary_encoded [OF assms(3,4), of "hd2 @ ?e @ [0]" "length ?p" "[]"] p by simp
  have q: "unat (of_nat (seq div 256) :: u8) * 256 + unat (of_nat (seq mod 256) :: u8) = seq"
    using assms(1) by (simp add: unat_byte)
  have l: "\<not> length ?p < 2" "\<not> length ?p < 2 + length ?e + 1" by (simp_all add: packet_def)
  show ?thesis
    unfolding udptl_rx_packet_def Let_def b d using l s z q by (simp add: Let_def)
qed

text \<open>
  C37. A packet with more than 16 secondary packets, which anyone can send, makes the receiver write
  behind its arrays, whatever state it is in.
\<close>

theorem secondary_packets_overrun:
  assumes "seq < 65536" "msg_ok msg" "messages_ok items" "length items < 0x4000" "16 < length items"
  shows "udptl_rx_packet (packet seq msg items) (length (packet seq msg items)) s = None"
  using rx_packet [OF assms(1-4), of s] assms(5) by (simp add: BUFS_def)

theorem secondary_packets_overrun_witness:
  "\<exists>s. cw_udptl_new True UDPTL_ERROR_CORRECTION_NONE 0 0 = Some s \<and>
    udptl_rx_packet (packet 5 [1] (replicate 17 [2])) (length (packet 5 [1] (replicate 17 [2]))) s = None"
proof -
  have "messages_ok (replicate 17 [2])" by (simp add: messages_ok_def)
  then show ?thesis
    using secondary_packets_overrun [of 5 "[1]" "replicate 17 [2]"] by (auto simp: cw_udptl_new_def msg_ok_def)
qed

abbreviation replayed :: "int \<Rightarrow> u8 list list \<Rightarrow> nat \<Rightarrow> t38_frame list" where
  "replayed seq items k \<equiv> map (\<lambda>i. \<lparr>fr_seq = seq - int i, fr_data = items ! (i - 1)\<rparr>) (rev [1..<Suc k])"

lemma replay_frames:
  "length fs + min n k \<le> BUFS \<Longrightarrow> replay seq (seq - int k) items fs n = Some (fs @ replayed seq items (min n k))"
proof (induction n arbitrary: fs)
  case (Suc n)
  show ?case
  proof (cases "n < k")
    case True
    define f where "f = \<lparr>fr_seq = seq - int (Suc n), fr_data = items ! n\<rparr>"
    have "add_frame (seq - int (Suc n)) (items ! n) fs = Some (fs @ [f])"
      using True Suc.prems by (simp add: add_frame_def f_def)
    then have "replay seq (seq - int k) items fs (Suc n) = replay seq (seq - int k) items (fs @ [f]) n"
      using True by simp
    also have "\<dots> = Some (fs @ f # replayed seq items n)"
      using Suc.IH [of "fs @ [f]"] Suc.prems True by simp
    finally show ?thesis using True by (simp add: f_def)
  next
    case False
    then show ?thesis using Suc by simp
  qed
qed simp

section \<open>What the sender keeps\<close>

definition holds :: "cw_udptl \<Rightarrow> u8 list list \<Rightarrow> bool" where
  "holds s ms \<longleftrightarrow> tx_seq_no s = length ms \<and> length (tx s) = BUFS \<and>
     (\<forall>i < length ms. length ms \<le> i + BUFS \<longrightarrow> tx s ! slot (int i) = Some (ms ! i))"

lemma slot_nat [simp]: "slot (int i) = i mod BUFS"
  by (simp add: slot_def BUFS_def nat_mod_distrib)

lemma mod_window: "i < n \<Longrightarrow> n < i + BUFS \<Longrightarrow> i mod BUFS \<noteq> n mod BUFS"
proof
  assume "i < n" "n < i + BUFS" "i mod BUFS = n mod BUFS"
  then have "BUFS dvd n - i" by (metis mod_eq_dvd_iff_nat less_imp_le)
  then show False using \<open>i < n\<close> \<open>n < i + BUFS\<close> by (auto dest: dvd_imp_le)
qed

lemma holds_sent:
  assumes "holds s ms" "length ms < 65536"
  shows "holds (s\<lparr>tx := (tx s)[slot (int (tx_seq_no s mod 65536)) := Some msg], tx_seq_no := tx_seq_no s + 1\<rparr>) (ms @ [msg])"
proof -
  have n: "tx_seq_no s = length ms" "length (tx s) = BUFS" using assms(1) by (simp_all add: holds_def)
  have "(tx s)[length ms mod BUFS := Some msg] ! (i mod BUFS) = Some ((ms @ [msg]) ! i)"
    if "i < Suc (length ms)" "Suc (length ms) \<le> i + BUFS" for i
  proof (cases "i = length ms")
    case True
    then show ?thesis using n(2) by (simp add: BUFS_def)
  next
    case False
    then have "i mod BUFS \<noteq> length ms mod BUFS" using that by (intro mod_window) auto
    then show ?thesis using False that assms(1) by (simp add: holds_def nth_append)
  qed
  then show ?thesis using n assms(2) by (simp add: holds_def)
qed

lemma encode_slots_messages:
  "(\<And>i. i \<in> set is \<Longrightarrow> tx s ! f i = Some (g i)) \<Longrightarrow> encode_slots s (map f is) = Some (encode_all (map g is))"
  by (induction "is") auto

definition earlier :: "u8 list list \<Rightarrow> nat \<Rightarrow> u8 list list" where
  "earlier ms k = map (\<lambda>i. ms ! (length ms - 1 - i)) [0..<k]"

lemma build_redundant:
  assumes "holds s ms" "error_correction_scheme s = UDPTL_ERROR_CORRECTION_REDUNDANCY" "length ms < 65536"
    and "error_correction_entries s < BUFS" "udptl_build_packet msg s = Some (r, s')"
  shows "r = Some (packet (length ms) msg (earlier ms (min (error_correction_entries s) (length ms)))) \<and>
    holds s' (ms @ [msg]) \<and> error_correction_scheme s' = error_correction_scheme s \<and>
    error_correction_entries s' = error_correction_entries s"
proof -
  let ?e = "error_correction_entries s" and ?n = "length ms"
  define s1 where "s1 = s\<lparr>tx := (tx s)[?n mod BUFS := Some msg]\<rparr>"
  have n: "tx_seq_no s = ?n" "?n mod 65536 = ?n" "length (tx s) = BUFS" using assms(1,3) by (simp_all add: holds_def)
  have w: "tx s1 ! slot (int ?n - int i - 1) = Some (ms ! (?n - 1 - i))" if "i < min ?e ?n" for i
  proof -
    define j where "j = ?n - 1 - i"
    have j: "int ?n - int i - 1 = int j" "j < ?n" "?n < j + BUFS" using that assms(4) by (auto simp: j_def)
    have "j mod BUFS \<noteq> ?n mod BUFS" using j by (intro mod_window) auto
    then show ?thesis unfolding j(1) slot_nat using j assms(1) by (simp add: s1_def holds_def j_def)
  qed
  define c where "c = min ?e ?n"
  have c: "(if tx_seq_no s1 > error_correction_entries s1 then error_correction_entries s1 else tx_seq_no s1) = c"
    using n(1) by (auto simp: s1_def c_def)
  have e: "encode_slots s1 (map (\<lambda>i. slot (int ?n - int i - 1)) [0..<c]) = Some (encode_all (earlier ms c))"
    unfolding earlier_def by (rule encode_slots_messages) (use w in \<open>simp add: c_def\<close>)
  have sc: "error_correction_scheme s1 = UDPTL_ERROR_CORRECTION_REDUNDANCY" using assms(2) by (simp add: s1_def)
  have "length (earlier ms c) = c" by (simp add: earlier_def)
  then have rec: "recovery ?n s1 = Some (0 # secondary_part (earlier ms c))"
    unfolding recovery_def sc c Let_def secondary_part_def by (simp add: e)
  have "r = Some (packet ?n msg (earlier ms c))" "s' = s1\<lparr>tx_seq_no := tx_seq_no s1 + 1\<rparr>"
    using assms(5) rec n by (auto simp: udptl_build_packet_def Let_def s1_def packet_def split: if_splits)
  then show ?thesis using holds_sent [OF assms(1,3), of msg] n by (simp add: s1_def c_def)
qed

fun send_all :: "u8 list list \<Rightarrow> cw_udptl \<Rightarrow> (u8 list list \<times> cw_udptl) option" where
  "send_all [] s = Some ([], s)"
| "send_all (m # ms) s =
     (case udptl_build_packet m s of
        Some (Some p, s) \<Rightarrow> map_option (apfst ((#) p)) (send_all ms s)
      | _ \<Rightarrow> None)"

lemma send_all_packets:
  assumes "holds s ms" "error_correction_scheme s = UDPTL_ERROR_CORRECTION_REDUNDANCY"
    and "length ms + length new < 65536" "error_correction_entries s = e" "e < BUFS" "send_all new s = Some (ps, s')"
  shows "length ps = length new \<and> (\<forall>j < length new. ps ! j =
    packet (length ms + j) (new ! j) (earlier (ms @ take j new) (min e (length ms + j))))"
  using assms
proof (induction new arbitrary: s ms ps)
  case (Cons m new)
  from Cons.prems(6) obtain p s1 where b: "udptl_build_packet m s = Some (Some p, s1)"
    and r: "map_option (apfst ((#) p)) (send_all new s1) = Some (ps, s')"
    by (auto split: option.splits prod.splits)
  then obtain qs where q: "send_all new s1 = Some (qs, s')" "ps = p # qs" by auto
  have h: "p = packet (length ms) m (earlier ms (min e (length ms)))" "holds s1 (ms @ [m])"
    "error_correction_scheme s1 = UDPTL_ERROR_CORRECTION_REDUNDANCY" "error_correction_entries s1 = e"
    using build_redundant [OF Cons.prems(1,2) _ _ b] Cons.prems(2-5) by simp_all
  from Cons.IH [OF h(2,3) _ h(4) Cons.prems(5) q(1)] Cons.prems(3) h(1) q(2) show ?case
    by (auto simp: nth_Cons split: nat.splits)
qed simp

lemma new_holds: "cw_udptl_new True scheme span e = Some s \<Longrightarrow> holds s []"
  by (auto simp: cw_udptl_new_def holds_def)

lemma earlier_ok: "messages_ok ms \<Longrightarrow> k \<le> length ms \<Longrightarrow> messages_ok (earlier ms k)"
  by (force simp: messages_ok_def earlier_def)

lemma replayed_earlier:
  assumes "k \<le> e" "e \<le> length ms"
  shows "replayed (int (length ms)) (earlier ms e) k @ [\<lparr>fr_seq = int (length ms), fr_data = m\<rparr>] =
    map (\<lambda>i. \<lparr>fr_seq = int i, fr_data = (ms @ [m]) ! i\<rparr>) [length ms - k..<Suc (length ms)]"
  using assms
proof (induction k)
  case (Suc k)
  have "[length ms - Suc k..<Suc (length ms)] = (length ms - Suc k) # [length ms - k..<Suc (length ms)]"
    using Suc.prems by (subst upt_conv_Cons) (simp_all add: Suc_diff_Suc Suc_le_lessD)
  then show ?case using Suc by (auto simp: earlier_def nth_append of_nat_diff)
qed simp



text \<open>
  A packet that is late or repeated brings no new message, but the frame handed to the caller is
  then the first one of the packet before, once more.
\<close>

theorem late_packet_repeats_frame:
  assumes "seq < 65536" "msg_ok msg" "messages_ok items" "length items \<le> 16" "int seq < rx_seq_no s" "frames s = f # fs"
  shows "udptl_rx_packet (packet seq msg items) (length (packet seq msg items)) s =
    Some (0, s\<lparr>rx_seq_no := int seq + 1, frames := [f]\<rparr>)"
  using rx_packet [OF assms(1-3), of s] assms(4-6) by (simp add: BUFS_def deliver_def)

theorem late_packet_repeats_frame_witness:
  "\<exists>s. cw_udptl_new True UDPTL_ERROR_CORRECTION_NONE 0 0 = Some s \<and>
    (let s = s\<lparr>rx_seq_no := 65536, frames := [\<lparr>fr_seq = 65535, fr_data = [7]\<rparr>]\<rparr> in
     udptl_rx_packet (packet 0 [1] []) (length (packet 0 [1] [])) s =
       Some (0, s\<lparr>rx_seq_no := 1, frames := [\<lparr>fr_seq = 65535, fr_data = [7]\<rparr>]\<rparr>))"
proof -
  obtain s where "cw_udptl_new True UDPTL_ERROR_CORRECTION_NONE 0 0 = Some s" by (simp add: cw_udptl_new_def)
  moreover have "udptl_rx_packet (packet 0 [1] []) (length (packet 0 [1] []))
       (s\<lparr>rx_seq_no := 65536, frames := [\<lparr>fr_seq = 65535, fr_data = [7]\<rparr>]\<rparr>) =
       Some (0, s\<lparr>rx_seq_no := 65536, frames := [\<lparr>fr_seq = 65535, fr_data = [7]\<rparr>]\<rparr>
         \<lparr>rx_seq_no := int 0 + 1, frames := [\<lparr>fr_seq = 65535, fr_data = [7]\<rparr>]\<rparr>)"
    by (rule late_packet_repeats_frame) (simp_all add: msg_ok_def messages_ok_def)
  ultimately show ?thesis by (simp add: Let_def)
qed

section \<open>Parity repairs a lost packet\<close>

definition pad :: "u8 list \<Rightarrow> nat \<Rightarrow> u8" where
  "pad m j = (if j < length m then m ! j else 0)"

lemma length_xor_into [simp]: "length (xor_into a m) = max (length a) (length m)"
  by (auto simp: xor_into_def)

lemma pad_xor_into: "pad (xor_into a m) j = pad a j XOR pad m j"
  by (auto simp: pad_def xor_into_def nth_append)

definition xor_sum :: "('k \<Rightarrow> u8) \<Rightarrow> 'k list \<Rightarrow> u8" where
  "xor_sum h ks = fold (\<lambda>k b. b XOR h k) ks 0"

lemma fold_xor: "fold (\<lambda>k b. b XOR h k) ks b = b XOR xor_sum h ks"
proof (induction ks arbitrary: b)
  case (Cons k ks)
  show ?case
    using Cons.IH [of "b XOR h k"] Cons.IH [of "0 XOR h k"] by (simp add: xor_sum_def xor.assoc)
qed (simp add: xor_sum_def)

lemma xor_sum_Nil [simp]: "xor_sum h [] = 0"
  by (simp add: xor_sum_def)

lemma xor_sum_Cons [simp]: "xor_sum h (k # ks) = h k XOR xor_sum h ks"
  by (simp add: xor_sum_def) (simp add: fold_xor flip: xor_sum_def)

lemma pad_fold: "pad (fold (\<lambda>k a. xor_into a (g k)) ks a) j = pad a j XOR xor_sum (\<lambda>k. pad (g k) j) ks"
  by (induction ks arbitrary: a) (simp_all add: pad_xor_into xor.assoc)

lemma length_fold_xor:
  "length a \<le> length (fold (\<lambda>k a. xor_into a (g k)) ks a) \<and>
   (\<forall>k\<in>set ks. length (g k) \<le> length (fold (\<lambda>k a. xor_into a (g k)) ks a))"
proof (induction ks arbitrary: a)
  case (Cons k ks)
  show ?case using Cons.IH [of "xor_into a (g k)"] by auto
qed simp

lemma xor_sum_cong: "(\<And>k. k \<in> set ks \<Longrightarrow> h k = h' k) \<Longrightarrow> xor_sum h ks = xor_sum h' ks"
  by (induction ks) auto

lemma xor_sum_one_missing:
  assumes "distinct ks" "w \<in> set ks" "h' w = 0" "\<And>k. k \<in> set ks \<Longrightarrow> k \<noteq> w \<Longrightarrow> h' k = h k"
  shows "xor_sum h ks XOR xor_sum h' ks = h w"
  using assms
proof (induction ks)
  case (Cons k ks)
  show ?case
  proof (cases "k = w")
    case True
    then have "xor_sum h' ks = xor_sum h ks" using Cons.prems by (intro xor_sum_cong) auto
    then show ?thesis using True Cons.prems(3) by (auto intro!: bit_eqI simp: bit_xor_iff)
  next
    case False
    then have e: "h' k = h k" and w: "xor_sum h ks XOR xor_sum h' ks = h w" using Cons by auto
    have "(h k XOR xor_sum h ks) XOR (h k XOR xor_sum h' ks) = xor_sum h ks XOR xor_sum h' ks"
      by (auto intro!: bit_eqI simp: bit_xor_iff)
    then show ?thesis using e w by simp
  qed
qed simp

lemma ring_walk_map:
  obtains t where "ring_walk limit span entries =
      map (\<lambda>j. slot (int limit - int (span * entries) + int (j * entries))) [0..<t]"
    "\<forall>j < t. slot (int limit - int (span * entries) + int (j * entries)) \<noteq> limit"
proof -
  let ?f = "\<lambda>j. slot (int limit - int (span * entries) + int (j * entries))"
  define t where "t = length (ring_walk limit span entries)"
  have "ring_walk limit span entries = take t (map ?f [0..<BUFS])"
    unfolding t_def ring_walk_def by (rule takeWhile_eq_take)
  moreover have "t \<le> BUFS" using length_takeWhile_le [of _ "map ?f [0..<BUFS]"] by (simp add: t_def ring_walk_def)
  ultimately have m: "ring_walk limit span entries = map ?f [0..<t]" by (simp add: take_map take_upt)
  moreover have "\<forall>k\<in>set (ring_walk limit span entries). k \<noteq> limit"
    by (auto simp: ring_walk_def dest: set_takeWhileD)
  ultimately show thesis using that by auto
qed

lemma slot_eq: "slot a = slot b \<longleftrightarrow> a mod 16 = b mod 16"
  by (simp add: slot_def eq_nat_nat_iff)

lemma ring_walk_distinct:
  assumes "limit < BUFS"
  shows "distinct (ring_walk limit span entries)"
proof -
  define f where "f j = slot (int limit - int (span * entries) + int (j * entries))" for j
  obtain t where t: "ring_walk limit span entries = map f [0..<t]" "\<forall>j < t. f j \<noteq> limit"
    using ring_walk_map [of limit span entries] unfolding f_def by metis
  have span: "f span = limit" using assms by (simp add: f_def)
  have False if ij: "i < j" "j < t" "f i = f j" for i j
  proof -
    define d where "d = j - i"
    have "16 dvd int (i * entries) - int (j * entries)"
      using ij(3) unfolding f_def slot_eq mod_eq_dvd_iff by simp
    then have "16 dvd int d * int entries"
      using ij(1) by (subst (asm) dvd_diff_commute) (simp add: d_def of_nat_diff algebra_simps)
    then obtain c where c: "int d * int entries = 16 * c" ..
    have per: "f (x + d * q) = f x" for x q
    proof -
      have "int ((x + d * q) * entries) = int (x * entries) + 16 * (c * int q)"
        using c by (simp add: algebra_simps)
      then have "int limit - int (span * entries) + int ((x + d * q) * entries)
          = int limit - int (span * entries) + int (x * entries) + 16 * (c * int q)" by simp
      then show ?thesis unfolding f_def slot_def by (simp only: mod_mult_self2)
    qed
    have "0 < d" "d < t" using ij by (auto simp: d_def)
    have "f (span mod d) = limit" using per [of "span mod d" "span div d"] span by simp
    moreover have "span mod d < t" using \<open>0 < d\<close> \<open>d < t\<close> by (meson less_trans mod_less_divisor)
    ultimately show False using t(2) by blast
  qed
  then have "inj_on f {0..<t}" by (auto simp: inj_on_def) (metis linorder_neqE_nat)
  then show ?thesis by (simp add: t(1) distinct_map)
qed

lemma find_gap_one:
  assumes "distinct ks" "w \<in> set ks" "rb_len (bs ! w) \<le> 0" "\<And>k. k \<in> set ks \<Longrightarrow> k \<noteq> w \<Longrightarrow> rb_len (bs ! k) > 0"
  shows "find_gap bs ks = int w"
proof -
  let ?f = "\<lambda>k which. if rb_len (bs ! k) \<le> 0 then if which = - 1 then int k else - 2 else which"
  have same: "\<forall>k\<in>set xs. \<not> rb_len (bs ! k) \<le> 0 \<Longrightarrow> fold ?f xs v = v" for xs v
    by (induction xs) auto
  obtain xs ys where ks: "ks = xs @ w # ys" using assms(2) by (auto dest: split_list)
  have "\<forall>k\<in>set xs. \<not> rb_len (bs ! k) \<le> 0" "\<forall>k\<in>set ys. \<not> rb_len (bs ! k) \<le> 0"
    using assms(1,4) by (auto simp: ks not_le)
  then have "fold ?f xs (- 1) = - 1" "fold ?f ys (int w) = int w" using same by blast+
  then show ?thesis using assms(3) by (simp add: find_gap_def ks)
qed

text \<open>
  C36. Parity repairs a single loss: if slot \<open>l\<close> holds, as its \<open>m\<close>-th entry, the parity that the sender
  computes from the messages on the walk, and the receiver has all of these messages but one, then
  the repair puts exactly that message into the empty slot, filled up with zeros to the length of
  the longest message.
\<close>

theorem parity_repairs_loss:
  assumes "ks = ring_walk (slot (int (l + m))) (fec_span (bs ! l)) (fec_entries (bs ! l))" "w \<in> set ks" "w < length bs"
    and got: "\<And>k. k \<in> set ks \<Longrightarrow> k \<noteq> w \<Longrightarrow> orig k \<noteq> [] \<and> rb_len (bs ! k) = int (length (orig k)) \<and>
      take (length (orig k)) (rb_buf (bs ! k)) = orig k"
    and gap: "rb_len (bs ! w) \<le> 0"
    and par: "p = fold (\<lambda>k a. xor_into a (orig k)) ks []" "m < 4" "length p \<le> 400"
      "fec_len (bs ! l) ! m = int (length p)" "take (length p) (fec (bs ! l) ! m) = p"
  shows "\<exists>bs'. repair l m (bs, repaired) = Some (bs', insert w repaired) \<and> rb_len (bs' ! w) = int (length p) \<and>
    take (length p) (rb_buf (bs' ! w)) = orig w @ replicate (length p - length (orig w)) 0"
proof -
  have d: "distinct ks" unfolding assms(1) by (rule ring_walk_distinct) (simp add: slot_def BUFS_def nat_less_iff)
  have g: "find_gap bs ks = int w" using got gap by (intro find_gap_one [OF d assms(2)]) auto
  define octets where "octets = map (\<lambda>j. parity bs ks j (fec (bs ! l) ! m ! j)) [0..<length p]"
  have le: "length (orig w) \<le> length p" using length_fold_xor [of "[]" orig ks] assms(2) par(1) by auto
  have o: "octets ! j = pad (orig w) j" if j: "j < length p" for j
  proof -
    let ?h = "\<lambda>k. pad (orig k) j" and ?h' = "\<lambda>k. if rb_len (bs ! k) > int j then rb_buf (bs ! k) ! j else 0"
    have "?h' k = ?h k" if "k \<in> set ks" "k \<noteq> w" for k
      using got [OF that] by (auto simp: pad_def) (metis nth_take)
    then have "xor_sum ?h ks XOR xor_sum ?h' ks = ?h w"
      using gap by (intro xor_sum_one_missing [OF d assms(2)]) auto
    moreover have "fec (bs ! l) ! m ! j = xor_sum ?h ks"
    proof -
      have "fec (bs ! l) ! m ! j = p ! j" using par(5) j by (metis nth_take)
      also have "\<dots> = pad p j" using j by (simp add: pad_def)
      also have "\<dots> = xor_sum ?h ks" unfolding par(1) pad_fold by (simp add: pad_def)
      finally show ?thesis .
    qed
    moreover have "octets ! j = parity bs ks j (fec (bs ! l) ! m ! j)" using j by (simp add: octets_def)
    ultimately show ?thesis by (simp add: parity_def fold_xor)
  qed
  have oe: "octets = orig w @ replicate (length p - length (orig w)) 0"
    using le o by (intro nth_equalityI) (auto simp: octets_def pad_def nth_append)
  define w' where "w' = (bs ! w)\<lparr>rb_buf := put_front octets (rb_buf (bs ! w)), rb_len := int (length p)\<rparr>"
  have "repair l m (bs, repaired) = Some (bs[w := w'], insert w repaired)"
    using g par(2,3,4) unfolding repair_def prod.case Let_def assms(1) [symmetric]
    by (simp add: MAX_FEC_ENTRIES_def LOCAL_FAX_MAX_DATAGRAM_def w'_def octets_def)
  moreover have "length octets = length p" by (simp add: octets_def)
  ultimately show ?thesis using assms(3) oe by (simp add: w'_def put_front_def)
qed

definition lost_one :: "rx_buffer list" where
  "lost_one = [empty_rx\<lparr>rb_len := 1, rb_buf := [1]\<rparr>, empty_rx, empty_rx\<lparr>rb_len := 1, rb_buf := [4]\<rparr>,
     empty_rx\<lparr>fec_len := [2, 0, 0, 0], fec := [[7, 3], [], [], []], fec_span := 3, fec_entries := 1\<rparr>]"

theorem parity_repairs_loss_witness:
  "\<exists>bs'. repair 3 0 (lost_one, {}) = Some (bs', {1}) \<and> take 2 (rb_buf (bs' ! 1)) = [2, 3]"
proof -
  define orig :: "nat \<Rightarrow> u8 list" where "orig k = (if k = 0 then [1] else if k = 1 then [2, 3] else [4])" for k
  have ks: "ring_walk (slot (int (3 + 0))) (fec_span (lost_one ! 3)) (fec_entries (lost_one ! 3)) = [0, 1, 2]"
    by (simp add: lost_one_def ring_walk_def slot_def BUFS_def upt_rec)
  have p: "fold (\<lambda>k a. xor_into a (orig k)) [0, 1, 2] [] = [7, 3]" by (simp add: orig_def xor_into_def)
  have "\<exists>bs'. repair 3 0 (lost_one, {}) = Some (bs', insert 1 {}) \<and> rb_len (bs' ! 1) = int (length [7 :: u8, 3]) \<and>
      take (length [7 :: u8, 3]) (rb_buf (bs' ! 1)) = orig 1 @ replicate (length [7 :: u8, 3] - length (orig 1)) 0"
    by (rule parity_repairs_loss [where orig = orig, OF ks [symmetric] _ _ _ _ p [symmetric]])
      (auto simp: lost_one_def orig_def empty_rx_def)
  then show ?thesis by (auto simp: orig_def numeral_2_eq_2)
qed

text \<open>More parity entries than the slot has places are written behind it.\<close>

lemma fec_entries_overrun:
  "messages_ok ms \<Longrightarrow> \<forall>m\<in>set ms. length m \<le> LOCAL_FAX_MAX_DATAGRAM \<Longrightarrow> i \<le> MAX_FEC_ENTRIES \<Longrightarrow>
   MAX_FEC_ENTRIES < i + length ms \<Longrightarrow> length pre + length (encode_all ms) \<le> limit \<Longrightarrow>
   read_fec (pre @ encode_all ms @ post) limit (length ms) i (length pre) b = None"
proof (induction ms arbitrary: pre i b)
  case (Cons m ms)
  have d: "decode_open_type (pre @ encode_open_type m @ encode_all ms @ post) limit (length pre) =
      Some (length m, Some (m, length pre + length (encode_open_type m)))"
    using Cons.prems by (intro decode_encode_open) (auto simp: messages_ok_def)
  show ?case
    using Cons.IH [of "Suc i" "pre @ encode_open_type m"] Cons.prems d
    by (cases "i = MAX_FEC_ENTRIES") (auto simp: messages_ok_def Let_def)
qed simp

end
