(* ===== verification/CW_Say.thy ===== *)
theory CW_Say
  imports CW_Decimal "HOL-Library.Monad_Syntax" "HOL-Library.Signed_Division"
begin

text \<open>
  Spoken numbers (\<open>src/corelib/say.c\<close>): character, phonetic and digit strings, and the number
  routines of the eighteen languages with the dispatcher that selects them.

  Streaming a sound file, waiting for its end and stopping it is code of \<open>file.c\<close> and of the
  channel drivers: a \<open>player\<close> of four functions on a channel state \<open>'c\<close>, partially applied to the
  language and to the interrupting digits.  Each language routine is one loop whose body selects the
  next file and the rest of the number; \<open>say_en\<close>, \<open>say_da\<close>, ... are these bodies, and \<open>say_loop\<close>
  is the loop around them with its calls of other number routines.  The numbers are \<open>int\<close> values;
  the divisions of the source are on non-negative operands only, where \<open>/\<close> and \<open>%\<close> are \<open>div\<close>
  and \<open>mod\<close>.  The loop has fuel, because one routine never returns for large numbers.
\<close>

section \<open>Playing a file\<close>

record 'c player =
  streamfile :: "string \<Rightarrow> 'c \<Rightarrow> int \<times> 'c"
  waitstream :: "'c \<Rightarrow> int \<times> 'c"
  waitstream_full :: "int \<Rightarrow> int \<Rightarrow> 'c \<Rightarrow> int \<times> 'c"
  stopstream :: "'c \<Rightarrow> 'c"
  audiofd :: int
  ctrlfd :: int

definition play_digit :: "'c player \<Rightarrow> string \<Rightarrow> 'c \<Rightarrow> int \<times> 'c" where
  "play_digit p fn c =
     (let (res, c) = streamfile p fn c;
          (res, c) = (if res = 0 then waitstream_full p (audiofd p) (ctrlfd p) c else (res, c))
      in (res, stopstream p c))"

definition wait_for_stream :: "'c player \<Rightarrow> 'c \<Rightarrow> int \<times> 'c" where
  "wait_for_stream p c =
     (if audiofd p > - 1 \<and> ctrlfd p > - 1 then waitstream_full p (audiofd p) (ctrlfd p) c
      else waitstream p c)"

definition play_word :: "'c player \<Rightarrow> string \<Rightarrow> 'c \<Rightarrow> int \<times> 'c" where
  "play_word p fn c =
     (let (r, c) = streamfile p fn c;
          (res, c) = (if r = 0 then wait_for_stream p c else (0, c))
      in (res, stopstream p c))"

definition play_word_se :: "'c player \<Rightarrow> string \<Rightarrow> 'c \<Rightarrow> int \<times> 'c" where
  "play_word_se p fn c =
     (let (r, c) = streamfile p fn c
      in if r = 0 then (let (res, c) = wait_for_stream p c in (res, stopstream p c)) else (0, c))"

definition wait_file :: "'c player \<Rightarrow> string \<Rightarrow> 'c \<Rightarrow> int \<times> 'c" where
  "wait_file p fn c =
     (let (res, c) = streamfile p fn c
      in if res = 0 then waitstream p c else (res, c))"

definition play_joint :: "'c player \<Rightarrow> string \<Rightarrow> 'c \<Rightarrow> int \<times> 'c" where
  "play_joint p fn c = (let (res, c) = wait_file p fn c in (res, stopstream p c))"

section \<open>Characters and digits\<close>

definition symbol_file :: "char \<Rightarrow> string option" where
  "symbol_file ch = map_of
     [(CHR ''*'', ''digits/star''), (CHR ''#'', ''digits/pound''),
      (CHR ''!'', ''letters/exclaimation-point''), (CHR 0x40, ''letters/at''),
      (CHR ''$'', ''letters/dollar''), (CHR ''-'', ''letters/dash''), (CHR ''.'', ''letters/dot''),
      (CHR ''='', ''letters/equals''), (CHR ''+'', ''letters/plus''), (CHR ''/'', ''letters/slash''),
      (CHR '' '', ''letters/space'')] ch"

definition character_file :: "char \<Rightarrow> string" where
  "character_file ch =
     (case symbol_file ch of
        Some fn \<Rightarrow> fn
      | None \<Rightarrow> if isdigit ch then ''digits/'' @ [ch] else ''letters/'' @ [tolower ch])"

definition phonetic_file :: "char \<Rightarrow> string" where
  "phonetic_file ch =
     (case symbol_file ch of
        Some fn \<Rightarrow> fn
      | None \<Rightarrow> if isdigit ch \<and> ch \<noteq> CHR ''9'' then ''digits/'' @ [ch]
                else ''phonetic/'' @ [tolower ch] @ ''_p'')"

definition digit_file :: "char \<Rightarrow> string option" where
  "digit_file ch =
     (if ch = CHR ''*'' then Some ''digits/star''
      else if ch = CHR ''#'' then Some ''digits/pound''
      else if ch = CHR ''-'' then Some ''digits/minus''
      else if isdigit ch then Some (''digits/'' @ [ch])
      else None)"

fun say_each :: "'c player \<Rightarrow> (char \<Rightarrow> string) \<Rightarrow> string \<Rightarrow> int \<Rightarrow> 'c \<Rightarrow> int \<times> 'c" where
  "say_each p file [] res c = (res, c)"
| "say_each p file (ch # s) res c = (let (res, c) = play_digit p (file ch) c in say_each p file s res c)"

definition cw_say_character_str_full :: "'c player \<Rightarrow> string \<Rightarrow> 'c \<Rightarrow> int \<times> 'c" where
  "cw_say_character_str_full p str c = say_each p character_file str 0 c"

definition cw_say_phonetic_str_full :: "'c player \<Rightarrow> string \<Rightarrow> 'c \<Rightarrow> int \<times> 'c" where
  "cw_say_phonetic_str_full p str c = say_each p phonetic_file str 0 c"

fun cw_say_digit_str_full :: "'c player \<Rightarrow> string \<Rightarrow> 'c \<Rightarrow> int \<times> 'c" where
  "cw_say_digit_str_full p [] c = (0, c)"
| "cw_say_digit_str_full p (ch # s) c =
     (case digit_file ch of
        None \<Rightarrow> cw_say_digit_str_full p s c
      | Some fn \<Rightarrow>
          (let (res, c) = play_digit p fn c
           in if res \<noteq> 0 then (res, c) else cw_say_digit_str_full p s c))"

definition cw_say_digits_full :: "'c player \<Rightarrow> int \<Rightarrow> 'c \<Rightarrow> int \<times> 'c" where
  "cw_say_digits_full p n c = cw_say_digit_str_full p (dec n) c"

section \<open>The loop of the number routines\<close>

text \<open>
  The locals of the routines: the number still to be said, the pending words, the last file name and
  the options, which the Czech routine changes.  An item of a loop body is a file of the usual kind, a
  joining word played through \<open>wait_file\<close>, or a call of a number routine.
\<close>

datatype lang = EN | BR | CZ | DA | DE | EN_GB | NO | ES | FR | HE | IT | NL | PT | SE | TW | GR | RU

record say_state =
  num :: int
  playh :: bool
  playa :: bool
  pend :: bool
  state :: nat
  fname :: string
  options :: "string option"

datatype say_item = Play string | Joint string | Say lang "string option" int

abbreviation INT_MIN :: int where "INT_MIN \<equiv> - 2147483648"

definition opt_is :: "string option \<Rightarrow> char \<Rightarrow> bool" where
  "opt_is o' ch = (case o' of None \<Rightarrow> False | Some s \<Rightarrow> tolower (at0 s) = ch)"

definition digits :: "int \<Rightarrow> string" where
  "digits n = ''digits/'' @ dec n"

definition say_minus :: "say_state \<Rightarrow> (say_item list \<times> say_state) option" where
  "say_minus s = Some ([Play ''digits/minus''],
     s\<lparr>num := (if num s > INT_MIN then - num s else 0), fname := ''digits/minus''\<rparr>)"

section \<open>The languages\<close>

text \<open>
  Every body returns the items to play and the locals after them; \<open>None\<close> is the branch that logs
  that the number is too big and ends the loop with \<open>-1\<close>.
\<close>

definition say_en :: "say_state \<Rightarrow> (say_item list \<times> say_state) option" where
  "say_en s =
     (let n = num s in
      if n < 0 then say_minus s
      else if playh s then Some ([Play ''digits/hundred''], s\<lparr>playh := False\<rparr>)
      else if n < 20 then Some ([Play (digits n)], s\<lparr>num := 0\<rparr>)
      else if n < 100 then Some ([Play (digits (n div 10 * 10))], s\<lparr>num := n - n div 10 * 10\<rparr>)
      else if n < 1000
           then Some ([Play (digits (n div 100))], s\<lparr>playh := True, num := n - n div 100 * 100\<rparr>)
      else if n < 1000000
           then Some ([Say EN None (n div 1000), Play ''digits/thousand''], s\<lparr>num := n mod 1000\<rparr>)
      else if n < 1000000000
           then Some ([Say EN None (n div 1000000), Play ''digits/million''], s\<lparr>num := n mod 1000000\<rparr>)
      else None)"

definition say_br :: "say_state \<Rightarrow> (say_item list \<times> say_state) option" where
  "say_br s =
     (let n = num s;
          f = (if opt_is (options s) (CHR ''f'') then ''F'' else []);
          e = (\<lambda>b. if b then [Joint ''digits/short-and''] else [])
      in
      if n < 0 then say_minus s
      else if n < 3 then Some ([Play (digits n @ f)], s\<lparr>num := 0\<rparr>)
      else if n < 20 then Some ([Play (digits n)], s\<lparr>num := 0\<rparr>)
      else if n < 100
           then Some (Play (digits (n div 10 * 10)) # e (n mod 10 \<noteq> 0), s\<lparr>num := n mod 10\<rparr>)
      else if n = 100 then Some ([Play ''digits/hundred''], s\<lparr>num := 0\<rparr>)
      else if n < 200 then Some (Play ''digits/100'' # e True, s\<lparr>num := n mod 100\<rparr>)
      else if n < 1000
           then Some (Play (digits (n div 100 * 100) @ f) # e (n mod 100 \<noteq> 0), s\<lparr>num := n mod 100\<rparr>)
      else if n < 1000000
           then Some ([Say BR (options s) (n div 1000), Play ''digits/1000''], s\<lparr>num := n mod 1000\<rparr>)
      else if n < 1000000000
           then Some ([Say BR (options s) (n div 1000000),
                       Play (if n < 2000000 then ''digits/million'' else ''digits/millions'')],
                      s\<lparr>num := n mod 1000000\<rparr>)
      else None)"

text \<open>
  The Czech routine counts the digits with \<open>log10\<close>, cuts the count to 4, 7 or 10 and divides by that
  power of ten.  \<open>options\<close> is \<open>"w"\<close> when the caller gives none; its first character ends the file
  names of 1 and 2, and an empty string adds nothing.
\<close>

definition exp10_int :: "nat \<Rightarrow> int" where
  "exp10_int k = ((\<lambda>res. res * 10) ^^ k) 1"

definition cz_gender :: "string option \<Rightarrow> string" where
  "cz_gender o' = (case o' of None \<Rightarrow> ''w'' | Some s \<Rightarrow> s)"

definition cz_length :: "int \<Rightarrow> nat" where
  "cz_length n = (let l = length (dec n) in if l mod 3 = 1 then l else if l mod 3 = 2 then l - 1 else l - 2)"

definition say_cz :: "say_state \<Rightarrow> (say_item list \<times> say_state) option" where
  "say_cz s =
     (let n = num s; w = cz_gender (options s) in
      if n < 0 then say_minus s
      else if n < 3 then Some ([Play (digits n @ take 1 w)], s\<lparr>playh := False, num := 0\<rparr>)
      else if n < 20 then Some ([Play (digits n)], s\<lparr>playh := False, num := 0\<rparr>)
      else if n < 100 then Some ([Play (digits (n div 10 * 10))], s\<lparr>num := n - n div 10 * 10\<rparr>)
      else if n < 1000 then
        (let h = n div 100 in
         Some (if h = 1 then [Play ''digits/1sto'']
               else if h = 2 then [Play ''digits/2ste'']
               else [Say CZ (Some w) h, Play (if h = 3 \<or> h = 4 then ''digits/sta'' else ''digits/set'')],
               s\<lparr>num := n - h * 100\<rparr>))
      else
        (let l = cz_length n;
             left = n div exp10_int (l - 1);
             w' = (if left = 2 then (if l - 1 = 9 then ''w'' else ''m'') else w);
             e = ''_E'' @ dec (int (l - 1))
         in Some ((if left > 1 then [Say CZ (Some w') left] else [])
                    @ [Play (if left \<ge> 5 then ''digits/5'' @ e
                             else if left \<ge> 2 \<and> left \<le> 4 then ''digits/2-4'' @ e
                             else ''digits/1'' @ e)],
                  s\<lparr>options := Some w', num := n - left * exp10_int (l - 1)\<rparr>)))"

definition say_da :: "say_state \<Rightarrow> (say_item list \<times> say_state) option" where
  "say_da s =
     (let n = num s in
      if n < 0 then say_minus s
      else if playh s then Some ([Play ''digits/hundred''], s\<lparr>playh := False\<rparr>)
      else if playa s then Some ([Play ''digits/and''], s\<lparr>playa := False\<rparr>)
      else if n = 1 \<and> opt_is (options s) (CHR ''n'') then Some ([Play ''digits/1N''], s\<lparr>num := 0\<rparr>)
      else if n < 20 then Some ([Play (digits n)], s\<lparr>num := 0\<rparr>)
      else if n < 100 then
        (let ones = n mod 10 in
         if ones \<noteq> 0 then Some ([Play (digits ones @ ''-and'')], s\<lparr>num := n - ones\<rparr>)
         else Some ([Play (digits n)], s\<lparr>num := 0\<rparr>))
      else if n < 1000 then
        (let hundreds = n div 100; m = n - 100 * hundreds in
         Some ([Play (if hundreds = 1 then ''digits/1N'' else digits (n div 100))],
               s\<lparr>playh := True, num := m, playa := (m \<noteq> 0)\<rparr>))
      else if n < 1000000 then
        (let m = n mod 1000 in
         Some ([Say DA (Some ''n'') (n div 1000), Play ''digits/thousand''],
               s\<lparr>num := m, playa := (m \<noteq> 0 \<and> m < 100)\<rparr>))
      else if n < 1000000000 then
        (let millions = n div 1000000; m = n mod 1000000 in
         Some ([Say DA (Some ''c'') millions,
                Play (if millions = 1 then ''digits/million'' else ''digits/millions'')],
               s\<lparr>num := m, playa := (m \<noteq> 0 \<and> m < 100)\<rparr>))
      else None)"

definition say_de :: "say_state \<Rightarrow> (say_item list \<times> say_state) option" where
  "say_de s =
     (let n = num s; t = pend s;
          group = (\<lambda>q one word words.
            if q = 1 then [Play one, Play word] else [Say DE (options s) q, Play words])
      in
      if n < 0 then say_minus s
      else if n < 100 \<and> t then Some ([Play ''digits/and''], s\<lparr>pend := False\<rparr>)
      else if n = 1 \<and> opt_is (options s) (CHR ''f'') then Some ([Play (digits n @ ''F'')], s\<lparr>num := 0\<rparr>)
      else if n < 20 then Some ([Play (digits n)], s\<lparr>num := 0\<rparr>)
      else if n < 100 then
        (let ones = n mod 10 in
         if ones \<noteq> 0 then Some ([Play (digits ones @ ''-and'')], s\<lparr>num := n - ones\<rparr>)
         else Some ([Play (digits n)], s\<lparr>num := 0\<rparr>))
      else if n = 100 \<and> \<not> t then Some ([Play ''digits/hundred''], s\<lparr>num := 0\<rparr>)
      else if n < 1000 then
        (let hundreds = n div 100 in
         Some ([Play (if hundreds = 1 then ''digits/1N'' else digits hundreds), Play ''digits/hundred''],
               s\<lparr>num := n mod 100, pend := True\<rparr>))
      else if n = 1000 \<and> \<not> t then Some ([Play ''digits/thousand''], s\<lparr>num := 0\<rparr>)
      else if n < 1000000
           then Some (group (n div 1000) ''digits/1N'' ''digits/thousand'' ''digits/thousand'',
                      s\<lparr>num := n mod 1000, pend := True\<rparr>)
      else if n < 1000000000
           then Some (group (n div 1000000) ''digits/1F'' ''digits/million'' ''digits/millions'',
                      s\<lparr>num := n mod 1000000, pend := True\<rparr>)
      else if n \<le> 2147483647
           then Some (group (n div 1000000000) ''digits/1F'' ''digits/milliard'' ''digits/milliards'',
                      s\<lparr>num := n mod 1000000000, pend := True\<rparr>)
      else None)"

definition say_en_GB :: "say_state \<Rightarrow> (say_item list \<times> say_state) option" where
  "say_en_GB s =
     (let n = num s in
      if n < 0 then say_minus s
      else if playh s then Some ([Play ''digits/hundred''], s\<lparr>playh := False\<rparr>)
      else if playa s then Some ([Play ''digits/and''], s\<lparr>playa := False\<rparr>)
      else if n < 20 then Some ([Play (digits n)], s\<lparr>num := 0\<rparr>)
      else if n < 100 then Some ([Play (digits (n div 10 * 10))], s\<lparr>num := n - n div 10 * 10\<rparr>)
      else if n < 1000 then
        (let hundreds = n div 100; m = n - 100 * hundreds in
         Some ([Play (digits (n div 100))], s\<lparr>playh := True, num := m, playa := (m \<noteq> 0)\<rparr>))
      else if n < 1000000 then
        (let m = n mod 1000 in
         Some ([Say EN_GB None (n div 1000), Play ''digits/thousand''],
               s\<lparr>num := m, playa := (m \<noteq> 0 \<and> m < 100)\<rparr>))
      else if n < 1000000000 then
        (let m = n mod 1000000 in
         Some ([Say EN_GB None (n div 1000000), Play ''digits/million''],
               s\<lparr>num := m, playa := (m \<noteq> 0 \<and> m < 100)\<rparr>))
      else None)"

definition say_no :: "say_state \<Rightarrow> (say_item list \<times> say_state) option" where
  "say_no s =
     (let n = num s in
      if n < 0 then say_minus s
      else if playh s then Some ([Play ''digits/hundred''], s\<lparr>playh := False\<rparr>)
      else if playa s then Some ([Play ''digits/and''], s\<lparr>playa := False\<rparr>)
      else if n = 1 \<and> opt_is (options s) (CHR ''n'') then Some ([Play ''digits/1N''], s\<lparr>num := 0\<rparr>)
      else if n < 20 then Some ([Play (digits n)], s\<lparr>num := 0\<rparr>)
      else if n < 100 then Some ([Play (digits (n div 10 * 10))], s\<lparr>num := n - n div 10 * 10\<rparr>)
      else if n < 1000 then
        (let hundreds = n div 100; m = n - 100 * hundreds in
         Some ([Play (if hundreds = 1 then ''digits/1N'' else digits (n div 100))],
               s\<lparr>playh := True, num := m, playa := (m \<noteq> 0)\<rparr>))
      else if n < 1000000 then
        (let m = n mod 1000 in
         Some ([Say NO (Some ''n'') (n div 1000), Play ''digits/thousand''],
               s\<lparr>num := m, playa := (m \<noteq> 0 \<and> m < 100)\<rparr>))
      else if n < 1000000000 then
        (let m = n mod 1000000 in
         Some ([Say NO (Some ''c'') (n div 1000000), Play ''digits/million''],
               s\<lparr>num := m, playa := (m \<noteq> 0 \<and> m < 100)\<rparr>))
      else None)"

definition say_es :: "say_state \<Rightarrow> (say_item list \<times> say_state) option" where
  "say_es s =
     (let n = num s in
      if n < 0 then say_minus s
      else if playa s then Some ([Play ''digits/and''], s\<lparr>playa := False\<rparr>)
      else if n = 1
           then Some ([Play (digits n @ (if opt_is (options s) (CHR ''f'') then ''F''
                                         else if opt_is (options s) (CHR ''m'') then ''M'' else []))],
                      s\<lparr>num := 0\<rparr>)
      else if n < 31 then Some ([Play (digits n)], s\<lparr>num := 0\<rparr>)
      else if n < 100 then
        (let m = n - n div 10 * 10 in
         Some ([Play (digits (n div 10 * 10))], s\<lparr>num := m, playa := (m \<noteq> 0)\<rparr>))
      else if n = 100 then Some ([Play ''digits/100''], s\<lparr>num := 0\<rparr>)
      else if n < 200 then Some ([Play ''digits/100-and''], s\<lparr>num := n - 100\<rparr>)
      else if n < 1000
           then Some ([Play (digits (n div 100 * 100))], s\<lparr>num := n - n div 100 * 100\<rparr>)
      else if n < 2000 then Some ([Play ''digits/thousand''], s\<lparr>num := n mod 1000\<rparr>)
      else if n < 1000000
           then Some ([Say ES (options s) (n div 1000), Play ''digits/thousand''], s\<lparr>num := n mod 1000\<rparr>)
      else if n < 2147483640
           then Some (if n div 1000000 = 1
                      then [Say ES (Some ''M'') (n div 1000000), Play ''digits/million'']
                      else [Say ES (options s) (n div 1000000), Play ''digits/millions''],
                      s\<lparr>num := n mod 1000000\<rparr>)
      else None)"

definition say_fr :: "say_state \<Rightarrow> (say_item list \<times> say_state) option" where
  "say_fr s =
     (let n = num s in
      if n < 0 then say_minus s
      else if playh s then Some ([Play ''digits/hundred''], s\<lparr>playh := False\<rparr>)
      else if playa s then Some ([Play ''digits/et''], s\<lparr>playa := False\<rparr>)
      else if n = 1
           then Some ([Play (digits n @ (if opt_is (options s) (CHR ''f'') then ''F'' else []))], s\<lparr>num := 0\<rparr>)
      else if n < 21 then Some ([Play (digits n)], s\<lparr>num := 0\<rparr>)
      else if n < 70
           then Some ([Play (digits (n div 10 * 10))], s\<lparr>playa := (n mod 10 = 1), num := n mod 10\<rparr>)
      else if n < 80 then Some ([Play ''digits/60''], s\<lparr>playa := (n mod 10 = 1), num := n - 60\<rparr>)
      else if n < 100 then Some ([Play ''digits/80''], s\<lparr>num := n - 80\<rparr>)
      else if n < 200 then Some ([Play ''digits/hundred''], s\<lparr>num := n - 100\<rparr>)
      else if n < 1000 then Some ([Play (digits (n div 100))], s\<lparr>playh := True, num := n mod 100\<rparr>)
      else if n < 2000 then Some ([Play ''digits/thousand''], s\<lparr>num := n - 1000\<rparr>)
      else if n < 1000000
           then Some ([Say FR (options s) (n div 1000), Play ''digits/thousand''], s\<lparr>num := n mod 1000\<rparr>)
      else if n < 1000000000
           then Some ([Say FR (options s) (n div 1000000), Play ''digits/million''], s\<lparr>num := n mod 1000000\<rparr>)
      else None)"

definition say_he :: "say_state \<Rightarrow> (say_item list \<times> say_state) option" where
  "say_he s =
     (let n = num s in
      if state s = 1 then Some ([Play ''digits/hundred''], s\<lparr>state := 0\<rparr>)
      else if state s = 2 then Some ([Play ''digits/ve''], s\<lparr>state := 0\<rparr>)
      else if state s = 3 then Some ([Play ''digits/thousands''], s\<lparr>state := 0\<rparr>)
      else if n < 21
           then Some ([Play (digits n @ (if opt_is (options s) (CHR ''f'') then ''F'' else []))], s\<lparr>num := 0\<rparr>)
      else if n < 100
           then Some ([Play (digits (n div 10 * 10))],
                      s\<lparr>num := n mod 10, state := (if n mod 10 > 0 then 2 else state s)\<rparr>)
      else if n < 200 then Some ([Play ''digits/hundred''], s\<lparr>num := n - 100\<rparr>)
      else if n < 300 then Some ([Play ''digits/hundred''], s\<lparr>num := n - 100\<rparr>)
      else if n < 1000 then Some ([Play (digits (n div 100))], s\<lparr>state := 1, num := n mod 100\<rparr>)
      else if n < 2000 then Some ([Play ''digits/thousand''], s\<lparr>num := n - 1000\<rparr>)
      else if n < 3000
           then Some ([Play ''digits/2thousand''],
                      s\<lparr>num := n - 2000, state := (if n - 2000 > 0 then 2 else state s)\<rparr>)
      else if n < 20000
           then Some ([Play (digits (n div 1000) @ ''s'')], s\<lparr>num := n mod 1000, state := 3\<rparr>)
      else if n < 1000000
           then Some ([Say HE (options s) (n div 1000), Play ''digits/thousand''], s\<lparr>num := n mod 1000\<rparr>)
      else if n < 1000000000
           then Some ([Say HE (options s) (n div 1000000), Play ''digits/million''], s\<lparr>num := n mod 1000000\<rparr>)
      else None)"

definition say_it :: "say_state \<Rightarrow> (say_item list \<times> say_state) option" where
  "say_it s =
     (let n = num s in
      if n < 0 then say_minus s
      else if playh s then Some ([Play ''digits/hundred''], s\<lparr>playh := False\<rparr>)
      else if n < 20 then Some ([Play (digits n)], s\<lparr>num := 0\<rparr>)
      else if n \<in> {21, 28, 31, 38, 41, 48, 51, 58, 61, 68, 71, 78, 81, 88, 91, 98}
           then Some ([Play (digits n)], s\<lparr>num := 0\<rparr>)
      else if n < 100 then Some ([Play (digits (n div 10 * 10))], s\<lparr>num := n - n div 10 * 10\<rparr>)
      else if n < 1000
           then Some ([Play (if n div 100 > 1 then digits (n div 100) else ''digits/hundred'')],
                      s\<lparr>playh := (n div 100 > 1), num := n - n div 100 * 100\<rparr>)
      else if n < 1000000
           then Some ((if n div 1000 > 1 then [Say IT None (n div 1000)] else [])
                        @ [Play (if n div 1000 < 2 then ''digits/thousand'' else ''digits/thousands'')],
                      s\<lparr>num := n mod 1000\<rparr>)
      else if n < 1000000000
           then Some ((if n div 1000000 > 1 then [Say IT None (n div 1000000)] else [])
                        @ [Play (if n div 1000000 < 2 then ''digits/million'' else ''digits/millions'')],
                      s\<lparr>num := n mod 1000000\<rparr>)
      else None)"

definition say_nl :: "say_state \<Rightarrow> (say_item list \<times> say_state) option" where
  "say_nl s =
     (let n = num s in
      if n < 0 then say_minus s
      else if playh s then Some ([Play ''digits/hundred''], s\<lparr>playh := False\<rparr>)
      else if n < 20 then Some ([Play (digits n)], s\<lparr>num := 0\<rparr>)
      else if n < 100 then
        (let units = n mod 10 in
         if units > 0 then Some ([Say NL None units, Play ''digits/nl-en''], s\<lparr>num := n - units\<rparr>)
         else Some ([Play (digits (n - units))], s\<lparr>num := 0\<rparr>))
      else if n < 1000
           then Some ([Play (digits (n div 100))], s\<lparr>playh := True, num := n - n div 100 * 100\<rparr>)
      else if n < 1000000
           then Some ([Say EN None (n div 1000), Play ''digits/thousand''], s\<lparr>num := n mod 1000\<rparr>)
      else if n < 1000000000
           then Some ([Say EN None (n div 1000000), Play ''digits/million''], s\<lparr>num := n mod 1000000\<rparr>)
      else None)"

text \<open>
  The Portuguese routine has no branch for numbers of ten digits: the file name of the round before
  is played again and the number stays as it is.
\<close>

definition say_pt :: "say_state \<Rightarrow> (say_item list \<times> say_state) option" where
  "say_pt s =
     (let n = num s;
          fem = opt_is (options s) (CHR ''f'');
          e = (\<lambda>b. if b then [Joint ''digits/pt-e''] else [])
      in
      if n < 0 then say_minus s
      else if n < 20
           then Some ([Play (digits n @ (if (n = 1 \<or> n = 2) \<and> fem then ''F'' else []))], s\<lparr>num := 0\<rparr>)
      else if n < 100
           then Some (Play (digits (n div 10 * 10)) # e (n mod 10 \<noteq> 0), s\<lparr>num := n mod 10\<rparr>)
      else if n < 1000
           then Some (if n = 100 then [Play ''digits/100'']
                      else if n < 200 then [Play ''digits/100E'']
                      else Play (digits (n div 100 * 100) @ (if fem \<and> n > 199 then ''F'' else []))
                             # e (n mod 100 \<noteq> 0),
                      s\<lparr>num := n mod 100\<rparr>)
      else if n < 1000000
           then Some ((if n > 1999 then [Say PT (options s) (n div 1000 * (if fem then - 1 else 1))] else [])
                        @ Play ''digits/1000''
                        # e (n mod 1000 \<noteq> 0 \<and> (n mod 1000 < 100 \<or> n mod 100 = 0)),
                      s\<lparr>num := n mod 1000\<rparr>)
      else if n < 1000000000
           then Some (Say PT (options s) (n div 1000000)
                        # Play (if n < 2000000 then ''digits/1000000'' else ''digits/1000000S'')
                        # e (n mod 1000000 \<noteq> 0 \<and>
                             (n div 1000 mod 1000 = 0 \<and> (n mod 1000 < 100 \<or> n mod 100 = 0) \<or>
                              n mod 1000 = 0 \<and>
                                (n div 1000 mod 1000 < 100 \<or> n div 1000 mod 100 = 0))),
                      s\<lparr>num := n mod 1000000\<rparr>)
      else Some ([Play (fname s)], s))"

definition say_se :: "say_state \<Rightarrow> (say_item list \<times> say_state) option" where
  "say_se s =
     (let n = num s in
      if n < 0 then say_minus s
      else if playh s then Some ([Play ''digits/hundred''], s\<lparr>playh := False\<rparr>)
      else if n < 20 then Some ([Play (digits n)], s\<lparr>num := 0\<rparr>)
      else if n < 100 then Some ([Play (digits (n div 10 * 10))], s\<lparr>num := n - n div 10 * 10\<rparr>)
      else if n = 1 \<and> opt_is (options s) (CHR ''n'') then Some ([Play ''digits/1N''], s\<lparr>num := 0\<rparr>)
      else if n < 1000
           then Some ([Play (digits (n div 100))], s\<lparr>playh := True, num := n - n div 100 * 100\<rparr>)
      else if n < 1000000
           then Some ([Say SE (options s) (n div 1000), Play ''digits/thousand''], s\<lparr>num := n mod 1000\<rparr>)
      else if n < 1000000000
           then Some ([Say SE (options s) (n div 1000000), Play ''digits/million''], s\<lparr>num := n mod 1000000\<rparr>)
      else None)"

definition say_tw :: "say_state \<Rightarrow> (say_item list \<times> say_state) option" where
  "say_tw s =
     (let n = num s in
      if n < 0 then say_minus s
      else if playh s then Some ([Play ''digits/hundred''], s\<lparr>playh := False\<rparr>)
      else if n < 10 then Some ([Play (digits n)], s\<lparr>num := 0\<rparr>)
      else if n < 100 then Some ([Play (digits (n div 10 * 10))], s\<lparr>num := n - n div 10 * 10\<rparr>)
      else if n < 1000
           then Some ([Play (digits (n div 100))], s\<lparr>playh := True, num := n - n div 100 * 100\<rparr>)
      else if n < 1000000
           then Some ([Say TW None (n div 1000), Play ''digits/thousand''], s\<lparr>num := n mod 1000\<rparr>)
      else if n < 1000000000
           then Some ([Say TW None (n div 1000000), Play ''digits/million''], s\<lparr>num := n mod 1000000\<rparr>)
      else None)"

definition hundreds_gr :: "int \<Rightarrow> string" where
  "hundreds_gr n = ''digits/hundred-'' @ dec n"

definition say_gr :: "say_state \<Rightarrow> (say_item list \<times> say_state) option" where
  "say_gr s =
     (let n = num s in
      if n < 13 then Some ([Play (digits n)], s\<lparr>num := 0\<rparr>)
      else if n \<le> 100 then Some ([Play (digits (n div 10 * 10))], s\<lparr>num := n - n div 10 * 10\<rparr>)
      else if n < 200 then Some ([Play ''digits/hundred-100''], s\<lparr>num := n - n div 100 * 100\<rparr>)
      else if n < 1000
           then Some ([Play (hundreds_gr (n div 100 * 100))], s\<lparr>num := n - n div 100 * 100\<rparr>)
      else if n < 2000 then Some ([Play ''digits/xilia''], s\<lparr>num := n - n div 1000 * 1000\<rparr>)
      else if n < 1000000
           then Some ([Say GR None (n div 1000), Play ''digits/thousands''], s\<lparr>num := n mod 1000\<rparr>)
      else if n < 1000000000
           then Some ([Say GR None (n div 1000000), Play ''digits/millions''], s\<lparr>num := n mod 1000000\<rparr>)
      else None)"

definition get_lastdigits_ru :: "int \<Rightarrow> int" where
  "get_lastdigits_ru n =
     (if n < 20 then n
      else if n < 100 then n mod 10
      else if n < 1000 then (if n mod 100 < 20 then n mod 100 else n mod 100 mod 10)
      else 0)"

definition say_ru :: "say_state \<Rightarrow> (say_item list \<times> say_state) option" where
  "say_ru s =
     (let n = num s;
          form = (\<lambda>q one few many.
            let l = get_lastdigits_ru q
            in if l = 1 then one else if l > 1 \<and> l < 5 then few else many)
      in
      if n < 0 then say_minus s
      else if n < 20
           then Some ([Play (digits n @ (case options s of
                               Some w \<Rightarrow> if length w = 1 \<and> n < 3 then w else []
                             | None \<Rightarrow> []))], s\<lparr>num := 0\<rparr>)
      else if n < 100 then Some ([Play (digits (n - n mod 10))], s\<lparr>num := n mod 10\<rparr>)
      else if n < 1000 then Some ([Play (digits (n - n mod 100))], s\<lparr>num := n mod 100\<rparr>)
      else if n < 1000000
           then Some ([Say RU (if get_lastdigits_ru (n div 1000) < 3 then Some ''f'' else None) (n div 1000),
                       Play (form (n div 1000) ''digits/thousand'' ''digits/thousands-i'' ''digits/thousands'')],
                      s\<lparr>num := n mod 1000\<rparr>)
      else if n < 1000000000
           then Some ([Say RU None (n div 1000000),
                       Play (form (n div 1000000) ''digits/million'' ''digits/million-a'' ''digits/millions'')],
                      s\<lparr>num := n mod 1000000\<rparr>)
      else None)"

section \<open>The loop around the bodies\<close>

definition body :: "lang \<Rightarrow> say_state \<Rightarrow> (say_item list \<times> say_state) option" where
  "body l = (case l of EN \<Rightarrow> say_en | BR \<Rightarrow> say_br | CZ \<Rightarrow> say_cz | DA \<Rightarrow> say_da | DE \<Rightarrow> say_de
     | EN_GB \<Rightarrow> say_en_GB | NO \<Rightarrow> say_no | ES \<Rightarrow> say_es | FR \<Rightarrow> say_fr | HE \<Rightarrow> say_he | IT \<Rightarrow> say_it
     | NL \<Rightarrow> say_nl | PT \<Rightarrow> say_pt | SE \<Rightarrow> say_se | TW \<Rightarrow> say_tw | GR \<Rightarrow> say_gr | RU \<Rightarrow> say_ru)"

definition busy :: "lang \<Rightarrow> say_state \<Rightarrow> bool" where
  "busy l s =
     (if l \<in> {EN, CZ, IT, NL, SE, TW} then num s \<noteq> 0 \<or> playh s
      else if l \<in> {DA, EN_GB, NO, FR} then num s \<noteq> 0 \<or> playh s \<or> playa s
      else if l = HE then num s \<noteq> 0 \<or> state s > 0
      else num s \<noteq> 0)"

definition start :: "string option \<Rightarrow> int \<Rightarrow> say_state" where
  "start o' n = \<lparr>num = n, playh = False, playa = False, pend = False, state = 0, fname = [],
                 options = o'\<rparr>"

definition say_zero :: "'c player \<Rightarrow> lang \<Rightarrow> 'c \<Rightarrow> int \<times> 'c" where
  "say_zero p l c = (if l = GR then wait_file p ''digits/0'' c else cw_say_digits_full p 0 c)"

definition play_of :: "'c player \<Rightarrow> lang \<Rightarrow> string \<Rightarrow> 'c \<Rightarrow> int \<times> 'c" where
  "play_of p l = (if l = SE then play_word_se p else play_word p)"

fun say_loop :: "nat \<Rightarrow> 'c player \<Rightarrow> lang \<Rightarrow> say_state \<Rightarrow> 'c \<Rightarrow> (int \<times> 'c) option"
  and say_items :: "nat \<Rightarrow> 'c player \<Rightarrow> lang \<Rightarrow> say_item list \<Rightarrow> 'c \<Rightarrow> (int \<times> 'c) option" where
  "say_loop 0 p l s c = None"
| "say_loop (Suc k) p l s c =
     (if \<not> busy l s then Some (0, c)
      else case body l s of
        None \<Rightarrow> Some (- 1, c)
      | Some (items, s') \<Rightarrow>
          do { (res, c) \<leftarrow> say_items k p l items c;
               if res \<noteq> 0 then Some (res, c) else say_loop k p l s' c })"
| "say_items k p l [] c = Some (0, c)"
| "say_items k p l (Play f # is) c =
     (let (res, c) = play_of p l f c
      in if res \<noteq> 0 then Some (res, c) else say_items k p l is c)"
| "say_items k p l (Joint f # is) c =
     (let (res, c) = play_joint p f c
      in if res \<noteq> 0 then Some (res, c) else say_items k p l is c)"
| "say_items k p l (Say l' o' n # is) c =
     do { (res, c) \<leftarrow> (if n = 0 then Some (say_zero p l' c) else say_loop k p l' (start o' n) c);
          if res \<noteq> 0 then Some (res, c) else say_items k p l is c }"

definition say_number :: "nat \<Rightarrow> 'c player \<Rightarrow> lang \<Rightarrow> string option \<Rightarrow> int \<Rightarrow> 'c \<Rightarrow> (int \<times> 'c) option" where
  "say_number k p l o' n c = (if n = 0 then Some (say_zero p l c) else say_loop k p l (start o' n) c)"

section \<open>The Polish routine\<close>

text \<open>
  The Polish routine looks every word up in the tables of an inflection, ignores the results of the
  player and always returns 0.  \<open>powiedz\<close> is the sequence of the files it plays; \<open>None\<close> is a look-up
  outside a table.  Here the divisions are those of C on negative numbers as well.
\<close>

record odmiana =
  separator_dziesiatek :: string
  cyfry :: "string list"
  cyfry2 :: "string list"
  setki :: "string list"
  dziesiatki :: "string list"
  nastki :: "string list"
  rzedy :: "string list list"

definition entry :: "'a list \<Rightarrow> int \<Rightarrow> 'a option" where
  "entry xs i = (if 0 \<le> i \<and> i < int (length xs) then Some (xs ! nat i) else None)"

definition pl_rzad_na_tekst :: "odmiana \<Rightarrow> int \<Rightarrow> nat \<Rightarrow> string option" where
  "pl_rzad_na_tekst odm i rzad =
     (if rzad = 0 then Some []
      else do { row \<leftarrow> entry (rzedy odm) (int rzad - 1);
                entry row (if i = 1 then 0
                           else if (i > 21 \<or> i < 11) \<and> i smod 10 > 1 \<and> i smod 10 < 5 then 1 else 2) })"

text \<open>The hundreds, tens and units of one group of three digits.\<close>

definition pl_group :: "odmiana \<Rightarrow> int \<Rightarrow> string list option" where
  "pl_group odm m1000 =
     (let m100 = m1000 smod 100; i100 = m1000 sdiv 100 in
      do { hs \<leftarrow> (if i100 > 0 then map_option (\<lambda>f. [f]) (entry (setki odm) i100) else Some []);
           ts \<leftarrow> (if m100 > 0 \<and> m100 \<le> 9
                   then map_option (\<lambda>f. [f]) (entry (if m1000 > 0 then cyfry2 odm else cyfry odm) m100)
                  else if m100 smod 10 = 0
                   then map_option (\<lambda>f. [f]) (entry (dziesiatki odm) (m100 sdiv 10))
                  else if m100 \<le> 19
                   then map_option (\<lambda>f. [f]) (entry (nastki odm) (m100 smod 10))
                  else do { t \<leftarrow> entry (dziesiatki odm) (m100 sdiv 10);
                            u \<leftarrow> entry (cyfry2 odm) (m100 smod 10);
                            Some (if at0 (separator_dziesiatek odm) = CHR '' '' then [t, u]
                                  else [t @ separator_dziesiatek odm @ u]) });
           Some (hs @ ts) })"

function powiedz :: "odmiana \<Rightarrow> nat \<Rightarrow> int \<Rightarrow> string list option" where
  "powiedz odm rzad i =
     (if i = 0 \<and> rzad > 0 then Some []
      else
        (let m1000E6 = i smod 1000000000; i1000E6 = i sdiv 1000000000;
             m1000E3 = m1000E6 smod 1000000; i1000E3 = m1000E6 sdiv 1000000;
             m1000 = m1000E3 smod 1000; i1000 = m1000E3 sdiv 1000
         in do { z \<leftarrow> (if i = 0 then map_option (\<lambda>f. [f]) (entry (cyfry odm) 0) else Some []);
                 a \<leftarrow> powiedz odm (rzad + 3) i1000E6;
                 b \<leftarrow> powiedz odm (rzad + 2) i1000E3;
                 d \<leftarrow> powiedz odm (rzad + 1) i1000;
                 g \<leftarrow> pl_group odm m1000;
                 r \<leftarrow> (if rzad > 0 then map_option (\<lambda>f. [f]) (pl_rzad_na_tekst odm i rzad) else Some []);
                 Some (z @ a @ b @ d @ g @ r) }))"
  by pat_completeness auto

lemma sdiv_shrinks:
  fixes i :: int
  assumes "i \<noteq> 0" "\<bar>x\<bar> \<le> \<bar>i\<bar>" "k > 1"
  shows "\<bar>x sdiv k\<bar> < \<bar>i\<bar>"
proof (cases "x = 0")
  case False
  then have "\<bar>x\<bar> div k < \<bar>x\<bar>" "0 \<le> \<bar>x\<bar> div k"
    using assms int_div_less_self [of "\<bar>x\<bar>" k] by (auto simp: pos_imp_zdiv_nonneg_iff)
  then have "\<bar>x sdiv k\<bar> < \<bar>x\<bar>" using assms(3) False by (auto simp: signed_divide_int_def sgn_if)
  then show ?thesis using assms(2) by simp
qed (use assms in \<open>simp add: signed_divide_int_def\<close>)

lemma smod_shrinks: "k > 0 \<Longrightarrow> \<bar>(i::int) smod k\<bar> \<le> \<bar>i\<bar>"
  by (auto simp: signed_modulo_int_def sgn_if) (smt (verit) zmod_le_nonneg_dividend)+

lemma group_shrinks:
  fixes i :: int
  assumes "i \<noteq> 0"
  shows "\<bar>i sdiv 1000000000\<bar> < \<bar>i\<bar>"
    and "\<bar>i smod 1000000000 sdiv 1000000\<bar> < \<bar>i\<bar>"
    and "\<bar>i smod 1000000000 smod 1000000 sdiv 1000\<bar> < \<bar>i\<bar>"
  using assms smod_shrinks [of 1000000000 i] smod_shrinks [of 1000000 "i smod 1000000000"]
  by (auto intro: sdiv_shrinks)

lemma zero_sdiv: "0 sdiv (k :: int) = 0" "0 smod (k :: int) = 0"
  by (simp_all add: signed_divide_int_def signed_modulo_int_def)

termination powiedz
  by (relation "measures [\<lambda>(odm, rzad, i). nat \<bar>i\<bar>, \<lambda>(odm, rzad, i). if rzad = 0 then 1 else 0]")
    (auto simp: zero_sdiv intro!: group_shrinks split: if_splits)

declare powiedz.simps [simp del]

definition rzedy_pl :: "string list list" where
  "rzedy_pl = [[''1000'', ''1000.2'', ''1000.5''], [''1000000'', ''1000000.2'', ''1000000.5''],
               [''1000000000'', ''1000000000.2'', ''1000000000.5'']]"

definition odmiana_nieosobowa :: odmiana where
  "odmiana_nieosobowa =
     \<lparr>separator_dziesiatek = ''_'',
      cyfry = [''0'', ''1'', ''2'', ''3'', ''4'', ''5'', ''6'', ''7'', ''8'', ''9''],
      cyfry2 = [''0'', ''1'', ''2'', ''3'', ''4'', ''5'', ''6'', ''7'', ''8'', ''9''],
      setki = [[], ''100'', ''200'', ''300'', ''400'', ''500'', ''600'', ''700'', ''800'', ''900''],
      dziesiatki = [[], ''10'', ''20'', ''30'', ''40'', ''50'', ''60'', ''70'', ''80'', ''90''],
      nastki = [[], ''11'', ''12'', ''13'', ''14'', ''15'', ''16'', ''17'', ''18'', ''19''],
      rzedy = rzedy_pl\<rparr>"

definition odmiana_zenska :: odmiana where
  "odmiana_zenska = odmiana_nieosobowa
     \<lparr>separator_dziesiatek := '' '',
      cyfry := [''0'', ''1z'', ''2z'', ''3'', ''4'', ''5'', ''6'', ''7'', ''8'', ''9''],
      cyfry2 := [''0'', ''1'', ''2z'', ''3'', ''4'', ''5'', ''6'', ''7'', ''8'', ''9'']\<rparr>"

definition odmiana_meska :: odmiana where
  "odmiana_meska =
     \<lparr>separator_dziesiatek = '' '',
      cyfry = [''0'', ''1'', ''2-1m'', ''3-1m'', ''4-1m'', ''5m'', ''6m'', ''7m'', ''8m'', ''9m''],
      cyfry2 = [''0'', ''1'', ''2-2m'', ''3-2m'', ''4-2m'', ''5m'', ''6m'', ''7m'', ''8m'', ''9m''],
      setki = [[], ''100m'', ''200m'', ''300m'', ''400m'', ''500m'', ''600m'', ''700m'', ''800m'', ''900m''],
      dziesiatki = [[], ''10m'', ''20m'', ''30m'', ''40m'', ''50m'', ''60m'', ''70m'', ''80m'', ''90m''],
      nastki = [[], ''11m'', ''12m'', ''13m'', ''14m'', ''15m'', ''16m'', ''17m'', ''18m'', ''19m''],
      rzedy = rzedy_pl\<rparr>"

definition inflection :: "string option \<Rightarrow> odmiana" where
  "inflection o' =
     (if opt_is o' (CHR ''f'') then odmiana_zenska
      else if opt_is o' (CHR ''m'') then odmiana_meska else odmiana_nieosobowa)"

definition pl_odtworz_plik :: "'c player \<Rightarrow> string \<Rightarrow> 'c \<Rightarrow> 'c" where
  "pl_odtworz_plik p fn c = snd (play_word p (''digits/'' @ fn) c)"

definition cw_say_number_full_pl :: "'c player \<Rightarrow> string option \<Rightarrow> int \<Rightarrow> 'c \<Rightarrow> (int \<times> 'c) option" where
  "cw_say_number_full_pl p o' n c =
     map_option (\<lambda>fs. (0, fold (pl_odtworz_plik p) fs c)) (powiedz (inflection o') 0 n)"

section \<open>Selecting the language\<close>

definition lang_of :: "string \<Rightarrow> lang" where
  "lang_of language =
     (case find (\<lambda>(name, l). strcasecmp language name = 0)
        [(''en'', EN), (''br'', BR), (''cz'', CZ), (''da'', DA), (''de'', DE), (''en_GB'', EN_GB),
         (''no'', NO), (''es'', ES), (''mx'', ES), (''fr'', FR), (''he'', HE), (''it'', IT), (''nl'', NL),
         (''pt'', PT), (''se'', SE), (''tw'', TW), (''gr'', GR), (''ru'', RU)] of
        Some (_, l) \<Rightarrow> l
      | None \<Rightarrow> EN)"

definition cw_say_number_full ::
    "nat \<Rightarrow> 'c player \<Rightarrow> string \<Rightarrow> string option \<Rightarrow> int \<Rightarrow> 'c \<Rightarrow> (int \<times> 'c) option" where
  "cw_say_number_full k p language o' n c =
     (if strcasecmp language ''pl'' = 0 then cw_say_number_full_pl p o' n c
      else say_number k p (lang_of language) o' n c)"

definition cw_say_number :: "nat \<Rightarrow> 'c player \<Rightarrow> string \<Rightarrow> string option \<Rightarrow> int \<Rightarrow> 'c \<Rightarrow> (int \<times> 'c) option" where
  "cw_say_number k p language o' n c =
     cw_say_number_full k (p\<lparr>audiofd := - 1, ctrlfd := - 1\<rparr>) language o' n c"

section \<open>The files of an announcement\<close>

text \<open>
  What is played does not depend on the player, only how far it gets.  A \<open>sound\<close> is a file with the
  routine that plays it; \<open>script\<close> is the whole list of sounds of a loop, with \<open>False\<close> when the
  number turns out to be too big, and \<open>play_all\<close> plays a list until a sound is interrupted.
\<close>

datatype how = Digit | Word | Word_se | Joined | Zero_gr

type_synonym sound = "how \<times> string"

fun play_sound :: "'c player \<Rightarrow> sound \<Rightarrow> 'c \<Rightarrow> int \<times> 'c" where
  "play_sound p (Digit, f) = play_digit p f"
| "play_sound p (Word, f) = play_word p f"
| "play_sound p (Word_se, f) = play_word_se p f"
| "play_sound p (Joined, f) = play_joint p f"
| "play_sound p (Zero_gr, f) = wait_file p f"

fun play_all :: "'c player \<Rightarrow> sound list \<Rightarrow> 'c \<Rightarrow> int \<times> 'c" where
  "play_all p [] c = (0, c)"
| "play_all p (x # xs) c =
     (let (res, c) = play_sound p x c in if res \<noteq> 0 then (res, c) else play_all p xs c)"

definition finish_say :: "'c player \<Rightarrow> sound list \<times> bool \<Rightarrow> 'c \<Rightarrow> int \<times> 'c" where
  "finish_say p r c =
     (let (res, c) = play_all p (fst r) c in if res \<noteq> 0 then (res, c) else (if snd r then 0 else - 1, c))"

definition word_of :: "lang \<Rightarrow> string \<Rightarrow> sound" where
  "word_of l f = (if l = SE then Word_se else Word, f)"

definition zero_of :: "lang \<Rightarrow> sound" where
  "zero_of l = (if l = GR then Zero_gr else Digit, ''digits/0'')"

definition add_sounds :: "sound list \<Rightarrow> (sound list \<times> bool) \<Rightarrow> sound list \<times> bool" where
  "add_sounds xs r = (xs @ fst r, snd r)"

definition then_sounds :: "(sound list \<times> bool) \<Rightarrow> (sound list \<times> bool) option \<Rightarrow> (sound list \<times> bool) option" where
  "then_sounds r q = (if snd r then map_option (add_sounds (fst r)) q else Some r)"

fun script :: "nat \<Rightarrow> lang \<Rightarrow> say_state \<Rightarrow> (sound list \<times> bool) option"
  and script_items :: "nat \<Rightarrow> lang \<Rightarrow> say_item list \<Rightarrow> (sound list \<times> bool) option" where
  "script 0 l s = None"
| "script (Suc k) l s =
     (if \<not> busy l s then Some ([], True)
      else case body l s of
        None \<Rightarrow> Some ([], False)
      | Some (items, s') \<Rightarrow> do { r \<leftarrow> script_items k l items; then_sounds r (script k l s') })"
| "script_items k l [] = Some ([], True)"
| "script_items k l (Play f # is) = then_sounds ([word_of l f], True) (script_items k l is)"
| "script_items k l (Joint f # is) = then_sounds ([(Joined, f)], True) (script_items k l is)"
| "script_items k l (Say l' o' n # is) =
     do { r \<leftarrow> (if n = 0 then Some ([zero_of l'], True) else script k l' (start o' n));
          then_sounds r (script_items k l is) }"

definition script_of :: "nat \<Rightarrow> lang \<Rightarrow> string option \<Rightarrow> int \<Rightarrow> (sound list \<times> bool) option" where
  "script_of k l o' n = (if n = 0 then Some ([zero_of l], True) else script k l (start o' n))"

lemma play_all_append:
  "play_all p (xs @ ys) c =
     (let (res, c) = play_all p xs c in if res \<noteq> 0 then (res, c) else play_all p ys c)"
  by (induction xs arbitrary: c) (auto simp: Let_def split: prod.splits)

lemma finish_then:
  assumes "then_sounds r q = Some t"
  shows "finish_say p t c =
     (let (res, c) = finish_say p r c in if res \<noteq> 0 then (res, c) else finish_say p (the q) c)"
  using assms
  by (auto simp: then_sounds_def add_sounds_def finish_say_def play_all_append Let_def
      split: if_splits prod.splits)

lemma then_sounds_some:
  "then_sounds r q = Some t \<Longrightarrow> snd r \<Longrightarrow> \<exists>u. q = Some u"
  by (auto simp: then_sounds_def)

lemma finish_word: "finish_say p ([word_of l f], True) c = play_of p l f c"
  by (auto simp: finish_say_def word_of_def play_of_def Let_def split: prod.splits)

lemma finish_joint: "finish_say p ([(Joined, f)], True) c = play_joint p f c"
  by (auto simp: finish_say_def Let_def split: prod.splits)

lemma digits_zero: "cw_say_digits_full p 0 c = play_digit p ''digits/0'' c"
proof -
  have "dec 0 = ''0''" by (simp add: dec_def dec_nat.simps) code_simp
  moreover have "digit_file (CHR ''0'') = Some ''digits/0''" by code_simp
  ultimately show ?thesis by (auto simp: cw_say_digits_full_def Let_def split: prod.splits)
qed

lemma finish_zero: "finish_say p ([zero_of l], True) c = say_zero p l c"
  by (auto simp: finish_say_def zero_of_def say_zero_def digits_zero Let_def split: prod.splits)

lemma finish_fails: "\<not> snd r \<Longrightarrow> fst (finish_say p r c) \<noteq> 0"
  by (auto simp: finish_say_def Let_def split: prod.splits)

lemma finish_chain:
  assumes "then_sounds q S = Some r" and "\<And>u c. S = Some u \<Longrightarrow> Y c = Some (finish_say p u c)"
  shows "(case finish_say p q c of (res, c) \<Rightarrow> if res \<noteq> 0 then Some (res, c) else Y c) =
         Some (finish_say p r c)"
proof -
  obtain res c' where e: "finish_say p q c = (res, c')" by (cases "finish_say p q c")
  show ?thesis
    using e assms(2) finish_then [OF assms(1), of p c] then_sounds_some [OF assms(1)] finish_fails [of q p c]
    by (cases "snd q") auto
qed

lemma script_played:
  "script k l s = Some r \<Longrightarrow> say_loop k p l s c = Some (finish_say p r c)"
  "script_items k l is = Some r \<Longrightarrow> say_items k p l is c = Some (finish_say p r c)"
proof (induction k l s and k l "is" arbitrary: r c and r c rule: script_script_items.induct)
  case (2 k l s)
  show ?case
  proof (cases "busy l s \<and> body l s \<noteq> None")
    case False
    then show ?thesis using 2(3) by (cases "body l s") (auto simp: finish_say_def)
  next
    case True
    then obtain items s' where b: "body l s = Some (items, s')" and t: "busy l s" by auto
    obtain q where q: "script_items k l items = Some q" and r: "then_sounds q (script k l s') = Some r"
      using 2(3) t b by (auto split: bind_splits)
    have i: "say_items k p l items c = Some (finish_say p q c)"
      using 2(1) [OF _ b refl q] t by simp
    have "say_loop k p l s' c' = Some (finish_say p u c')" if "script k l s' = Some u" for u c'
      using 2(2) [OF _ b refl q that] t by simp
    from finish_chain [OF r this] show ?thesis using b t i by simp
  qed
next
  case (4 k l f "is")
  from finish_chain [OF 4(2) [unfolded script_items.simps] 4(1)] show ?case
    by (simp add: finish_word Let_def)
next
  case (5 k l f "is")
  from finish_chain [OF 5(2) [unfolded script_items.simps] 5(1)] show ?case
    by (simp add: finish_joint Let_def)
next
  case (6 k l l' o' n "is")
  obtain q where q: "(if n = 0 then Some ([zero_of l'], True) else script k l' (start o' n)) = Some q"
      and r: "then_sounds q (script_items k l is) = Some r"
    using 6(3) by (auto split: bind_splits)
  have "(if n = 0 then Some (say_zero p l' c) else say_loop k p l' (start o' n) c) = Some (finish_say p q c)"
    using q 6(1) by (auto simp: finish_zero split: if_splits)
  with finish_chain [OF r 6(2) [OF q]] show ?case by simp
qed (auto simp: finish_say_def)

end
