(* ===== verification/CW_Say_Returns.thy ===== *)
theory CW_Say_Returns
  imports CW_Say
begin

text \<open>
  The number routines return: every round of a loop, and every number routine called in it, has a
  smaller rank, so a fuel of 16 is enough for every \<open>int\<close>, for every language but Portuguese, whose
  routine returns below ten digits and never returns from there on.
\<close>

section \<open>The rank of a state\<close>

definition base :: "int \<Rightarrow> nat" where
  "base n =
     (let m = \<bar>n\<bar> in
      (if m = 0 then 0 else if m < 10 then 1 else if m < 20 then 2
       else if m < 100 then (if m mod 10 = 0 then 3 else 4)
       else if m < 200 then 7 else if m < 1000 then 8
       else if m < 1000000 then 10 else if m < 1000000000 then 12 else 14) + (if n < 0 then 1 else 0))"

definition rank :: "say_state \<Rightarrow> nat" where
  "rank s = base (num s) + of_bool (playh s) + of_bool (playa s) + of_bool (pend s) + of_bool (state s > 0)"

definition in_range :: "lang \<Rightarrow> say_state \<Rightarrow> bool" where
  "in_range l s \<longleftrightarrow> state s \<le> 3 \<and> INT_MIN \<le> num s \<and> num s \<le> 2147483647 \<and>
     (l = PT \<longrightarrow> \<bar>num s\<bar> < 1000000000)"

lemma base_zero [simp]: "base 0 = 0"
  by (simp add: base_def)

lemma base_bounds:
  "0 < n \<Longrightarrow> 1 \<le> base n" "10 \<le> n \<Longrightarrow> 2 \<le> base n" "20 \<le> n \<Longrightarrow> 3 \<le> base n"
  "20 \<le> n \<Longrightarrow> n mod 10 \<noteq> 0 \<Longrightarrow> 4 \<le> base n" "100 \<le> n \<Longrightarrow> 7 \<le> base n" "200 \<le> n \<Longrightarrow> 8 \<le> base n"
  "1000 \<le> n \<Longrightarrow> 10 \<le> base n" "1000000 \<le> n \<Longrightarrow> 12 \<le> base n" "1000000000 \<le> n \<Longrightarrow> 14 \<le> base n"
  "n < 0 \<Longrightarrow> base (- n) < base n"
  by (auto simp: base_def Let_def)

lemma base_upper:
  "0 \<le> n \<Longrightarrow> n < 10 \<Longrightarrow> base n \<le> 1" "0 \<le> n \<Longrightarrow> n < 20 \<Longrightarrow> base n \<le> 2"
  "0 \<le> n \<Longrightarrow> n < 100 \<Longrightarrow> base n \<le> 4" "0 \<le> n \<Longrightarrow> n < 100 \<Longrightarrow> n mod 10 = 0 \<Longrightarrow> base n \<le> 3"
  "0 \<le> n \<Longrightarrow> n < 200 \<Longrightarrow> base n \<le> 7" "0 \<le> n \<Longrightarrow> n < 1000 \<Longrightarrow> base n \<le> 8"
  "0 \<le> n \<Longrightarrow> n < 1000000 \<Longrightarrow> base n \<le> 10" "0 \<le> n \<Longrightarrow> n < 1000000000 \<Longrightarrow> base n \<le> 12"
  "base n \<le> 15" "0 \<le> n \<Longrightarrow> n < 1000 \<Longrightarrow> base (- n) \<le> 9"
  by (auto simp: base_def Let_def)

lemma base_parts:
  "base (n mod 10) \<le> 1" "base (n mod 100) \<le> 4" "base (n mod 1000) \<le> 8"
  "base (n mod 1000000) \<le> 10" "base (n mod 1000000000) \<le> 12"
  by (rule base_upper; simp)+

lemma base_quotients:
  "0 \<le> n \<Longrightarrow> n < 1000 \<Longrightarrow> base (n div 100) \<le> 1"
  "0 \<le> n \<Longrightarrow> n < 1000000 \<Longrightarrow> base (n div 1000) \<le> 8"
  "0 \<le> n \<Longrightarrow> n < 1000000 \<Longrightarrow> base (- (n div 1000)) \<le> 9"
  "0 \<le> n \<Longrightarrow> n < 1000000000 \<Longrightarrow> base (n div 1000000) \<le> 8"
  "0 \<le> n \<Longrightarrow> n \<le> 2147483647 \<Longrightarrow> base (n div 1000000) \<le> 10"
  "0 \<le> n \<Longrightarrow> n \<le> 2147483647 \<Longrightarrow> base (n div 1000000000) \<le> 1"
  by (rule base_upper; linarith)+

lemma base_tens: "20 \<le> n \<Longrightarrow> n < 100 \<Longrightarrow> base (n - n mod 10) \<le> 3"
proof (rule base_upper(4))
  show "(n - n mod 10) mod 10 = 0" by (simp add: minus_mod_eq_mult_div)
qed (use pos_mod_bound [of 10 n] pos_mod_sign [of 10 n] in linarith)+

lemma range_cases:
  fixes n :: int
  obtains (neg) "n < 0" "base (- n) < base n" "0 < base n"
  | (zero) "n = 0"
  | (units) "0 < n" "n < 10" "base n = 1"
  | (teens) "10 \<le> n" "n < 20" "base n = 2" "base (n mod 10) \<le> 1"
  | (tens) "20 \<le> n" "n < 100" "n mod 10 = 0" "base n = 3"
  | (both) "20 \<le> n" "n < 100" "n mod 10 \<noteq> 0" "base n = 4" "base (n mod 10) \<le> 1" "base (n - n mod 10) \<le> 3"
  | (hundred) "100 \<le> n" "n < 200" "base n = 7" "base (n mod 100) \<le> 4" "base (n - 100) \<le> 4"
  | (hundreds) "200 \<le> n" "n < 1000" "base n = 8" "base (n mod 100) \<le> 4" "base (n div 100) \<le> 1"
  | (thousands) "1000 \<le> n" "n < 1000000" "base n = 10" "base (n mod 1000) \<le> 8" "base (n div 1000) \<le> 8"
      "base (- (n div 1000)) \<le> 9"
  | (millions) "1000000 \<le> n" "n < 1000000000" "base n = 12" "base (n mod 1000000) \<le> 10"
      "base (n div 1000000) \<le> 8"
  | (milliards) "1000000000 \<le> n" "base n = 14" "base (n mod 1000000000) \<le> 12" "base (n mod 1000000) \<le> 10"
proof -
  consider "n < 20" | "20 \<le> n" "n < 1000" | "1000 \<le> n" by linarith
  then show thesis
  proof cases
    case a: 1
    then consider "n < 0" | "n = 0" | "0 < n" "n < 10" | "10 \<le> n" by linarith
    then show thesis
    proof cases
      case 1 show thesis by (rule neg) (use 1 in \<open>simp_all add: base_def Let_def\<close>)
    next
      case 2 then show thesis by (rule zero)
    next
      case 3 show thesis by (rule units) (use 3 in \<open>simp_all add: base_def\<close>)
    next
      case 4 show thesis by (rule teens) (use 4 a base_parts in \<open>simp_all add: base_def [of n]\<close>)
    qed
  next
    case a: 2
    then consider "n < 100" "n mod 10 = 0" | "n < 100" "n mod 10 \<noteq> 0" | "100 \<le> n" "n < 200" | "200 \<le> n"
      by linarith
    then show thesis
    proof cases
      case 1 show thesis by (rule tens) (use a 1 in \<open>simp_all add: base_def [of n]\<close>)
    next
      case 2 show thesis by (rule both) (use a 2 base_parts base_tens in \<open>simp_all add: base_def [of n]\<close>)
    next
      case 3 show thesis
        by (rule hundred) (use 3 base_parts base_upper(3) [of "n - 100"] in \<open>simp_all add: base_def [of n]\<close>)
    next
      case 4 show thesis by (rule hundreds) (use a 4 base_parts base_quotients in \<open>simp_all add: base_def [of n]\<close>)
    qed
  next
    case a: 3
    then consider "n < 1000000" | "1000000 \<le> n" "n < 1000000000" | "1000000000 \<le> n" by linarith
    then show thesis
    proof cases
      case 1 show thesis by (rule thousands) (use a 1 base_parts base_quotients in \<open>simp_all add: base_def [of n]\<close>)
    next
      case 2 show thesis by (rule millions) (use 2 base_parts base_quotients in \<open>simp_all add: base_def [of n]\<close>)
    next
      case 3 show thesis by (rule milliards) (use 3 base_parts in \<open>simp_all add: base_def [of n]\<close>)
    qed
  qed
qed

lemmas rest_is_mod = minus_div_mult_eq_mod minus_mult_div_eq_mod

text \<open>The number of digits that the Czech routine counts, and the power of ten it divides by.\<close>

lemma length_dec_nat: "10 ^ k \<le> n \<Longrightarrow> n < 10 ^ Suc k \<Longrightarrow> length (dec_nat n) = Suc k"
proof (induction k arbitrary: n)
  case 0
  then show ?case by (subst dec_nat.simps) simp
next
  case (Suc k)
  have "1 \<le> (10::nat) ^ k" by simp
  then have "\<not> n < 10" using Suc.prems by (simp only: power_Suc)
  moreover have "10 ^ k \<le> n div 10" "n div 10 < 10 ^ Suc k"
    using Suc.prems by (auto simp: less_eq_div_iff_mult_less_eq div_less_iff_less_mult mult.commute)
  ultimately show ?case using Suc.IH by (subst dec_nat.simps) simp
qed

lemma length_dec: "10 ^ k \<le> n \<Longrightarrow> n < 10 ^ Suc k \<Longrightarrow> length (dec n) = Suc k"
  using length_dec_nat [of k "nat n"]
  by (simp add: dec_def le_nat_iff nat_less_iff)

lemma exp10_int: "exp10_int k = 10 ^ k"
  by (induction k) (simp_all add: exp10_int_def)

lemma cz_length_thousands: "1000 \<le> n \<Longrightarrow> n < 1000000 \<Longrightarrow> cz_length n = 4"
  using length_dec [of 3 n] length_dec [of 4 n] length_dec [of 5 n]
  by (cases "n < 10000"; cases "n < 100000") (auto simp: cz_length_def Let_def)

lemma cz_length_millions: "1000000 \<le> n \<Longrightarrow> n < 1000000000 \<Longrightarrow> cz_length n = 7"
  using length_dec [of 6 n] length_dec [of 7 n] length_dec [of 8 n]
  by (cases "n < 10000000"; cases "n < 100000000") (auto simp: cz_length_def Let_def)

lemma cz_length_milliards: "1000000000 \<le> n \<Longrightarrow> n < 10000000000 \<Longrightarrow> cz_length n = 10"
  using length_dec [of 9 n] by (auto simp: cz_length_def Let_def)

lemmas cz_lengths = cz_length_thousands cz_length_millions cz_length_milliards

section \<open>Every body decreases the rank\<close>

fun call_ok :: "say_state \<Rightarrow> say_item \<Rightarrow> bool" where
  "call_ok s (Say l' o' n) \<longleftrightarrow> in_range l' (start o' n) \<and> rank (start o' n) < rank s"
| "call_ok s _ \<longleftrightarrow> True"

definition dec_result :: "lang \<Rightarrow> say_state \<Rightarrow> (say_item list \<times> say_state) option \<Rightarrow> bool" where
  "dec_result l s r = (case r of None \<Rightarrow> True | Some (items, s') \<Rightarrow>
     in_range l s' \<and> rank s' < rank s \<and> list_all (call_ok s) items)"

lemma call_ok_joint [simp]: "list_all (call_ok s) (if b then [Joint f] else [])"
  by simp

lemma int_parts [simp]:
  fixes n k :: int
  shows "0 < k \<Longrightarrow> INT_MIN \<le> n mod k" "0 < k \<Longrightarrow> k \<le> 2147483648 \<Longrightarrow> n mod k \<le> 2147483647"
    "0 \<le> n \<Longrightarrow> 0 < k \<Longrightarrow> INT_MIN \<le> n div k" "0 \<le> n \<Longrightarrow> n \<le> 2147483647 \<Longrightarrow> 0 < k \<Longrightarrow> n div k \<le> 2147483647"
proof -
  show "0 < k \<Longrightarrow> INT_MIN \<le> n mod k" using pos_mod_sign [of k n] by linarith
  show "0 < k \<Longrightarrow> k \<le> 2147483648 \<Longrightarrow> n mod k \<le> 2147483647" using pos_mod_bound [of k n] by linarith
  show "0 \<le> n \<Longrightarrow> 0 < k \<Longrightarrow> INT_MIN \<le> n div k" using pos_imp_zdiv_nonneg_iff [of k n] by linarith
  show "0 \<le> n \<Longrightarrow> n \<le> 2147483647 \<Longrightarrow> 0 < k \<Longrightarrow> n div k \<le> 2147483647"
    using zdiv_mono2 [of n 1 k] by simp
qed

lemmas dec_defs = dec_result_def in_range_def busy_def say_minus_def Let_def rank_def start_def rest_is_mod

lemma dec_en: "in_range EN s \<Longrightarrow> busy EN s \<Longrightarrow> dec_result EN s (say_en s)"
  by (cases "num s" rule: range_cases) (auto simp: dec_defs say_en_def)

lemma dec_br: "in_range BR s \<Longrightarrow> busy BR s \<Longrightarrow> dec_result BR s (say_br s)"
  by (cases "num s" rule: range_cases) (auto simp: dec_defs say_br_def)

lemma dec_cz: "in_range CZ s \<Longrightarrow> busy CZ s \<Longrightarrow> dec_result CZ s (say_cz s)"
  using base_quotients(6) [of "num s"]
  by (cases "num s" rule: range_cases) (auto simp: dec_defs say_cz_def cz_lengths exp10_int)

lemma dec_da: "in_range DA s \<Longrightarrow> busy DA s \<Longrightarrow> dec_result DA s (say_da s)"
  by (cases "num s" rule: range_cases) (auto simp: dec_defs say_da_def)

lemma dec_de: "in_range DE s \<Longrightarrow> busy DE s \<Longrightarrow> dec_result DE s (say_de s)"
  using base_quotients(6) [of "num s"]
  by (cases "num s" rule: range_cases) (auto simp: dec_defs say_de_def)

lemma dec_en_GB: "in_range EN_GB s \<Longrightarrow> busy EN_GB s \<Longrightarrow> dec_result EN_GB s (say_en_GB s)"
  by (cases "num s" rule: range_cases) (auto simp: dec_defs say_en_GB_def)

lemma dec_no: "in_range NO s \<Longrightarrow> busy NO s \<Longrightarrow> dec_result NO s (say_no s)"
  by (cases "num s" rule: range_cases) (auto simp: dec_defs say_no_def)

lemma dec_fr: "in_range FR s \<Longrightarrow> busy FR s \<Longrightarrow> dec_result FR s (say_fr s)"
  using base_upper(2) [of "num s - 60"] base_upper(2) [of "num s - 80"] base_upper(6) [of "num s - 1000"]
  by (cases "num s" rule: range_cases) (auto simp: dec_defs say_fr_def)

lemma dec_it: "in_range IT s \<Longrightarrow> busy IT s \<Longrightarrow> dec_result IT s (say_it s)"
  by (cases "num s" rule: range_cases) (auto simp: dec_defs say_it_def)

lemma dec_nl: "in_range NL s \<Longrightarrow> busy NL s \<Longrightarrow> dec_result NL s (say_nl s)"
  by (cases "num s" rule: range_cases) (auto simp: dec_defs say_nl_def)

lemma dec_pt: "in_range PT s \<Longrightarrow> busy PT s \<Longrightarrow> dec_result PT s (say_pt s)"
  by (cases "num s" rule: range_cases) (auto simp: dec_defs say_pt_def)

lemma dec_se: "in_range SE s \<Longrightarrow> busy SE s \<Longrightarrow> dec_result SE s (say_se s)"
  by (cases "num s" rule: range_cases) (auto simp: dec_defs say_se_def)

lemma dec_tw: "in_range TW s \<Longrightarrow> busy TW s \<Longrightarrow> dec_result TW s (say_tw s)"
  by (cases "num s" rule: range_cases) (auto simp: dec_defs say_tw_def)

lemma dec_gr: "in_range GR s \<Longrightarrow> busy GR s \<Longrightarrow> dec_result GR s (say_gr s)"
  by (cases "num s" rule: range_cases) (auto simp: dec_defs say_gr_def)

lemma dec_ru: "in_range RU s \<Longrightarrow> busy RU s \<Longrightarrow> dec_result RU s (say_ru s)"
  by (cases "num s" rule: range_cases) (auto simp: dec_defs say_ru_def)

lemma dec_es: "in_range ES s \<Longrightarrow> busy ES s \<Longrightarrow> dec_result ES s (say_es s)"
proof (cases "num s" rule: range_cases)
  case milliards
  assume "in_range ES s"
  moreover from milliards have "num s div 1000000 \<noteq> 1" by linarith
  ultimately show ?thesis using milliards base_quotients(5) [of "num s"]
    by (simp add: dec_defs say_es_def)
qed (auto simp: dec_defs say_es_def)

lemma dec_he_state: "in_range HE s \<Longrightarrow> state s \<noteq> 0 \<Longrightarrow> dec_result HE s (say_he s)"
  by (auto simp: dec_defs say_he_def le_Suc_eq numeral_3_eq_3)

lemma dec_he_zero: "in_range HE s \<Longrightarrow> num s \<noteq> 0 \<Longrightarrow> state s = 0 \<Longrightarrow> dec_result HE s (say_he s)"
proof (cases "num s" rule: range_cases)
  case hundreds
  assume "in_range HE s" "state s = 0"
  with hundreds show ?thesis using base_upper(5) [of "num s - 100"] 
    by (cases "num s < 300") (simp_all add: dec_defs say_he_def)
next
  case thousands
  assume "in_range HE s" "state s = 0"
  consider "num s < 2000" | "2000 \<le> num s" "num s < 3000" | "3000 \<le> num s" by linarith
  then show ?thesis
    using thousands \<open>in_range HE s\<close> \<open>state s = 0\<close> base_upper(6) [of "num s - 1000"] base_upper(6) [of "num s - 2000"]
    by cases (simp_all add: dec_defs say_he_def)
qed (simp_all add: dec_defs say_he_def)

lemma dec_he: "in_range HE s \<Longrightarrow> busy HE s \<Longrightarrow> dec_result HE s (say_he s)"
  using dec_he_state [of s] dec_he_zero [of s] by (auto simp: busy_def)

lemma body_decreases:
  assumes "in_range l s" "busy l s"
  shows "dec_result l s (body l s)"
  using assms unfolding body_def
  by (cases l) (simp_all add: dec_en dec_br dec_cz dec_da dec_de dec_en_GB dec_no dec_es dec_fr dec_he dec_it
      dec_nl dec_pt dec_se dec_tw dec_gr dec_ru)

section \<open>Enough fuel\<close>

lemma then_sounds_defined: "\<exists>u. q = Some u \<Longrightarrow> \<exists>t. then_sounds r q = Some t"
  by (auto simp: then_sounds_def)

lemma script_items_return:
  assumes "\<And>l s. in_range l s \<Longrightarrow> rank s < k \<Longrightarrow> \<exists>r. script k l s = Some r"
    and "list_all (\<lambda>i. case i of Say l' o' n \<Rightarrow> in_range l' (start o' n) \<and> rank (start o' n) < k | _ \<Rightarrow> True) items"
  shows "\<exists>r. script_items k l items = Some r"
  using assms(2)
proof (induction items)
  case (Cons i "is")
  from Cons.IH Cons.prems have q: "\<exists>u. script_items k l is = Some u" by simp
  show ?case
  proof (cases i)
    case (Say l' o' n)
    then obtain r where "(if n = 0 then Some ([zero_of l'], True) else script k l' (start o' n)) = Some r"
      using assms(1) [of l' "start o' n"] Cons.prems by (cases "n = 0") auto
    then show ?thesis using Say then_sounds_defined [OF q] by simp
  qed (use then_sounds_defined [OF q] in simp_all)
qed auto

lemma script_returns:
  "in_range l s \<Longrightarrow> rank s < k \<Longrightarrow> \<exists>r. script k l s = Some r"
proof (induction k arbitrary: l s)
  case (Suc k)
  show ?case
  proof (cases "busy l s \<and> body l s \<noteq> None")
    case False
    then show ?thesis by (cases "body l s") auto
  next
    case True
    then obtain items s' where b: "body l s = Some (items, s')" and t: "busy l s" by auto
    from body_decreases [OF Suc.prems(1) t] b have d: "in_range l s'" "rank s' < rank s" "list_all (call_ok s) items"
      by (auto simp: dec_result_def)
    from d(3) Suc.prems(2) have
      "list_all (\<lambda>i. case i of Say l' o' n \<Rightarrow> in_range l' (start o' n) \<and> rank (start o' n) < k | _ \<Rightarrow> True) items"
      by (auto simp: list_all_iff split: say_item.splits)
    from script_items_return [OF Suc.IH this] obtain r where r: "script_items k l items = Some r" by blast
    have "\<exists>u. script k l s' = Some u" using Suc.IH [OF d(1)] d(2) Suc.prems(2) by simp
    then show ?thesis using t b r then_sounds_defined by simp
  qed
qed simp

lemma rank_start: "rank (start o' n) < 16"
  using base_upper(9) [of n] by (simp add: rank_def start_def)



text \<open>
  C40. The Portuguese routine never returns for a number of ten digits: as long as no digit
  interrupts it, no amount of fuel lets it end.
\<close>

theorem portuguese_never_returns:
  assumes "1000000000 \<le> n" "\<And>f c. fst (play_word p f c) = 0"
  shows "say_number k p PT o' n c = None"
proof -
  have "say_loop k p PT s c = None" if "1000000000 \<le> num s" for s c
    using that
  proof (induction k arbitrary: c)
    case (Suc k)
    have "body PT s = Some ([Play (fname s)], s)" "busy PT s"
      using Suc.prems by (simp_all add: body_def say_pt_def busy_def)
    then show ?case using Suc assms(2) [of "fname s"] by (simp add: play_of_def Let_def split_beta)
  qed simp
  then show ?thesis using assms(1) by (simp add: say_number_def start_def)
qed

definition silent_player :: "unit player" where
  "silent_player = \<lparr>streamfile = (\<lambda>_ c. (0, c)), waitstream = (\<lambda>c. (0, c)),
     waitstream_full = (\<lambda>_ _ c. (0, c)), stopstream = (\<lambda>c. c), audiofd = - 1, ctrlfd = - 1\<rparr>"

theorem portuguese_never_returns_witness:
  "say_number 1000 silent_player PT None 1000000000 () = None"
  by (rule portuguese_never_returns) (simp_all add: play_word_def wait_for_stream_def silent_player_def)

end
