(* ===== verification/CW_Say_Meaning.thy ===== *)
theory CW_Say_Meaning
  imports CW_Say_Returns
begin

text \<open>
  What a listener understands: the files of an announcement are read as number words, and the number
  they stand for is the number that was to be said.
\<close>

section \<open>Number words\<close>

datatype token = Minus | Joining | Hundred | Thousand | Million | Milliard | Num int | Unknown

definition number_words :: "(string \<times> token) list" where
  "number_words =
     [(''minus'', Minus), (''and'', Joining), (''et'', Joining), (''nl-en'', Joining),
      (''short-and'', Joining), (''pt-e'', Joining), (''ve'', Joining), (''hundred'', Hundred), (''sta'', Hundred),
      (''set'', Hundred), (''1sto'', Num 100), (''2ste'', Num 200), (''thousand'', Thousand),
      (''thousands'', Thousand), (''thousands-i'', Thousand), (''1000'', Thousand), (''xilia'', Thousand),
      (''1_E3'', Thousand), (''2-4_E3'', Thousand), (''5_E3'', Thousand), (''2thousand'', Num 2000),
      (''million'', Million), (''millions'', Million), (''million-a'', Million), (''1000000'', Million),
      (''1000000S'', Million), (''1_E6'', Million), (''2-4_E6'', Million), (''5_E6'', Million),
      (''milliard'', Milliard), (''milliards'', Milliard), (''1_E9'', Milliard), (''2-4_E9'', Milliard)]"

definition token_of :: "string \<Rightarrow> token" where
  "token_of name =
     (case map_of number_words name of
        Some t \<Rightarrow> t
      | None \<Rightarrow>
          (let rest = (if take 8 name = ''hundred-'' then drop 8 name else name)
           in if isdigit (at0 rest) then Num (digits_val 0 rest) else Unknown))"

record heard =
  neg :: bool
  mil :: int
  thou :: int
  cur :: int

definition one_if_none :: "int \<Rightarrow> int" where
  "one_if_none x = (if x = 0 then 1 else x)"

fun hear_token :: "token \<Rightarrow> heard \<Rightarrow> heard" where
  "hear_token Minus r = r\<lparr>neg := \<not> neg r\<rparr>"
| "hear_token (Num n) r = r\<lparr>cur := cur r + n\<rparr>"
| "hear_token Hundred r = r\<lparr>cur := one_if_none (cur r) * 100\<rparr>"
| "hear_token Thousand r = r\<lparr>thou := thou r + one_if_none (cur r) * 1000, cur := 0\<rparr>"
| "hear_token Million r = r\<lparr>mil := mil r + one_if_none (thou r + cur r) * 1000000, thou := 0, cur := 0\<rparr>"
| "hear_token Milliard r = r\<lparr>mil := mil r + one_if_none (thou r + cur r) * 1000000000, thou := 0, cur := 0\<rparr>"
| "hear_token Joining r = r"
| "hear_token Unknown r = r"

definition hear :: "string \<Rightarrow> heard \<Rightarrow> heard" where
  "hear f = hear_token (token_of (drop 7 f))"

definition silence :: heard where
  "silence = \<lparr>neg = False, mil = 0, thou = 0, cur = 0\<rparr>"

definition understood :: "string list \<Rightarrow> int" where
  "understood fs =
     (let r = fold hear fs silence in (if neg r then - 1 else 1) * (mil r + thou r + cur r))"

section \<open>The words that are played\<close>

lemma word_keys:
  "list_all (\<lambda>(k, t). takeWhile isdigit k = [] \<or> digits_val 0 k \<ge> 1000 \<or>
      (length (dropWhile isdigit k) > 1 \<and> dropWhile isdigit k \<noteq> ''-and'')) number_words"
  by code_simp

lemma digits_val_stop: "\<not> isdigit (at0 s) \<Longrightarrow> digits_val acc s = acc"
  by (cases s) (auto simp: at0_def)

lemma dec_split:
  assumes "0 \<le> n" "\<not> isdigit (at0 suf)"
  shows "takeWhile isdigit (dec n @ suf) = dec n" "dropWhile isdigit (dec n @ suf) = suf"
    "digits_val 0 (dec n @ suf) = n" "isdigit (at0 (dec n @ suf))"
proof -
  have d: "\<forall>c\<in>set (dec n). isdigit c" using assms(1) dec_nat_digits by (auto simp: dec_def)
  have t: "takeWhile isdigit suf = []" "dropWhile isdigit suf = suf"
    using assms(2) by (cases suf; simp add: at0_def)+
  show "takeWhile isdigit (dec n @ suf) = dec n" using d t by (simp add: takeWhile_append2)
  show "dropWhile isdigit (dec n @ suf) = suf" using d t by (simp add: dropWhile_append2)
  show "digits_val 0 (dec n @ suf) = n"
    using d assms digits_val_dec_nat [of "nat n"] by (simp add: digits_val_append digits_val_stop dec_def)
  have "dec n \<noteq> []" using assms(1) by (simp add: dec_def)
  then show "isdigit (at0 (dec n @ suf))" using d by (cases "dec n") (auto simp: at0_def)
qed

lemma token_digits:
  assumes "0 \<le> n" "n < 1000" "\<not> isdigit (at0 suf)" "length suf \<le> 1 \<or> suf = ''-and''"
  shows "token_of (dec n @ suf) = Num n"
proof -
  note d = dec_split [OF assms(1,3)]
  have ne: "dec n \<noteq> []" using assms(1) by (simp add: dec_def)
  have "dec n @ suf \<noteq> k" if "(k, t) \<in> set number_words" for k t
    using that word_keys d ne assms(2,4) by (auto simp: list_all_iff)
  then have "map_of number_words (dec n @ suf) = None" by (force simp: map_of_eq_None_iff)
  moreover have "take 8 (dec n @ suf) \<noteq> ''hundred-''"
  proof
    assume "take 8 (dec n @ suf) = ''hundred-''"
    then have "at0 (dec n @ suf) = CHR ''h''" by (cases "dec n @ suf") (auto simp: at0_def)
    moreover have "\<not> isdigit (CHR ''h'')" by code_simp
    ultimately show False using d(4) by simp
  qed
  ultimately show ?thesis using d by (simp add: token_of_def)
qed

lemma hear_number:
  assumes "0 \<le> n" "n < 1000" "\<not> isdigit (at0 suf)" "length suf \<le> 1 \<or> suf = ''-and''"
  shows "hear (digits n @ suf) r = r\<lparr>cur := cur r + n\<rparr>"
  using token_digits [OF assms] by (simp add: hear_def digits_def)

lemma not_digits: "\<not> isdigit NUL" "\<not> isdigit (CHR ''F'')" "\<not> isdigit (CHR ''M'')" "\<not> isdigit (CHR ''-'')"
  by code_simp+

lemma hear_digits:
  assumes "0 \<le> n" "n < 1000"
  shows "hear (digits n) r = r\<lparr>cur := cur r + n\<rparr>"
    "hear (digits n @ ''F'') r = r\<lparr>cur := cur r + n\<rparr>"
    "hear (digits n @ ''-and'') r = r\<lparr>cur := cur r + n\<rparr>"
    "hear (digits n @ (if b then ''F'' else [])) r = r\<lparr>cur := cur r + n\<rparr>"
    "hear (digits n @ (if b then ''F'' else if b' then ''M'' else [])) r = r\<lparr>cur := cur r + n\<rparr>"
  using hear_number [OF assms, of "[]"] hear_number [OF assms, of "''F''"] hear_number [OF assms, of "''M''"]
    hear_number [OF assms, of "''-and''"]
  by (simp_all add: not_digits)

lemma hear_words:
  "hear ''digits/minus'' r = r\<lparr>neg := \<not> neg r\<rparr>"
  "hear ''digits/and'' r = r" "hear ''digits/et'' r = r" "hear ''digits/nl-en'' r = r"
  "hear ''digits/short-and'' r = r" "hear ''digits/pt-e'' r = r"
  "hear ''digits/hundred'' r = hear_token Hundred r" "hear ''digits/sta'' r = hear_token Hundred r"
  "hear ''digits/set'' r = hear_token Hundred r"
  "hear ''digits/1sto'' r = hear_token (Num 100) r" "hear ''digits/2ste'' r = hear_token (Num 200) r"
  "hear ''digits/thousand'' r = hear_token Thousand r" "hear ''digits/thousands'' r = hear_token Thousand r"
  "hear ''digits/thousands-i'' r = hear_token Thousand r" "hear ''digits/1000'' r = hear_token Thousand r"
  "hear ''digits/xilia'' r = hear_token Thousand r" "hear ''digits/1_E3'' r = hear_token Thousand r"
  "hear ''digits/2-4_E3'' r = hear_token Thousand r" "hear ''digits/5_E3'' r = hear_token Thousand r"
  "hear ''digits/million'' r = hear_token Million r" "hear ''digits/millions'' r = hear_token Million r"
  "hear ''digits/million-a'' r = hear_token Million r" "hear ''digits/1000000'' r = hear_token Million r"
  "hear ''digits/1000000S'' r = hear_token Million r" "hear ''digits/1_E6'' r = hear_token Million r"
  "hear ''digits/2-4_E6'' r = hear_token Million r" "hear ''digits/5_E6'' r = hear_token Million r"
  "hear ''digits/1N'' r = hear_token (Num 1) r" "hear ''digits/1F'' r = hear_token (Num 1) r"
  "hear ''digits/60'' r = hear_token (Num 60) r" "hear ''digits/80'' r = hear_token (Num 80) r"
  "hear ''digits/100'' r = hear_token (Num 100) r" "hear ''digits/100-and'' r = hear_token (Num 100) r"
  "hear ''digits/100E'' r = hear_token (Num 100) r" "hear ''digits/hundred-100'' r = hear_token (Num 100) r"
  "hear ''digits/0'' r = hear_token (Num 0) r"
  by (simp_all add: hear_def token_of_def number_words_def Let_def at0_def isdigit_def digit_val_def)

lemma hear_hundreds_gr:
  assumes "0 \<le> n"
  shows "hear (hundreds_gr n) r = r\<lparr>cur := cur r + n\<rparr>"
proof -
  have "list_all (\<lambda>(k, t). take 8 k \<noteq> ''hundred-'') number_words" by code_simp
  then have "map_of number_words (''hundred-'' @ dec n) = None"
    by (force simp: map_of_eq_None_iff list_all_iff)
  then show ?thesis using dec_split [OF assms, of "[]"]
    by (simp add: hear_def hundreds_gr_def token_of_def at0_def isdigit_def)
qed

section \<open>One round keeps the number\<close>

text \<open>
  \<open>meant\<close> relates the locals of a loop to what was heard so far, \<open>total\<close> is the number that is heard and
  still to be said.  The options of the Czech and Russian routines end up in file names; they are
  \<open>clean\<close> unless they begin with a digit.
\<close>

definition clean :: "string option \<Rightarrow> bool" where
  "clean o' = (case o' of None \<Rightarrow> True | Some w \<Rightarrow> \<not> isdigit (at0 w))"

lemma clean_simps [simp]:
  "clean None" "clean (Some ''n'')" "clean (Some ''c'')" "clean (Some ''M'')" "clean (Some ''f'')"
  "clean (Some ''m'')" "clean (Some ''w'')"
  by code_simp+

lemma hear_clean:
  "0 \<le> n \<Longrightarrow> n < 1000 \<Longrightarrow> clean (Some w) \<Longrightarrow> hear (digits n @ take (Suc 0) w) r = r\<lparr>cur := cur r + n\<rparr>"
  by (rule hear_number) (cases w; simp add: clean_def at0_def)+

definition total :: "say_state \<Rightarrow> heard \<Rightarrow> int" where
  "total s r = mil r + thou r + (if playh s then 100 * cur r else cur r) + num s"

definition says_well :: "lang \<Rightarrow> string option \<Rightarrow> int \<Rightarrow> bool" where
  "says_well l o' n \<longleftrightarrow> l \<noteq> HE \<and> (l = CZ \<or> l = RU \<longrightarrow> clean o') \<and> 0 \<le> n \<and> n < 1000000000 \<and>
     (l = PT \<and> opt_is o' (CHR ''f'') \<longrightarrow> n < 2000)"

definition meant :: "lang \<Rightarrow> say_state \<Rightarrow> heard \<Rightarrow> bool" where
  "meant l s r \<longleftrightarrow> says_well l (options s) (num s) \<and> state s = 0 \<and> 0 \<le> cur r \<and>
     (playh s \<longrightarrow> 1 \<le> cur r \<and> num s < 100 \<and> l \<in> {EN, DA, EN_GB, NO, FR, IT, NL, SE, TW}) \<and>
     (100 \<le> num s \<longrightarrow> cur r = 0) \<and> (1000000 \<le> num s \<longrightarrow> thou r = 0)"

fun hear_items :: "say_item list \<Rightarrow> heard \<Rightarrow> heard" where
  "hear_items [] r = r"
| "hear_items (Play f # is) r = hear_items is (hear f r)"
| "hear_items (Joint f # is) r = hear_items is (hear f r)"
| "hear_items (Say l o' n # is) r = hear_items is (r\<lparr>cur := cur r + n\<rparr>)"

fun calls_meant :: "say_item list \<Rightarrow> heard \<Rightarrow> bool" where
  "calls_meant [] r = True"
| "calls_meant (Play f # is) r = calls_meant is (hear f r)"
| "calls_meant (Joint f # is) r = calls_meant is (hear f r)"
| "calls_meant (Say l o' n # is) r \<longleftrightarrow>
     meant l (start o' n) r \<and> 0 < n \<and> n < 1000 \<and> calls_meant is (r\<lparr>cur := cur r + n\<rparr>)"

definition keeps :: "lang \<Rightarrow> say_state \<Rightarrow> heard \<Rightarrow> (say_item list \<times> say_state) option \<Rightarrow> bool" where
  "keeps l s r res = (case res of None \<Rightarrow> False | Some (items, s') \<Rightarrow>
     calls_meant items r \<and>
     (let r' = hear_items items r in
      meant l s' r' \<and> total s' r' = total s r \<and> neg r' = neg r \<and>
      (num s < 1000 \<longrightarrow> mil r' = mil r \<and> thou r' = thou r \<and> num s' < 1000)))"

lemma num_ranges:
  fixes n :: int
  obtains (neg) "n < 0"
  | (zero) "n = 0"
  | (units) "0 < n" "n < 10"
  | (teens) "10 \<le> n" "n < 20" "n div 10 * 10 = n - n mod 10" "0 \<le> n mod 10" "n mod 10 < 10"
  | (tens) "20 \<le> n" "n < 100" "n div 10 * 10 = n - n mod 10" "0 \<le> n mod 10" "n mod 10 < 10"
  | (hundred) "100 \<le> n" "n < 200" "n div 100 = 1" "n mod 100 = n - 100"
  | (hundreds) "200 \<le> n" "n < 1000" "n div 100 * 100 = n - n mod 100" "100 * (n div 100) = n - n mod 100"
      "0 \<le> n mod 100" "n mod 100 < 100" "2 \<le> n div 100" "n div 100 < 10"
  | (thousand) "1000 \<le> n" "n < 2000" "n div 1000 = 1" "n mod 1000 = n - 1000"
  | (thousands) "2000 \<le> n" "n < 1000000" "n div 1000 * 1000 = n - n mod 1000"
      "0 \<le> n mod 1000" "n mod 1000 < 1000" "2 \<le> n div 1000" "n div 1000 < 1000"
  | (million) "1000000 \<le> n" "n < 2000000" "n div 1000000 = 1" "n mod 1000000 = n - 1000000"
  | (millions) "2000000 \<le> n" "n < 1000000000" "n div 1000000 * 1000000 = n - n mod 1000000"
      "0 \<le> n mod 1000000" "n mod 1000000 < 1000000" "2 \<le> n div 1000000" "n div 1000000 < 1000"
  | (milliards) "1000000000 \<le> n"
proof (cases n rule: range_cases)
  case teens show thesis by (rule that(4)) (use teens in \<open>simp_all add: minus_mod_eq_div_mult\<close>)
next
  case tens show thesis by (rule that(5)) (use tens minus_mod_eq_div_mult [of n 10] in simp_all)
next
  case both show thesis by (rule that(5)) (use both in \<open>simp_all add: minus_mod_eq_div_mult\<close>)
next
  case hundred
  then have "n div 100 = 1" by simp
  with hundred show thesis using that(6) minus_mult_div_eq_mod [of n 100] by simp
next
  case hundreds show thesis by (rule that(7)) (use hundreds in \<open>simp_all add: minus_mod_eq_div_mult\<close>)
next
  case thousands
  show thesis
  proof (cases "n < 2000")
    case True
    with thousands have "n div 1000 = 1" by simp
    with thousands True show thesis using that(8) minus_mult_div_eq_mod [of n 1000] by simp
  qed (rule that(9); use thousands in \<open>simp add: minus_mod_eq_div_mult\<close>)
next
  case millions
  show thesis
  proof (cases "n < 2000000")
    case True
    with millions have "n div 1000000 = 1" by simp
    with millions True show thesis using that(10) minus_mult_div_eq_mod [of n 1000000] by simp
  qed (rule that(11); use millions in \<open>simp add: minus_mod_eq_div_mult\<close>)
next
  case neg show thesis by (rule that(1)) (fact neg(1))
next
  case zero show thesis by (rule that(2)) (fact zero)
next
  case units show thesis by (rule that(3)) (fact units(1,2))+
next
  case milliards show thesis by (rule that(12)) (fact milliards(1))
qed

text \<open>The same with the quotients and remainders as variables, which keeps the arithmetic linear.\<close>

lemma num_cases:
  fixes n :: int
  obtains (neg) "n < 0"
  | (zero) "n = 0"
  | (units) "0 < n" "n < 10"
  | (teens) t u where "10 \<le> n" "n < 20" "n div 10 = t" "n mod 10 = u" "n - t * 10 = u" "0 \<le> u" "u < 10"
  | (tens) t u where "20 \<le> n" "n < 100" "n div 10 = t" "n mod 10 = u" "n - t * 10 = u" "0 \<le> u" "u < 10"
  | (hundred) "100 \<le> n" "n < 200" "n div 100 = 1" "n mod 100 = n - 100"
  | (hundreds) h u where "200 \<le> n" "n < 1000" "n div 100 = h" "n mod 100 = u" "n - h * 100 = u" "n - 100 * h = u"
      "0 \<le> u" "u < 100" "2 \<le> h" "h < 10"
  | (thousand) "1000 \<le> n" "n < 2000" "n div 1000 = 1" "n mod 1000 = n - 1000"
  | (thousands) h u where "2000 \<le> n" "n < 1000000" "n div 1000 = h" "n mod 1000 = u" "n - h * 1000 = u"
      "0 \<le> u" "u < 1000" "2 \<le> h" "h < 1000"
  | (million) "1000000 \<le> n" "n < 2000000" "n div 1000000 = 1" "n mod 1000000 = n - 1000000"
  | (millions) h u where "2000000 \<le> n" "n < 1000000000" "n div 1000000 = h" "n mod 1000000 = u"
      "n - h * 1000000 = u" "0 \<le> u" "u < 1000000" "2 \<le> h" "h < 1000"
  | (milliards) "1000000000 \<le> n"
proof (cases n rule: num_ranges)
  case teens show thesis
    by (rule that(4) [OF _ _ refl refl]) (use teens in \<open>simp_all add: minus_div_mult_eq_mod\<close>)
next
  case tens show thesis
    by (rule that(5) [OF _ _ refl refl]) (use tens in \<open>simp_all add: minus_div_mult_eq_mod\<close>)
next
  case hundreds show thesis
    by (rule that(7) [OF _ _ refl refl]) (use hundreds in \<open>simp_all add: rest_is_mod\<close>)
next
  case thousands show thesis
    by (rule that(9) [OF _ _ refl refl]) (use thousands in \<open>simp_all add: minus_div_mult_eq_mod\<close>)
next
  case millions show thesis
    by (rule that(11) [OF _ _ refl refl]) (use millions in \<open>simp_all add: minus_div_mult_eq_mod\<close>)
qed (use that in simp_all)

lemmas keeps_defs = keeps_def meant_def says_well_def total_def start_def busy_def Let_def rest_is_mod
  hear_words hear_digits one_if_none_def

end
