(* ===== verification/CW_Say_Rounds.thy ===== *)
theory CW_Say_Rounds
  imports CW_Say_Meaning
begin

text \<open>
  Every round of every number routine keeps the number that is heard and still to be said.
\<close>

section \<open>The rounds of the languages\<close>

lemma hear_joint:
  "hear_items (if b then [Joint ''digits/pt-e''] else []) r = r" "calls_meant (if b then [Joint ''digits/pt-e''] else []) r"
  "hear_items (if b then [Joint ''digits/short-and''] else []) r = r" "calls_meant (if b then [Joint ''digits/short-and''] else []) r"
  by (simp_all add: hear_words)

lemma hear_option:
  assumes "0 \<le> n" "n < 1000" "clean o'"
  shows "hear (digits n @ (case o' of Some w \<Rightarrow> if length w = 1 \<and> b then w else [] | None \<Rightarrow> [])) r = r\<lparr>cur := cur r + n\<rparr>"
  by (rule hear_number [OF assms(1,2)]) (use assms(3) not_digits in \<open>auto simp: clean_def split: option.splits\<close>)

lemma clean_gender: "clean o' \<Longrightarrow> clean (Some (cz_gender o'))"
  by (auto simp: cz_gender_def split: option.splits)

lemma dec_powers: "dec 3 = ''3''" "dec 6 = ''6''"
  by (simp_all add: dec_def dec_nat.simps) code_simp+

definition cz_rest :: "say_state \<Rightarrow> int \<Rightarrow> string \<Rightarrow> (say_item list \<times> say_state) option" where
  "cz_rest s k e =
     (let n = num s; w = cz_gender (options s); left = n div k; w' = (if left = 2 then ''m'' else w)
      in Some ((if left > 1 then [Say CZ (Some w') left] else [])
                 @ [Play (''digits/'' @ (if left \<ge> 5 then ''5'' else if left \<ge> 2 then ''2-4'' else ''1'') @ e)],
               s\<lparr>options := Some w', num := n - left * k\<rparr>))"

lemma say_cz_rest:
  "1000 \<le> num s \<Longrightarrow> num s < 1000000 \<Longrightarrow> say_cz s = cz_rest s 1000 ''_E3''"
  "1000000 \<le> num s \<Longrightarrow> num s < 1000000000 \<Longrightarrow> say_cz s = cz_rest s 1000000 ''_E6''"
  by (simp_all add: say_cz_def cz_rest_def cz_lengths exp10_int dec_powers Let_def)

lemma keeps_cz_small: "meant CZ s r \<Longrightarrow> busy CZ s \<Longrightarrow> num s < 1000 \<Longrightarrow> keeps CZ s r (say_cz s)"
  using clean_gender [of "options s"]
  by (cases "num s" rule: num_cases) (auto simp: keeps_defs say_cz_def hear_clean)
lemma keeps_cz_large: "meant CZ s r \<Longrightarrow> busy CZ s \<Longrightarrow> 1000 \<le> num s \<Longrightarrow> keeps CZ s r (say_cz s)"
  using clean_gender [of "options s"]
  by (cases "num s" rule: num_cases) (auto simp: keeps_defs say_cz_rest cz_rest_def)

lemma keeps_cz: "meant CZ s r \<Longrightarrow> busy CZ s \<Longrightarrow> keeps CZ s r (say_cz s)"
  using keeps_cz_small keeps_cz_large by (meson not_less)

lemma keeps_en: "meant EN s r \<Longrightarrow> busy EN s \<Longrightarrow> keeps EN s r (say_en s)"
  by (cases "num s" rule: num_cases) (auto simp: keeps_defs say_en_def)

lemma keeps_br: "meant BR s r \<Longrightarrow> busy BR s \<Longrightarrow> keeps BR s r (say_br s)"
  by (cases "num s" rule: num_cases) (auto simp: keeps_defs say_br_def hear_joint)

lemma keeps_da: "meant DA s r \<Longrightarrow> busy DA s \<Longrightarrow> keeps DA s r (say_da s)"
  by (cases "num s" rule: num_cases) (auto simp: keeps_defs say_da_def)

lemma keeps_de: "meant DE s r \<Longrightarrow> busy DE s \<Longrightarrow> keeps DE s r (say_de s)"
  by (cases "num s" rule: num_cases) (auto simp: keeps_defs say_de_def)

lemma keeps_en_GB: "meant EN_GB s r \<Longrightarrow> busy EN_GB s \<Longrightarrow> keeps EN_GB s r (say_en_GB s)"
  by (cases "num s" rule: num_cases) (auto simp: keeps_defs say_en_GB_def)

lemma keeps_no: "meant NO s r \<Longrightarrow> busy NO s \<Longrightarrow> keeps NO s r (say_no s)"
  by (cases "num s" rule: num_cases) (auto simp: keeps_defs say_no_def)

lemma keeps_es: "meant ES s r \<Longrightarrow> busy ES s \<Longrightarrow> keeps ES s r (say_es s)"
  by (cases "num s" rule: num_cases) (auto simp: keeps_defs say_es_def)

lemma keeps_fr: "meant FR s r \<Longrightarrow> busy FR s \<Longrightarrow> keeps FR s r (say_fr s)"
  by (cases "num s" rule: num_cases) (auto simp: keeps_defs say_fr_def)

lemma keeps_it: "meant IT s r \<Longrightarrow> busy IT s \<Longrightarrow> keeps IT s r (say_it s)"
  by (cases "num s" rule: num_cases) (auto simp: keeps_defs say_it_def)

lemma keeps_nl: "meant NL s r \<Longrightarrow> busy NL s \<Longrightarrow> keeps NL s r (say_nl s)"
  by (cases "num s" rule: num_cases) (auto simp: keeps_defs say_nl_def)

lemma keeps_pt: "meant PT s r \<Longrightarrow> busy PT s \<Longrightarrow> keeps PT s r (say_pt s)"
  by (cases "num s" rule: num_cases) (auto simp: keeps_defs say_pt_def hear_joint)

lemma keeps_se: "meant SE s r \<Longrightarrow> busy SE s \<Longrightarrow> keeps SE s r (say_se s)"
  by (cases "num s" rule: num_cases) (auto simp: keeps_defs say_se_def)

lemma keeps_tw: "meant TW s r \<Longrightarrow> busy TW s \<Longrightarrow> keeps TW s r (say_tw s)"
  by (cases "num s" rule: num_cases) (auto simp: keeps_defs say_tw_def)

lemma keeps_gr: "meant GR s r \<Longrightarrow> busy GR s \<Longrightarrow> keeps GR s r (say_gr s)"
  by (cases "num s" rule: num_cases) (auto simp: keeps_defs say_gr_def hear_hundreds_gr)

lemma keeps_ru: "meant RU s r \<Longrightarrow> busy RU s \<Longrightarrow> keeps RU s r (say_ru s)"
  by (cases "num s" rule: num_cases) (auto simp: keeps_defs say_ru_def hear_option)

lemma body_keeps:
  assumes "meant l s r" "busy l s"
  shows "keeps l s r (body l s)"
  using assms unfolding body_def
  by (cases l) (auto simp: keeps_en keeps_br keeps_cz keeps_da keeps_de keeps_en_GB keeps_no keeps_es keeps_fr
      keeps_it keeps_nl keeps_pt keeps_se keeps_tw keeps_gr keeps_ru meant_def says_well_def)

end
