(* ===== verification/CW_Say_Understood.thy ===== *)
theory CW_Say_Understood
  imports CW_Say_Rounds
begin

text \<open>
  A whole announcement is understood as the number it announces.
\<close>

definition says :: "heard \<Rightarrow> say_state \<Rightarrow> heard \<Rightarrow> bool" where
  "says r s r' \<longleftrightarrow> neg r' = neg r \<and> mil r' + thou r' + cur r' = total s r \<and>
     (num s < 1000 \<longrightarrow> mil r' = mil r \<and> thou r' = thou r)"

lemma heard_append: "fold hear (map snd (xs @ ys)) r = fold hear (map snd ys) (fold hear (map snd xs) r)"
  by simp

lemma script_items_heard:
  assumes "\<And>l s r q. meant l s r \<Longrightarrow> script k l s = Some q \<Longrightarrow> snd q \<and> says r s (fold hear (map snd (fst q)) r)"
    and "calls_meant items r" "script_items k l items = Some q"
  shows "snd q \<and> fold hear (map snd (fst q)) r = hear_items items r"
  using assms(2,3)
proof (induction items arbitrary: r q)
  case (Cons i "is")
  show ?case
  proof (cases i)
    case (Play f)
    then obtain u where "script_items k l is = Some u" "q = add_sounds [word_of l f] u"
      using Cons.prems(2) by (auto simp: then_sounds_def)
    then show ?thesis using Play Cons.prems(1) Cons.IH [of "hear f r" u] by (simp add: add_sounds_def word_of_def)
  next
    case (Joint f)
    then obtain u where "script_items k l is = Some u" "q = add_sounds [(Joined, f)] u"
      using Cons.prems(2) by (auto simp: then_sounds_def)
    then show ?thesis using Joint Cons.prems(1) Cons.IH [of "hear f r" u] by (simp add: add_sounds_def)
  next
    case (Say l' o' n)
    with Cons.prems(1) have m: "meant l' (start o' n) r" "0 < n" "n < 1000"
        and c: "calls_meant is (r\<lparr>cur := cur r + n\<rparr>)" by auto
    from Cons.prems(2) Say m(2) obtain t where t: "script k l' (start o' n) = Some t"
        and q: "then_sounds t (script_items k l is) = Some q"
      by (auto split: bind_splits)
    from assms(1) [OF m(1) t] m(3) have s: "snd t" "fold hear (map snd (fst t)) r = r\<lparr>cur := cur r + n\<rparr>"
      by (auto simp: says_def total_def start_def)
    from q s(1) obtain u where "script_items k l is = Some u" "q = add_sounds (fst t) u"
      by (auto simp: then_sounds_def)
    then show ?thesis using Cons.IH [OF c] s(2) Say by (simp add: add_sounds_def)
  qed
qed simp

lemma script_heard:
  "meant l s r \<Longrightarrow> script k l s = Some q \<Longrightarrow> snd q \<and> says r s (fold hear (map snd (fst q)) r)"
proof (induction k arbitrary: l s r q)
  case (Suc k)
  show ?case
  proof (cases "busy l s")
    case False
    then have "num s = 0" "\<not> playh s" using Suc.prems(1) by (auto simp: busy_def meant_def split: if_splits)
    then show ?thesis using False Suc.prems(2) by (auto simp: says_def total_def)
  next
    case True
    from body_keeps [OF Suc.prems(1) True] obtain items s' where b: "body l s = Some (items, s')"
        and k: "calls_meant items r" "meant l s' (hear_items items r)"
          "total s' (hear_items items r) = total s r" "neg (hear_items items r) = neg r"
          "num s < 1000 \<Longrightarrow> mil (hear_items items r) = mil r \<and> thou (hear_items items r) = thou r \<and> num s' < 1000"
      by (auto simp: keeps_def Let_def split: option.splits)
    from Suc.prems(2) True b obtain t where t: "script_items k l items = Some t"
        and q: "then_sounds t (script k l s') = Some q"
      by (auto split: bind_splits)
    from script_items_heard [OF Suc.IH k(1) t] have h: "snd t" "fold hear (map snd (fst t)) r = hear_items items r"
      by auto
    from q h(1) obtain u where u: "script k l s' = Some u" "q = add_sounds (fst t) u"
      by (auto simp: then_sounds_def)
    from Suc.IH [OF k(2) u(1)] show ?thesis using u(2) h(2) k(3-5) by (auto simp: add_sounds_def says_def)
  qed
qed simp


definition recorder :: "string list player" where
  "recorder = \<lparr>streamfile = (\<lambda>f c. (0, c @ [f])), waitstream = (\<lambda>c. (0, c)),
     waitstream_full = (\<lambda>_ _ c. (0, c)), stopstream = (\<lambda>c. c), audiofd = - 1, ctrlfd = - 1\<rparr>"

lemma record_sound: "play_sound recorder x c = (0, c @ [snd x])"
  by (cases x; cases "fst x")
    (auto simp: play_digit_def play_word_def play_word_se_def play_joint_def wait_file_def
      wait_for_stream_def recorder_def)

lemma record_all: "play_all recorder xs c = (0, c @ map snd xs)"
  by (induction xs arbitrary: c) (simp_all add: record_sound)

lemma recorded:
  "script k l s = Some (xs, True) \<Longrightarrow> say_loop k recorder l s [] = Some (0, map snd xs)"
  by (simp add: script_played(1) finish_say_def record_all)

lemma positive_understood:
  assumes "says_well l o' n" "0 < n" "l = PT \<Longrightarrow> n < 1000000000"
  shows "\<exists>fs. say_number 16 recorder l o' n [] = Some (0, fs) \<and> understood fs = n"
proof -
  have "in_range l (start o' n)" using assms by (simp add: in_range_def start_def says_well_def)
  from script_returns [OF this rank_start] obtain xs b where q: "script 16 l (start o' n) = Some (xs, b)" by auto
  have "meant l (start o' n) silence" using assms by (simp add: meant_def start_def silence_def)
  from script_heard [OF this q] have "b" "says silence (start o' n) (fold hear (map snd xs) silence)" by auto
  then show ?thesis using assms(2) recorded [of 16] q
    by (auto simp: says_def understood_def total_def start_def silence_def say_number_def Let_def)
qed

lemma negative_understood:
  assumes "says_well l o' (- n)" "n < 0" "l \<noteq> GR"
  shows "\<exists>fs. say_number 16 recorder l o' n [] = Some (0, fs) \<and> understood fs = n"
proof -
  let ?s = "(start o' n)\<lparr>num := - n, fname := ''digits/minus''\<rparr>"
  have "INT_MIN < n" using assms by (simp add: says_well_def)
  then have b: "body l (start o' n) = Some ([Play ''digits/minus''], ?s)"
    using assms unfolding body_def says_well_def
    by (cases l) (simp_all add: say_en_def say_br_def say_cz_def say_da_def say_de_def say_en_GB_def say_no_def
        say_es_def say_fr_def say_it_def say_nl_def say_pt_def say_se_def say_tw_def say_ru_def say_minus_def
        start_def Let_def)
  have t: "busy l (start o' n)" using assms(2) by (simp add: busy_def start_def)
  have i: "in_range l (start o' n)" using assms by (simp add: in_range_def start_def says_well_def)
  obtain k where k: "16 = Suc k" by (rule that [of 15]) simp
  from script_returns [OF i rank_start] have "\<exists>q. script (Suc k) l (start o' n) = Some q" unfolding k .
  then obtain xs c where q: "script k l ?s = Some (xs, c)"
    using b t by (auto simp: then_sounds_def add_sounds_def)
  have "meant l ?s (silence\<lparr>neg := True\<rparr>)" using assms by (simp add: meant_def start_def silence_def)
  from script_heard [OF this q] have h: "c" "says (silence\<lparr>neg := True\<rparr>) ?s (fold hear (map snd xs) (silence\<lparr>neg := True\<rparr>))"
    by auto
  have "script (Suc k) l (start o' n) = Some (word_of l ''digits/minus'' # xs, True)"
    using b t q h(1) by (simp add: then_sounds_def add_sounds_def)
  from recorded [OF this] have "say_number 16 recorder l o' n [] = Some (0, ''digits/minus'' # map snd xs)"
    using assms(2) unfolding k by (simp add: say_number_def word_of_def)
  moreover have "understood (''digits/minus'' # map snd xs) = n"
    using h(2) by (simp add: understood_def hear_words silence_def says_def total_def start_def Let_def)
  ultimately show ?thesis by blast
qed

lemma zero_understood: "\<exists>fs. say_number 16 recorder l o' 0 [] = Some (0, fs) \<and> understood fs = 0"
proof -
  have "say_number 16 recorder l o' 0 [] = Some (finish_say recorder ([zero_of l], True) [])"
    by (simp add: say_number_def finish_zero)
  also have "\<dots> = Some (0, [''digits/0''])"
    unfolding finish_say_def record_all by (simp add: zero_of_def)
  finally show ?thesis by (simp add: understood_def hear_words silence_def)
qed



text \<open>
  The Hebrew routine says the numbers from 200 to 299 with two words for one hundred, and the
  Portuguese routine says feminine thousands with a minus.
\<close>

lemma hebrew_two_hundred:
  "say_number 16 recorder HE None 200 [] = Some (0, [''digits/hundred'', ''digits/hundred''])"
  by code_simp

end
