(* ===== verification/Spec2Isabelle.thy ===== *)
theory Spec2Isabelle
  imports CW_Hash CW_Sched CW_Acl Pbx_Pattern Pbx_Timing Pbx_Destroy Pbx_Run CW_Translate CW_Udptl CW_Say_Understood
begin

text \<open>
  CallWeaver is a telephone switch in C.  Its core library (\<open>src/corelib\<close>) keeps a dialplan, which says
  what happens to a call, and runs every call through it.  This development models the core library as
  functions on explicit states and proves what the functions promise.

  \<^bold>\<open>The program and the theories.\<close>  A dialplan is a set of contexts.  A context has extensions with
  numbered priorities, includes of other contexts, switches and patterns that keep the dial tone.  A
  call looks an extension up by the number dialled, runs the application of each priority with its
  variables substituted, and ends with the hang-up extension.  Around it the core has timers, access lists,
  format translation, facsimile packets and spoken numbers.

  \<^item> \<open>CW_Prelude\<close>, \<open>CW_Decimal\<close>: the C character and string routines the sources call, and the decimal
    notation of numbers.  C strings are lists of characters without the final NUL; reading the NUL is
    \<open>at0\<close>.  The locale \<open>op_machine\<close> carries an invariant over sequences of operations.
  \<^item> \<open>CW_Hash\<close>: \<open>corelib/callweaver_hash.c\<close> and \<open>include/callweaver/callweaver_hash.h\<close>, as 32 bit words.
  \<^item> \<open>CW_Time\<close>, \<open>CW_Sched\<close>: \<open>struct timeval\<close> (\<open>corelib/utils.c\<close>, \<open>include/callweaver/time.h\<close>) and the
    scheduler (\<open>corelib/sched.c\<close>).  The queue is a list of entries, the operations are steps of a machine;
    the locale \<open>timed_queue\<close> is the contract of the queue.
  \<^item> \<open>CW_Acl\<close>: host access lists (\<open>corelib/acl.c\<close>).
  \<^item> \<open>Pbx_Pattern\<close>, \<open>Pbx_Timing\<close>: matching of extension patterns and time conditions (\<open>corelib/pbx.c\<close>).
  \<^item> \<open>Pbx_Heap\<close>, \<open>Pbx_Hints\<close>: the cells \<open>struct cw_exten\<close> as a partial map from addresses, device states
    (\<open>corelib/devicestate.c\<close>) and the hints that watch them.
  \<^item> \<open>Pbx_Extens\<close>, \<open>Pbx_Rows\<close>, \<open>Pbx_Extens_Add\<close>, \<open>Pbx_Extens_Remove\<close>: \<open>cw_add_extension2\<close> and
    \<open>cw_context_remove_extension2\<close> as pointer assignments, the sorted rows they stand for, and the
    refinement of the one by the other.
  \<^item> \<open>Pbx_Contexts\<close>, \<open>Pbx_Destroy\<close>: the list of contexts with includes, switches and ignore patterns (locale
    \<open>entry_list\<close>), destroying contexts and replacing those of a registrar.
  \<^item> \<open>Pbx_Find\<close>, \<open>Pbx_Search\<close>: \<open>pbx_find_extension\<close> over contexts, includes and switches.
  \<^item> \<open>CW_Args\<close>, \<open>CW_Expr\<close>, \<open>Pbx_Registry\<close>: argument splitting (\<open>corelib/app.c\<close>), the
    operators of expressions (\<open>corelib/callweaver_expr2.y\<close>) on 64 bit words, and the registries of
    applications, functions and switches (locale \<open>registry\<close>).
  \<^item> \<open>Pbx_Vars\<close>, \<open>Pbx_Retrieve\<close>, \<open>Pbx_Subst\<close>: variables (\<open>corelib/chanvars.c\<close>, \<open>corelib/pbx.c\<close>), reading one,
    and substitution in a text with a bounded result buffer.
  \<^item> \<open>Pbx_Run\<close>: jumps, the loop over priorities with its error extensions, collecting digits into an array
    of 256 bytes, the end of a call and the limits on calls.
  \<^item> \<open>CW_Translate\<close>: \<open>corelib/translate.c\<close>, the matrix of translation paths and the frames that go along one.
  \<^item> \<open>CW_Udptl\<close>: \<open>corelib/udptl.c\<close>, packets with redundancy and parity on the side of sender and receiver.
  \<^item> \<open>CW_Say\<close>, \<open>CW_Say_Returns\<close>, \<open>CW_Say_Meaning\<close>, \<open>CW_Say_Rounds\<close>, \<open>CW_Say_Understood\<close>: the character, digit
    and number routines of \<open>corelib/say.c\<close> in all their languages, as loop bodies under one loop.

  \<^bold>\<open>How code is translated.\<close>  A struct is a record, an enumeration a datatype, a list of structs a list,
  where sharing or freeing of cells matters a heap.  Machine words are words where they wrap, and integers
  with their bounds elsewhere.  A value \<open>None\<close> stands for what the C standard leaves undefined (access to freed
  memory or behind an array) and for fuel that runs out; returned error codes are values.  Callbacks
  and code of other libraries are arguments: applications, functions, switches and channel drivers, the
  regular expressions and the parser tables of expressions, translators, sockets, the clock, the player of sound files.
  Locking is not modelled; every operation is one step.

  \<^bold>\<open>What is shown.\<close>
  \<^item> Patterns match exactly the texts that their tokens describe, and the verdict tells apart no match, match
    and too long; a time condition holds exactly in its minutes and its days of week, month and year.
  \<^item> The scheduler keeps its queue sorted, its times normalised and its counters right under all sequences of operations,
    runs exactly what is due in order of time, and deleting undoes adding.  The last matching rule of an access list decides.
  \<^item> Adding an extension refines insertion into rows; removing a priority removes exactly it, save for the
    first one, which loses the rest of its row.  The contexts keep their invariant; destroying and merging
    affect the contexts of the registrar only and keep watchers.
  \<^item> Looking up an extension returns, is sound and complete with respect to includes, and finds what was added.
    A hint reports the state that its devices give, and its watchers are told of changes.
  \<^item> Splitting arguments inverts quoting; integer arithmetic is exact modulo 2^64 and reports overflow exactly,
    with the three cases in which the process dies; expressions that avoid them return a text that fits.
  \<^item> Setting a variable updates a map; substitution replaces exactly the pieces, stays in its buffer, and sees
    the value that was set.
  \<^item> A channel runs its priorities in order, a jump lands on its target, a call leaves its state clean, and the
    limit on calls is kept.  Too many digits run over the array.
  \<^item> The translation matrix is optimal, its paths are chains of that cost.
  \<^item> A packet decodes to what was encoded, redundancy and parity repair lost packets; a packet may claim more
    secondary packets than there is room for.
  \<^item> An announcement of a number returns and is understood as that number, with the exceptions that the theorems
    name; the Portuguese routine does not return for ten digits.

  \<^bold>\<open>Bounds and fuel.\<close>  A walk over the cells of a context needs more fuel than it has cells, the nesting of includes
  one more than \<open>CW_PBX_MAX_STACK\<close>, because every level pushes a name and a full stack ends the search.  The loops of
  \<open>Pbx_Run\<close> run for ever on some dialplans, as they do in the source: the theorem on priorities gives the number of
  rounds that is enough, the one on the end of a call says what holds when the loop has come back.  The number routines need a fuel of 16: a rank of the locals, at most 15,
  decreases with every round and every nested call.  All other recursion is total.

  \<^bold>\<open>Not modelled.\<close>  Channels (\<open>corelib/channel.c\<close>) and everything that reads and writes sockets, files, terminals or
  devices: the drivers in \<open>channels\<close>, the formats, the manager and command line, configuration, logging, the
  data base, name resolution, real-time transport.  Their effect is input and output, and their behaviour depends on threads
  and descriptors, so that a pure function of a state would leave out what matters in them.  Codecs, tones and echo
  cancellation (floating point), the copies of third-party libraries (\<open>sqlite3-embedded\<close>, AES, the time zone code) and the generated scanner and parser are parameters or left out.  The applications in \<open>apps\<close>, the functions in
  \<open>funcs\<close> and the resources in \<open>res\<close> work on live channels; their calls are modelled, their bodies are parameters.  Of \<open>say.c\<close>
  the ordinal numbers, dates and times are left out: they are tables of file names over the broken-down time of the system.
  Of \<open>udptl.c\<close> native bridging, and of \<open>devicestate.c\<close> the thread that queues changes, are left out.
\<close>

end
